(* ===== verification/Prelude.thy ===== *)
theory Prelude
  imports Main "HOL-Library.Word" "HOL-Library.AList"
begin

unbundle bit_operations_syntax

section \<open>Shared vocabulary of the probes\<close>

text \<open>
  What every component of the toolbox uses: the integer types of
  \<^verbatim>\<open>common/types.h\<close> as words, the per-CPU copies of a BPF per-CPU map, C string reads, and the
  results of the BPF helper calls during one firing of a probe. A helper is code of the kernel,
  so its result is an argument of the model: one value of \<open>bpf_env\<close> per firing.
\<close>

type_synonym u8 = "8 word"
type_synonym u16 = "16 word"
type_synonym u32 = "32 word"
type_synonym u64 = "64 word"
type_synonym s32 = "32 word"
type_synonym s64 = "64 word"

text \<open>
  \<open>s32\<close> and \<open>s64\<close> are the same words read by \<open>sint\<close>; C's conversions between the signed and
  unsigned type of one width keep the bits.
\<close>

text \<open>A fixed-size character array that holds a C string is the string before its NUL.\<close>

type_synonym cstr = string

text \<open>
  Helper results during one firing. \<open>env_ns_pid dev ino\<close> is what
  \<^verbatim>\<open>bpf_get_ns_current_pid_tgid\<close> stores (\<open>tgid\<close>, \<open>pid\<close>), \<open>None\<close> when it returns a negative
  error; \<open>env_update_ok\<close> says whether the kernel can allocate for a map update,
  \<open>env_evict\<close> which keys an LRU map gives up for it, \<open>env_reserve_ok\<close> whether
  \<^verbatim>\<open>bpf_ringbuf_reserve\<close> finds room; \<open>env_user_str p\<close> is the C string user memory holds at
  \<open>p\<close>, \<open>None\<close> when reading it faults.
\<close>

record bpf_env =
  env_cpu :: nat
  env_ktime :: u64
  env_pid_tgid :: u64
  env_ns_pid :: "u64 \<Rightarrow> u64 \<Rightarrow> (u32 \<times> u32) option"
  env_comm :: cstr
  env_user_str :: "u64 \<Rightarrow> cstr option"
  env_reserve_ok :: bool
  env_update_ok :: bool
  env_evict :: "u64 list"

text \<open>
  \<open>if (stats) f(stats)\<close> on the copy of CPU \<open>c\<close>: outside the possible CPUs the lookup is NULL
  and nothing happens.
\<close>

definition percpu_upd :: "nat \<Rightarrow> ('s \<Rightarrow> 's) \<Rightarrow> 's list \<Rightarrow> 's list" where
  "percpu_upd c f ss = (if c < length ss then ss[c := f (ss ! c)] else ss)"

text \<open>
  \<^verbatim>\<open>bpf_probe_read_{user,kernel}_str\<close> into a buffer of \<open>n\<close> bytes: at most \<open>n - 1\<close> characters
  and a NUL, the count of bytes written with the NUL; a negative error and a zeroed buffer when
  the source faults.
\<close>

definition probe_read_str :: "nat \<Rightarrow> cstr option \<Rightarrow> int \<times> cstr" where
  "probe_read_str n src =
     (case src of None \<Rightarrow> (- 14, [])
      | Some s \<Rightarrow> (let t = take (n - 1) s in (int (length t) + 1, t)))"

text \<open>The two halves of a \<open>pid_tgid\<close>: thread-group id above, thread id below.\<close>

definition hi32 :: "u64 \<Rightarrow> u32" where
  "hi32 x = ucast (drop_bit 32 x)"

definition lo32 :: "u64 \<Rightarrow> u32" where
  "lo32 x = ucast x"

definition pack32 :: "u32 \<Rightarrow> u32 \<Rightarrow> u64" where
  "pack32 hi lo = push_bit 32 (ucast hi) OR ucast lo"

text \<open>
  A concrete firing in which every helper succeeds: CPU \<open>c\<close>, time \<open>t\<close>, thread \<open>tid\<close> of
  process \<open>tgid\<close>, visible under the same ids in every namespace.
\<close>

definition calm_env :: "nat \<Rightarrow> u64 \<Rightarrow> u32 \<Rightarrow> u32 \<Rightarrow> bpf_env" where
  "calm_env c t tgid tid =
     \<lparr>env_cpu = c, env_ktime = t, env_pid_tgid = pack32 tgid tid,
      env_ns_pid = \<lambda>_ _. Some (tgid, tid), env_comm = ''demo'',
      env_user_str = \<lambda>_. Some ''/tmp/a'', env_reserve_ok = True, env_update_ok = True,
      env_evict = []\<rparr>"

named_theorems probe_simps \<open>rewrite rules the component proofs share\<close>

section \<open>Lemmas\<close>

lemma length_percpu_upd [simp]: "length (percpu_upd c f ss) = length ss"
  by (simp add: percpu_upd_def)

lemma percpu_upd_id [simp]: "percpu_upd c (\<lambda>x. x) ss = ss"
  by (simp add: percpu_upd_def)

lemma nth_percpu_upd:
  "i < length ss \<Longrightarrow> percpu_upd c f ss ! i = (if i = c then f (ss ! i) else ss ! i)"
  by (auto simp: percpu_upd_def)

lemma percpu_upd_comp [simp]:
  "percpu_upd c f (percpu_upd c g ss) = percpu_upd c (\<lambda>x. f (g x)) ss"
  by (simp add: percpu_upd_def)

lemma replicate_two [simp]: "replicate 2 x = [x, x]"
  by (simp add: numeral_2_eq_2)

lemma calm_env_simps [simp]:
  "env_cpu (calm_env c t g p) = c"
  "env_ktime (calm_env c t g p) = t"
  "env_pid_tgid (calm_env c t g p) = pack32 g p"
  "env_ns_pid (calm_env c t g p) d i = Some (g, p)"
  "env_comm (calm_env c t g p) = ''demo''"
  "env_user_str (calm_env c t g p) a = Some ''/tmp/a''"
  "env_reserve_ok (calm_env c t g p)"
  "env_update_ok (calm_env c t g p)"
  "env_evict (calm_env c t g p) = []"
  by (simp_all add: calm_env_def)

text \<open>An observation the update leaves alone is left alone on every copy.\<close>

lemma map_percpu_upd:
  assumes "\<And>x. b (f x) = b x"
  shows "map b (percpu_upd c f ss) = map b ss"
  using assms by (auto simp: percpu_upd_def map_update list_update_same_conv)

lemma map_percpu_upd_comm:
  assumes "\<And>x. g (f x) = h (g x)"
  shows "map g (percpu_upd c f ss) = percpu_upd c h (map g ss)"
  using assms by (simp add: percpu_upd_def map_update)

lemma list_all_percpu_upd:
  assumes "list_all P ss" and "\<And>x. P x \<Longrightarrow> P (f x)"
  shows "list_all P (percpu_upd c f ss)"
  using assms by (auto simp: percpu_upd_def list_all_length nth_list_update)

text \<open>Where the copies after an update come from, and where those before it go.\<close>

lemma percpu_upd_from:
  assumes "v \<in> set (percpu_upd c f ss)"
  shows "v \<in> set ss \<or> (c < length ss \<and> v = f (ss ! c))"
  using assms set_update_subset_insert [of ss c "f (ss ! c)"]
  by (auto simp: percpu_upd_def split: if_splits)

lemma percpu_upd_to:
  assumes "u \<in> set ss"
  shows "u \<in> set (percpu_upd c f ss) \<or> (c < length ss \<and> u = ss ! c \<and> f u \<in> set (percpu_upd c f ss))"
proof -
  obtain i where i: "i < length ss" "u = ss ! i" using assms by (auto simp: in_set_conv_nth)
  then have "percpu_upd c f ss ! i \<in> set (percpu_upd c f ss)" by (intro nth_mem) simp
  then show ?thesis using i by (cases "i = c") (auto simp: nth_percpu_upd)
qed

lemma percpu_upd_new: "c < length ss \<Longrightarrow> f (ss ! c) \<in> set (percpu_upd c f ss)"
  by (simp add: percpu_upd_def set_update_memI)

text \<open>A counter summed over the CPUs moves by what the one copy moves.\<close>

lemma sum_list_update_group:
  fixes xs :: "'a::ab_group_add list"
  shows "c < length xs \<Longrightarrow> sum_list (xs[c := y]) = sum_list xs + (y - xs ! c)"
  by (induction xs arbitrary: c) (auto split: nat.splits)

lemma sum_percpu_upd:
  fixes g :: "'s \<Rightarrow> 'a::ab_group_add"
  assumes "\<And>x. g (f x) = g x + d"
  shows "sum_list (map g (percpu_upd c f ss)) =
    sum_list (map g ss) + (if c < length ss then d else 0)"
  by (auto simp: percpu_upd_def map_update sum_list_update_group assms)

lemma sum_percpu_upd_same:
  fixes g :: "'s \<Rightarrow> 'a::ab_group_add"
  assumes "\<And>x. g (f x) = g x"
  shows "sum_list (map g (percpu_upd c f ss)) = sum_list (map g ss)"
  using map_percpu_upd [of g f c ss] assms by simp

lemma sum_percpu_plus:
  fixes g :: "'s \<Rightarrow> u64"
  assumes "c < length ss" and "g (f (ss ! c)) = g (ss ! c) + d"
  shows "sum_list (map g (percpu_upd c f ss)) = sum_list (map g ss) + d"
  using assms by (simp add: percpu_upd_def map_update sum_list_update_group)

lemma sum_percpu_plus1:
  fixes g :: "'s \<Rightarrow> u64"
  assumes "\<And>x. g (f x) = g x + 1" and "c < length ss"
  shows "sum_list (map g (percpu_upd c f ss)) = sum_list (map g ss) + 1"
  using sum_percpu_upd [of g f 1 c ss] assms by simp

lemma sum_percpu_minus1:
  fixes g :: "'s \<Rightarrow> u64"
  assumes "\<And>x. g (f x) = g x - 1" and "c < length ss"
  shows "sum_list (map g (percpu_upd c f ss)) = sum_list (map g ss) - 1"
  using sum_percpu_upd [of g f "- 1" c ss] assms by simp

lemmas sum_percpu_rules = sum_percpu_plus1 sum_percpu_minus1 sum_percpu_upd_same

lemma sum_list_map_diff:
  fixes f g :: "'s \<Rightarrow> u64"
  shows "sum_list (map (\<lambda>x. f x - g x) xs) = sum_list (map f xs) - sum_list (map g xs)"
  by (induction xs) (simp_all add: algebra_simps)

text \<open>The bounded string read.\<close>

lemma probe_read_str_None [simp]: "probe_read_str n None = (- 14, [])"
  by (simp add: probe_read_str_def)

lemma probe_read_str_bound:
  "0 < n \<Longrightarrow> length (snd (probe_read_str n src)) < n"
  by (auto simp: probe_read_str_def Let_def split: option.split)

lemma probe_read_str_full:
  "0 < n \<Longrightarrow> fst (probe_read_str n src) = int n \<longleftrightarrow> (\<exists>s. src = Some s \<and> n - 1 \<le> length s)"
  by (auto simp: probe_read_str_def Let_def split: option.split)

lemma probe_read_str_neg: "fst (probe_read_str n src) < 0 \<longleftrightarrow> src = None"
  by (auto simp: probe_read_str_def Let_def split: option.split)

text \<open>Packing two halves and taking them apart.\<close>

lemma hi32_pack [simp]: "hi32 (pack32 h l) = h"
  unfolding hi32_def pack32_def
  by (rule bit_word_eqI)
    (auto simp: bit_simps dest: bit_imp_le_length)

lemma lo32_pack [simp]: "lo32 (pack32 h l) = l"
  unfolding lo32_def pack32_def
  by (rule bit_word_eqI) (auto simp: bit_simps dest: bit_imp_le_length)

lemma pack_hi_lo [simp]: "pack32 (hi32 x) (lo32 x) = x"
  unfolding hi32_def lo32_def pack32_def
  by (rule bit_word_eqI) (auto simp: bit_simps dest: bit_imp_le_length)

lemma pack32_eq_iff: "pack32 h l = pack32 h' l' \<longleftrightarrow> h = h' \<and> l = l'"
  by (metis hi32_pack lo32_pack)

lemma pack32_zero [simp]: "pack32 h l = 0 \<longleftrightarrow> h = 0 \<and> l = 0"
proof -
  have "pack32 0 0 = 0" by (simp add: pack32_def)
  then show ?thesis by (metis pack32_eq_iff)
qed

text \<open>Fewer than \<open>2^64\<close> things are counted without wrap-around.\<close>

lemma of_nat_zero_iff: "n < 2 ^ 64 \<Longrightarrow> (of_nat n :: u64) = 0 \<longleftrightarrow> n = 0"
  by (auto simp: word_of_nat_eq_0_iff dest: dvd_imp_le)

lemma unat_of_nat_small: "n < 2 ^ 64 \<Longrightarrow> unat (of_nat n :: u64) = n"
  by (simp add: unat_of_nat take_bit_nat_eq_self)

lemma unat_sum_list:
  "sum_list (map unat ws) < 2 ^ 64 \<Longrightarrow> unat (sum_list ws :: u64) = sum_list (map unat ws)"
proof (induction ws)
  case (Cons w ws)
  then show ?case by (simp add: unat_add_lem [THEN iffD1])
qed simp

text \<open>The bytes of a number of sectors fit into 64 bits.\<close>

lemma unat_sectors: "unat (ucast (n :: u32) * 512 :: u64) = 512 * unat n"
proof -
  have lt: "unat n < 2 ^ 32" using unsigned_less [of n, where ?'a = nat] by simp
  have "unat (ucast n :: u64) = unat n"
    using lt by (simp add: unsigned_ucast_eq take_bit_nat_eq_self)
  then show ?thesis
    using lt by (simp add: unat_mult_lem [THEN iffD1])
qed

end
