(* ===== verification/Printf.thy ===== *)
theory Printf
  imports Prelude
begin

section \<open>Text\<close>

text \<open>
  What the toolbox uses of the C library to write and read numbers: the digits of a number, the conversions of
  \<^verbatim>\<open>printf\<close> with a width, and a buffer of fixed size.
\<close>

subsection \<open>Digits\<close>

definition c_isspace :: "char \<Rightarrow> bool" where
  "c_isspace c \<longleftrightarrow> c \<in> set [CHR '' '', CHR 0x09, CHR 0x0A, CHR 0x0B, CHR 0x0C, CHR 0x0D]"

definition c_isdigit :: "char \<Rightarrow> bool" where
  "c_isdigit c \<longleftrightarrow> 48 \<le> (of_char c :: nat) \<and> (of_char c :: nat) \<le> 57"

definition digit_val :: "char \<Rightarrow> nat" where
  "digit_val c = of_char c - 48"

definition digits_val :: "string \<Rightarrow> nat" where
  "digits_val ds = foldl (\<lambda>n c. 10 * n + digit_val c) 0 ds"

text \<open>The digits of a number in base 10 and, lower case, in base 16.\<close>

fun decimal :: "nat \<Rightarrow> string" where
  "decimal n = (if n < 10 then [char_of (48 + n)] else decimal (n div 10) @ [char_of (48 + n mod 10)])"

declare decimal.simps [simp del]

definition hex_digit :: "nat \<Rightarrow> char" where
  "hex_digit d = char_of (if d < 10 then 48 + d else 87 + d)"

fun hexadecimal :: "nat \<Rightarrow> string" where
  "hexadecimal n = (if n < 16 then [hex_digit n] else hexadecimal (n div 16) @ [hex_digit (n mod 16)])"

declare hexadecimal.simps [simp del]

subsection \<open>Conversions\<close>

text \<open>
  \<open>%d\<close> and \<open>%lld\<close> of a signed and \<open>%u\<close> of an unsigned word, \<open>%x\<close>; a minimal width with blanks on the right
  (\<open>%-Ns\<close>) or on the left (\<open>%Ns\<close>), or with zeros (\<open>%0Nd\<close>, used with nonnegative values only).
\<close>

definition fmt_int :: "int \<Rightarrow> string" where
  "fmt_int i = (if i < 0 then CHR ''-'' # decimal (nat (- i)) else decimal (nat i))"

definition fmt_d :: "'a :: len word \<Rightarrow> string" where
  "fmt_d w = fmt_int (sint w)"

definition fmt_u :: "'a :: len word \<Rightarrow> string" where
  "fmt_u w = decimal (unat w)"

definition fmt_x :: "'a :: len word \<Rightarrow> string" where
  "fmt_x w = hexadecimal (unat w)"

definition ljust :: "nat \<Rightarrow> string \<Rightarrow> string" where
  "ljust n s = s @ replicate (n - length s) CHR '' ''"

definition rjust :: "nat \<Rightarrow> string \<Rightarrow> string" where
  "rjust n s = replicate (n - length s) CHR '' '' @ s"

definition zjust :: "nat \<Rightarrow> string \<Rightarrow> string" where
  "zjust n s = replicate (n - length s) CHR ''0'' @ s"

text \<open>\<^verbatim>\<open>snprintf\<close> into a buffer of \<open>n\<close> bytes keeps \<open>n - 1\<close> characters.\<close>

definition snprintf :: "nat \<Rightarrow> string \<Rightarrow> string" where
  "snprintf n s = take (n - 1) s"

text \<open>The pieces of a string between the occurrences of a character.\<close>

fun split_on :: "char \<Rightarrow> string \<Rightarrow> string list" where
  "split_on d [] = [[]]"
| "split_on d (c # cs) =
     (if c = d then [] # split_on d cs
      else (case split_on d cs of [] \<Rightarrow> [[c]] | p # ps \<Rightarrow> (c # p) # ps))"

section \<open>Lemmas\<close>

lemma split_on_span:
  "split_on d t = takeWhile (\<lambda>c. c \<noteq> d) t #
     (case dropWhile (\<lambda>c. c \<noteq> d) t of [] \<Rightarrow> [] | _ # r \<Rightarrow> split_on d r)"
  by (induction t) simp_all

lemma split_on_join: "d \<notin> set t \<Longrightarrow> split_on d (t @ d # r) = t # split_on d r"
  by (induction t) auto

lemma takeWhile_upto: "d \<notin> set t \<Longrightarrow> takeWhile (\<lambda>c. c \<noteq> d) (t @ d # r) = t"
  by (induction t) auto

lemma split_on_whole: "d \<notin> set t \<Longrightarrow> split_on d t = [t]"
  by (induction t) auto

lemma digit_char:
  assumes "k < 10"
  shows "c_isdigit (char_of (48 + k))" "digit_val (char_of (48 + k)) = k"
    "\<not> c_isspace (char_of (48 + k))" "char_of (48 + k) \<noteq> CHR ''-''" "char_of (48 + k) \<noteq> CHR ''+''"
proof -
  have *: "of_char (char_of (48 + k) :: char) = 48 + k"
    using assms by simp
  show "c_isdigit (char_of (48 + k))" "digit_val (char_of (48 + k)) = k"
    using assms by (simp_all add: c_isdigit_def digit_val_def)
  have ne: "of_char c \<noteq> (48 + k :: nat) \<Longrightarrow> char_of (48 + k) \<noteq> c" for c using * by auto
  show "\<not> c_isspace (char_of (48 + k))"
    using ne [of "CHR '' ''"] ne [of "CHR 0x09"] ne [of "CHR 0x0A"] ne [of "CHR 0x0B"]
      ne [of "CHR 0x0C"] ne [of "CHR 0x0D"]
    by (simp add: c_isspace_def)
  show "char_of (48 + k) \<noteq> CHR ''-''" "char_of (48 + k) \<noteq> CHR ''+''"
    by (rule ne, simp)+
qed

lemma decimal_digits: "list_all c_isdigit (decimal n)"
  by (induction n rule: decimal.induct)
     (subst decimal.simps, simp add: digit_char)

lemma decimal_val: "digits_val (decimal n) = n"
  by (induction n rule: decimal.induct)
     (subst decimal.simps, simp add: digit_char digits_val_def)

lemma decimal_first: "\<exists>k cs. k < (10 :: nat) \<and> decimal n = char_of (48 + k) # cs"
proof (induction n rule: decimal.induct)
  case (1 n)
  show ?case
  proof (cases "n < 10")
    case True
    then show ?thesis by (subst decimal.simps) auto
  next
    case False
    with 1 obtain k :: nat and cs where "k < 10" "decimal (n div 10) = char_of (48 + k) # cs" by blast
    then show ?thesis using False by (subst decimal.simps) auto
  qed
qed

lemma decimal_span [simp]:
  "takeWhile c_isdigit (decimal n) = decimal n" "dropWhile c_isdigit (decimal n) = []"
  using decimal_digits [of n] by (simp_all add: list_all_iff)

lemma decimal_not_Nil [simp]: "decimal n \<noteq> []"
  using decimal_first [of n] by auto

lemma length_decimal: "n < 10 ^ k \<Longrightarrow> 0 < k \<Longrightarrow> length (decimal n) \<le> k"
proof (induction k arbitrary: n)
  case (Suc k)
  show ?case
  proof (cases "n < 10")
    case True
    then show ?thesis by (subst decimal.simps) simp
  next
    case False
    then have k: "0 < k" using Suc.prems(1) by (cases k) simp_all
    have "n div 10 < 10 ^ k" using Suc.prems(1) by (simp add: div_less_iff_less_mult mult.commute)
    then show ?thesis using Suc.IH [OF _ k] False by (subst decimal.simps) simp
  qed
qed simp

lemma length_hexadecimal: "n < 16 ^ k \<Longrightarrow> 0 < k \<Longrightarrow> length (hexadecimal n) \<le> k"
proof (induction k arbitrary: n)
  case (Suc k)
  show ?case
  proof (cases "n < 16")
    case True
    then show ?thesis by (subst hexadecimal.simps) simp
  next
    case False
    then have k: "0 < k" using Suc.prems(1) by (cases k) simp_all
    have "n div 16 < 16 ^ k" using Suc.prems(1) by (simp add: div_less_iff_less_mult mult.commute)
    then show ?thesis using Suc.IH [OF _ k] False by (subst hexadecimal.simps) simp
  qed
qed simp

lemma decimal_inj: "decimal m = decimal n \<longleftrightarrow> m = n"
  by (metis decimal_val)

text \<open>None of the conversions writes a character below the blank, so none ends a line.\<close>

definition printable :: "string \<Rightarrow> bool" where
  "printable s \<longleftrightarrow> CHR 0x0A \<notin> set s"

lemma printable_simps [simp]:
  "printable []" "printable (c # s) \<longleftrightarrow> c \<noteq> CHR 0x0A \<and> printable s"
  "printable (s @ t) \<longleftrightarrow> printable s \<and> printable t" "printable (replicate n CHR '' '')"
  "printable (replicate n CHR ''0'')"
  by (auto simp: printable_def)

lemma printable_decimal [simp]: "printable (decimal n)"
  using decimal_digits [of n] by (auto simp: printable_def list_all_iff c_isdigit_def)

lemma hex_digit_visible: "d < 16 \<Longrightarrow> hex_digit d \<noteq> CHR 0x0A"
proof -
  assume "d < 16"
  then have "of_char (hex_digit d) \<noteq> (of_char CHR 0x0A :: nat)" by (simp add: hex_digit_def)
  then show ?thesis by metis
qed

lemma printable_hexadecimal [simp]: "printable (hexadecimal n)"
  by (induction n rule: hexadecimal.induct) (subst hexadecimal.simps, simp add: hex_digit_visible)

lemma printable_fmt [simp]: "printable (fmt_int i)" "printable (fmt_d w)" "printable (fmt_u v)" "printable (fmt_x x)"
  by (simp_all add: fmt_int_def fmt_d_def fmt_u_def fmt_x_def)

lemma printable_just [simp]:
  "printable (ljust n s) \<longleftrightarrow> printable s" "printable (rjust n s) \<longleftrightarrow> printable s" "printable (zjust n s) \<longleftrightarrow> printable s"
  by (simp_all add: ljust_def rjust_def zjust_def)

lemma printable_take: "printable s \<Longrightarrow> printable (take n s)"
  by (auto simp: printable_def dest: in_set_takeD)

lemma printable_snprintf [simp]: "printable s \<Longrightarrow> printable (snprintf n s)"
  by (simp add: snprintf_def printable_take)

lemma snprintf_fits [simp]: "length s < n \<Longrightarrow> snprintf n s = s"
  by (simp add: snprintf_def)

lemma length_just [simp]:
  "length (ljust n s) = max n (length s)" "length (rjust n s) = max n (length s)" "length (zjust n s) = max n (length s)"
  by (simp_all add: ljust_def rjust_def zjust_def)

end
