(* ===== verification/Cli.thy ===== *)
theory Cli
  imports Printf
begin

section \<open>The command line and the module registry\<close>

text \<open>
  \<^verbatim>\<open>common/cli.c\<close>, \<^verbatim>\<open>common/cli.h\<close> and \<^verbatim>\<open>common/registry.h\<close>: the modes, the module table, the two
  number parsers with the C library conversions they call, the option handler with its
  \<^verbatim>\<open>strtok_r\<close> loop over the mode list.
  \<^verbatim>\<open>argp_parse\<close> is the C library's: it calls the handler once per option of the command line,
  in order, so the model of \<^verbatim>\<open>app_parse_args\<close> takes that sequence of calls.
\<close>

subsection \<open>Modes, options and the registry\<close>

datatype app_mode =
    APP_MODE_UNSET | APP_MODE_CONTEXT_SWITCH | APP_MODE_PREEMPT | APP_MODE_SYSCALL
  | APP_MODE_TCP_MONITOR | APP_MODE_MSGQUEUE | APP_MODE_MUTEXLOCK | APP_MODE_FS_OPEN
  | APP_MODE_FS_READ | APP_MODE_FS_WRITE | APP_MODE_BLOCK_IO | APP_MODE_DR_SNOOP
  | APP_MODE_OOM_KILLER | APP_MODE_SLAB_RATE | APP_MODE_UDP_MONITOR

primrec mode_num :: "app_mode \<Rightarrow> nat" where
  "mode_num APP_MODE_UNSET = 0"
| "mode_num APP_MODE_CONTEXT_SWITCH = 1"
| "mode_num APP_MODE_PREEMPT = 2"
| "mode_num APP_MODE_SYSCALL = 3"
| "mode_num APP_MODE_TCP_MONITOR = 4"
| "mode_num APP_MODE_MSGQUEUE = 5"
| "mode_num APP_MODE_MUTEXLOCK = 6"
| "mode_num APP_MODE_FS_OPEN = 7"
| "mode_num APP_MODE_FS_READ = 8"
| "mode_num APP_MODE_FS_WRITE = 9"
| "mode_num APP_MODE_BLOCK_IO = 10"
| "mode_num APP_MODE_DR_SNOOP = 11"
| "mode_num APP_MODE_OOM_KILLER = 12"
| "mode_num APP_MODE_SLAB_RATE = 13"
| "mode_num APP_MODE_UDP_MONITOR = 14"

record app_options =
  mode :: app_mode
  mode_mask :: u64
  poll_timeout_ms :: s32
  enable :: bool
  target_pid :: s32
  min_delay_ns :: u64

text \<open>
  A row of the registry; the \<open>run\<close> function of a row is determined by its mode, so the model
  keeps it out of the row.
\<close>

record module_entry =
  name :: cstr
  entry_mode :: app_mode

definition MODULE_TABLE :: "module_entry list" where
  "MODULE_TABLE =
     [\<lparr>name = ''context'', entry_mode = APP_MODE_CONTEXT_SWITCH\<rparr>,
      \<lparr>name = ''preempt'', entry_mode = APP_MODE_PREEMPT\<rparr>,
      \<lparr>name = ''mutexlock'', entry_mode = APP_MODE_MUTEXLOCK\<rparr>,
      \<lparr>name = ''msgqueue'', entry_mode = APP_MODE_MSGQUEUE\<rparr>,
      \<lparr>name = ''syscall'', entry_mode = APP_MODE_SYSCALL\<rparr>,
      \<lparr>name = ''fs_open'', entry_mode = APP_MODE_FS_OPEN\<rparr>,
      \<lparr>name = ''fs_read'', entry_mode = APP_MODE_FS_READ\<rparr>,
      \<lparr>name = ''fs_write'', entry_mode = APP_MODE_FS_WRITE\<rparr>,
      \<lparr>name = ''block_io'', entry_mode = APP_MODE_BLOCK_IO\<rparr>,
      \<lparr>name = ''dr_snoop'', entry_mode = APP_MODE_DR_SNOOP\<rparr>,
      \<lparr>name = ''oom_killer'', entry_mode = APP_MODE_OOM_KILLER\<rparr>,
      \<lparr>name = ''slab_rate'', entry_mode = APP_MODE_SLAB_RATE\<rparr>,
      \<lparr>name = ''tcp_monitor'', entry_mode = APP_MODE_TCP_MONITOR\<rparr>,
      \<lparr>name = ''udp_monitor'', entry_mode = APP_MODE_UDP_MONITOR\<rparr>]"

definition find_by_name :: "cstr \<Rightarrow> module_entry option" where
  "find_by_name s = find (\<lambda>e. name e = s) MODULE_TABLE"

definition find_by_mode :: "app_mode \<Rightarrow> module_entry option" where
  "find_by_mode md = find (\<lambda>e. entry_mode e = md) MODULE_TABLE"

definition app_mode_to_string :: "app_mode \<Rightarrow> cstr" where
  "app_mode_to_string md = (case find_by_mode md of Some e \<Rightarrow> name e | None \<Rightarrow> ''unknown'')"

text \<open>
  \<open>build_mode_str\<close> writes into a static buffer of 512 bytes. The copy of a name stops at
  position 511; the separator and the final NUL are written unconditionally. \<open>None\<close> is a write
  outside the buffer.
\<close>

definition MODE_STR_SIZE :: nat where
  "MODE_STR_SIZE = 512"

definition mode_str_put :: "nat \<Rightarrow> char \<Rightarrow> cstr \<Rightarrow> cstr option" where
  "mode_str_put sz c buf = (if length buf < sz then Some (buf @ [c]) else None)"

fun mode_str_names :: "nat \<Rightarrow> bool \<Rightarrow> cstr list \<Rightarrow> cstr \<Rightarrow> cstr option" where
  "mode_str_names sz first [] buf = (if length buf < sz then Some buf else None)"
| "mode_str_names sz first (n # ns) buf =
     (case (if first then Some buf else mode_str_put sz (CHR ''|'') buf) of
        None \<Rightarrow> None
      | Some b \<Rightarrow> mode_str_names sz False ns (b @ take (sz - 1 - length b) n))"

definition build_mode_str :: "cstr option" where
  "build_mode_str = mode_str_names MODE_STR_SIZE True (map name MODULE_TABLE) []"

subsection \<open>Conversions of the C library\<close>

text \<open>
  \<open>strtol\<close> and \<open>strtoull\<close> in base 10: white space is skipped, one sign is taken, then the
  longest run of digits. The result has the value, whether \<open>errno\<close> became \<open>ERANGE\<close>, and where
  the conversion stopped; \<open>None\<close> there is \<open>end == arg\<close>, no digit found.
\<close>

definition take_sign :: "string \<Rightarrow> bool \<times> string" where
  "take_sign s =
     (case s of
        c # cs \<Rightarrow> if c = CHR ''-'' then (True, cs) else if c = CHR ''+'' then (False, cs) else (False, s)
      | [] \<Rightarrow> (False, s))"

record conv =
  conv_val :: int
  conv_erange :: bool
  conv_end :: "string option"

definition LONG_MAX :: int where
  "LONG_MAX = 2 ^ 63 - 1"

definition LONG_MIN :: int where
  "LONG_MIN = - (2 ^ 63)"

definition ULLONG_MAX :: int where
  "ULLONG_MAX = 2 ^ 64 - 1"

definition strtol :: "string \<Rightarrow> conv" where
  "strtol s =
     (let (neg, t) = take_sign (dropWhile c_isspace s);
          ds = takeWhile c_isdigit t;
          v = (if neg then - int (digits_val ds) else int (digits_val ds))
      in if ds = [] then \<lparr>conv_val = 0, conv_erange = False, conv_end = None\<rparr>
         else if v > LONG_MAX then
           \<lparr>conv_val = LONG_MAX, conv_erange = True, conv_end = Some (dropWhile c_isdigit t)\<rparr>
         else if v < LONG_MIN then
           \<lparr>conv_val = LONG_MIN, conv_erange = True, conv_end = Some (dropWhile c_isdigit t)\<rparr>
         else \<lparr>conv_val = v, conv_erange = False, conv_end = Some (dropWhile c_isdigit t)\<rparr>)"

definition strtoull :: "string \<Rightarrow> conv" where
  "strtoull s =
     (let (neg, t) = take_sign (dropWhile c_isspace s);
          ds = takeWhile c_isdigit t;
          v = int (digits_val ds)
      in if ds = [] then \<lparr>conv_val = 0, conv_erange = False, conv_end = None\<rparr>
         else if v > ULLONG_MAX then
           \<lparr>conv_val = ULLONG_MAX, conv_erange = True, conv_end = Some (dropWhile c_isdigit t)\<rparr>
         else \<lparr>conv_val = (if neg then (- v) mod 2 ^ 64 else v), conv_erange = False,
               conv_end = Some (dropWhile c_isdigit t)\<rparr>)"

subsection \<open>The option handler\<close>

text \<open>
  \<open>argp_error\<close> prints the message and ends the process with the usage status, so an error is
  final. \<open>Null_arg\<close> is a null argument given to \<^verbatim>\<open>strtol\<close>: argp never passes one, since every
  option of the table has a mandatory argument.
\<close>

datatype cli_error =
    Invalid_number
  | Invalid_delay
  | Invalid_mode_list
  | Invalid_mode cstr
  | Mode_too_large cstr
  | Empty_mode_list
  | Null_arg
  | Argp_err_unknown

definition parse_long_arg :: "cstr \<Rightarrow> int \<Rightarrow> int \<Rightarrow> cli_error + int" where
  "parse_long_arg arg lo hi =
     (let r = strtol arg
      in if conv_erange r \<or> conv_end r = None \<or> conv_end r \<noteq> Some [] \<or> conv_val r < lo \<or> conv_val r > hi
         then Inl Invalid_number
         else Inr (conv_val r))"

definition parse_u64_arg :: "cstr option \<Rightarrow> cli_error + u64" where
  "parse_u64_arg arg =
     (case arg of
        None \<Rightarrow> Inl Invalid_delay
      | Some s \<Rightarrow>
          if take 1 s = ''-'' then Inl Invalid_delay
          else (let r = strtoull s
                in if conv_erange r \<or> conv_end r = None \<or> conv_end r \<noteq> Some []
                   then Inl Invalid_delay
                   else Inr (word_of_int (conv_val r))))"

definition strtok_r :: "char \<Rightarrow> string \<Rightarrow> (string \<times> string) option" where
  "strtok_r d s =
     (let t = dropWhile (\<lambda>c. c = d) s
      in if t = [] then None
         else Some (takeWhile (\<lambda>c. c \<noteq> d) t, drop 1 (dropWhile (\<lambda>c. c \<noteq> d) t)))"

text \<open>The body of the loop over the names: one module added to the options.\<close>

definition add_mode :: "cstr \<Rightarrow> app_options \<Rightarrow> cli_error + app_options" where
  "add_mode nm opts =
     (case find_by_name nm of
        None \<Rightarrow> Inl (Invalid_mode nm)
      | Some e \<Rightarrow>
          if 64 \<le> mode_num (entry_mode e) then Inl (Mode_too_large nm)
          else (let o1 = opts\<lparr>mode_mask := mode_mask opts OR push_bit (mode_num (entry_mode e)) 1\<rparr>
                in Inr (if mode o1 = APP_MODE_UNSET then o1\<lparr>mode := entry_mode e\<rparr> else o1)))"

lemma strtok_r_shorter:
  assumes "strtok_r d s = Some (tok, rest)"
  shows "length rest < length s"
proof -
  let ?t = "dropWhile (\<lambda>c. c = d) s"
  have ne: "?t \<noteq> []" and rest: "rest = drop 1 (dropWhile (\<lambda>c. c \<noteq> d) ?t)"
    using assms by (auto simp: strtok_r_def Let_def split: if_splits)
  have "length (dropWhile (\<lambda>c. c \<noteq> d) ?t) \<le> length ?t" "length ?t \<le> length s"
    by (rule length_dropWhile_le)+
  moreover have "hd ?t = d \<Longrightarrow> False" using ne hd_dropWhile [of "\<lambda>c. c = d" s] by simp
  ultimately show ?thesis
    using ne rest by (cases ?t) (auto simp: le_less_trans [OF length_dropWhile_le])
qed

function parse_modes :: "cstr \<Rightarrow> app_options \<Rightarrow> cli_error + app_options" where
  "parse_modes s opts =
     (case strtok_r (CHR '','') s of
        None \<Rightarrow> Inr opts
      | Some (nm, rest) \<Rightarrow>
          (case add_mode nm opts of Inl e \<Rightarrow> Inl e | Inr o1 \<Rightarrow> parse_modes rest o1))"
  by pat_completeness auto
termination
  by (relation "measure (\<lambda>(s, _). length s)") (auto dest: strtok_r_shorter)

declare parse_modes.simps [simp del]

definition MODES_SIZE :: nat where
  "MODES_SIZE = 512"

definition INT32_MAX :: int where
  "INT32_MAX = 2 ^ 31 - 1"

definition parse_opt_mode :: "cstr option \<Rightarrow> app_options \<Rightarrow> cli_error + app_options" where
  "parse_opt_mode arg opts =
     (case arg of
        None \<Rightarrow> Inl Invalid_mode_list
      | Some s \<Rightarrow>
          if MODES_SIZE \<le> length s then Inl Invalid_mode_list
          else (case parse_modes s opts of
                  Inl e \<Rightarrow> Inl e
                | Inr o1 \<Rightarrow> if mode_mask o1 = 0 then Inl Empty_mode_list else Inr o1))"

definition with_long :: "cstr option \<Rightarrow> int \<Rightarrow> int \<Rightarrow> (int \<Rightarrow> app_options) \<Rightarrow> cli_error + app_options" where
  "with_long arg lo hi store =
     (case arg of
        None \<Rightarrow> Inl Null_arg
      | Some s \<Rightarrow> (case parse_long_arg s lo hi of Inl e \<Rightarrow> Inl e | Inr v \<Rightarrow> Inr (store v)))"

definition parse_opt :: "char \<Rightarrow> cstr option \<Rightarrow> app_options \<Rightarrow> cli_error + app_options" where
  "parse_opt key arg opts =
     (if key = CHR ''m'' then parse_opt_mode arg opts
      else if key = CHR ''t'' then
        with_long arg 1 60000 (\<lambda>v. opts\<lparr>poll_timeout_ms := word_of_int v\<rparr>)
      else if key = CHR ''e'' then with_long arg 0 1 (\<lambda>v. opts\<lparr>enable := (v = 1)\<rparr>)
      else if key = CHR ''p'' then
        with_long arg 0 INT32_MAX (\<lambda>v. opts\<lparr>target_pid := word_of_int v\<rparr>)
      else if key = CHR ''d'' then
        (case parse_u64_arg arg of Inl e \<Rightarrow> Inl e | Inr w \<Rightarrow> Inr (opts\<lparr>min_delay_ns := w\<rparr>))
      else Inl Argp_err_unknown)"

text \<open>
  \<open>app_parse_args\<close>: the defaults, the handler on every option of the command line, and the
  check that a mode was chosen. \<open>Exited\<close> is the process ended by \<open>argp_error\<close>;
  \<open>Ret_einval\<close> the negative return.
\<close>

datatype parse_outcome = Parsed app_options | Ret_einval | Exited cli_error

definition default_options :: app_options where
  "default_options =
     \<lparr>mode = APP_MODE_UNSET, mode_mask = 0, poll_timeout_ms = 100, enable = True,
      target_pid = 0, min_delay_ns = 0\<rparr>"

fun argp_calls :: "(char \<times> cstr option) list \<Rightarrow> app_options \<Rightarrow> cli_error + app_options" where
  "argp_calls [] opts = Inr opts"
| "argp_calls ((key, arg) # cs) opts =
     (case parse_opt key arg opts of Inl e \<Rightarrow> Inl e | Inr o1 \<Rightarrow> argp_calls cs o1)"

definition app_parse_args :: "(char \<times> cstr option) list \<Rightarrow> parse_outcome" where
  "app_parse_args calls =
     (case argp_calls calls default_options of
        Inl e \<Rightarrow> if e = Argp_err_unknown then Ret_einval else Exited e
      | Inr o1 \<Rightarrow> if mode o1 = APP_MODE_UNSET \<or> mode_mask o1 = 0 then Ret_einval else Parsed o1)"

subsection \<open>Reference definitions\<close>

text \<open>The names of a mode list: what lies between the commas, empty pieces dropped.\<close>

definition names_of :: "string \<Rightarrow> string list" where
  "names_of s = filter (\<lambda>t. t \<noteq> []) (split_on (CHR '','') s)"

definition known_name :: "cstr \<Rightarrow> bool" where
  "known_name n \<longleftrightarrow> n \<in> name ` set MODULE_TABLE"

definition mode_of_name :: "cstr \<Rightarrow> app_mode" where
  "mode_of_name n = (case find_by_name n of Some e \<Rightarrow> entry_mode e | None \<Rightarrow> APP_MODE_UNSET)"

definition mask_of :: "cstr list \<Rightarrow> u64" where
  "mask_of ns = fold (\<lambda>n w. w OR push_bit (mode_num (mode_of_name n)) 1) ns 0"

section \<open>Lemmas\<close>

subsection \<open>The registry\<close>

lemma module_table_distinct: "distinct (map name MODULE_TABLE)" "distinct (map entry_mode MODULE_TABLE)"
  by (simp_all add: MODULE_TABLE_def)

lemma mode_num_inj [simp]: "mode_num a = mode_num b \<longleftrightarrow> a = b"
  by (cases a; cases b) simp_all

lemma mode_num_bound: "mode_num m < 15"
  by (cases m) simp_all

lemma find_distinct:
  assumes "distinct (map f xs)" and "x \<in> set xs"
  shows "find (\<lambda>e. f e = f x) xs = Some x"
  using assms by (induction xs) (auto simp: rev_image_eqI)

lemma find_by_name_entry: "e \<in> set MODULE_TABLE \<Longrightarrow> find_by_name (name e) = Some e"
  unfolding find_by_name_def by (rule find_distinct [OF module_table_distinct(1)])

lemma find_by_mode_entry: "e \<in> set MODULE_TABLE \<Longrightarrow> find_by_mode (entry_mode e) = Some e"
  unfolding find_by_mode_def by (rule find_distinct [OF module_table_distinct(2)])

lemma find_by_name_None: "find_by_name n = None \<longleftrightarrow> \<not> known_name n"
  by (auto simp: find_by_name_def find_None_iff known_name_def)

lemma find_by_name_Some: "find_by_name n = Some e \<Longrightarrow> e \<in> set MODULE_TABLE \<and> name e = n"
  by (auto simp: find_by_name_def find_Some_iff)

lemma mode_of_name_entry: "e \<in> set MODULE_TABLE \<Longrightarrow> mode_of_name (name e) = entry_mode e"
  by (simp add: mode_of_name_def find_by_name_entry)

lemma entry_mode_set: "e \<in> set MODULE_TABLE \<Longrightarrow> entry_mode e \<noteq> APP_MODE_UNSET"
  by (auto simp: MODULE_TABLE_def)

subsection \<open>Splitting the mode list\<close>

lemma names_of_skip: "names_of (dropWhile (\<lambda>c. c = CHR '','') s) = names_of s"
  by (induction s) (simp_all add: names_of_def)

lemma names_of_span:
  assumes "c \<noteq> CHR '',''"
  shows "names_of (c # cs) = takeWhile (\<lambda>c. c \<noteq> CHR '','') (c # cs) #
    names_of (drop 1 (dropWhile (\<lambda>c. c \<noteq> CHR '','') (c # cs)))"
proof (cases "dropWhile (\<lambda>c. c \<noteq> CHR '','') cs")
  case Nil
  show ?thesis
    using assms split_on_span [of "CHR '',''" cs]
    by (simp add: names_of_def Nil del: dropWhile_eq_Nil_conv)
next
  case (Cons x r)
  then show ?thesis
    using assms split_on_span [of "CHR '',''" cs] by (simp add: names_of_def)
qed

lemma names_of_strtok:
  "names_of s = (case strtok_r (CHR '','') s of None \<Rightarrow> [] | Some (t, r) \<Rightarrow> t # names_of r)"
proof -
  let ?t = "dropWhile (\<lambda>c. c = CHR '','') s"
  show ?thesis
  proof (cases "?t")
    case Nil
    then have "strtok_r (CHR '','') s = None" by (simp add: strtok_r_def)
    moreover have "names_of s = names_of []" using names_of_skip [of s] Nil by simp
    ultimately show ?thesis by (simp add: names_of_def)
  next
    case (Cons c cs)
    have c: "c \<noteq> CHR '',''" using hd_dropWhile [of "\<lambda>c. c = CHR '',''" s] Cons by simp
    have "names_of s = names_of (c # cs)" using names_of_skip [of s] Cons by simp
    also have "\<dots> = takeWhile (\<lambda>c. c \<noteq> CHR '','') (c # cs) #
        names_of (drop 1 (dropWhile (\<lambda>c. c \<noteq> CHR '','') (c # cs)))"
      using c by (rule names_of_span)
    finally show ?thesis by (simp add: strtok_r_def Cons)
  qed
qed

subsection \<open>The loop over the names\<close>

fun add_modes :: "cstr list \<Rightarrow> app_options \<Rightarrow> cli_error + app_options" where
  "add_modes [] opts = Inr opts"
| "add_modes (n # ns) opts = (case add_mode n opts of Inl e \<Rightarrow> Inl e | Inr o1 \<Rightarrow> add_modes ns o1)"

lemma parse_modes_names: "parse_modes s opts = add_modes (names_of s) opts"
proof (induction s opts rule: parse_modes.induct)
  case (1 s opts)
  then show ?case
    by (subst parse_modes.simps, subst names_of_strtok)
       (auto split: option.split prod.split sum.split)
qed

definition with_mode :: "cstr \<Rightarrow> app_options \<Rightarrow> app_options" where
  "with_mode n opts =
     opts\<lparr>mode_mask := mode_mask opts OR push_bit (mode_num (mode_of_name n)) 1,
          mode := (if mode opts = APP_MODE_UNSET then mode_of_name n else mode opts)\<rparr>"

lemma add_mode_eq:
  "add_mode n opts = (if known_name n then Inr (with_mode n opts) else Inl (Invalid_mode n))"
proof (cases "find_by_name n")
  case None
  then show ?thesis by (simp add: add_mode_def find_by_name_None [symmetric])
next
  case (Some e)
  have "known_name n" using Some find_by_name_None [of n] by simp
  moreover have "mode_num (entry_mode e) < 64" using mode_num_bound [of "entry_mode e"] by simp
  ultimately show ?thesis
    using Some by (simp add: add_mode_def Let_def with_mode_def mode_of_name_def)
qed

lemma known_mode_of_name: "known_name n \<Longrightarrow> mode_of_name n \<noteq> APP_MODE_UNSET"
  by (auto simp: known_name_def mode_of_name_entry entry_mode_set)

lemma fold_OR_start:
  "fold (\<lambda>n w. w OR f n) ns (a OR b) = a OR fold (\<lambda>n w. w OR f n) ns (b :: u64)"
  by (induction ns arbitrary: b) (simp_all add: or.assoc)

lemma mask_of_Cons:
  "mask_of (n # ns) = push_bit (mode_num (mode_of_name n)) 1 OR mask_of ns"
  using fold_OR_start [of "\<lambda>n. push_bit (mode_num (mode_of_name n)) 1" ns
      "push_bit (mode_num (mode_of_name n)) 1" 0]
  by (simp add: mask_of_def)

lemma mask_of_Nil [simp]: "mask_of [] = 0"
  by (simp add: mask_of_def)

lemma add_modes_eq:
  "add_modes ns opts =
     (case find (\<lambda>n. \<not> known_name n) ns of
        Some n \<Rightarrow> Inl (Invalid_mode n)
      | None \<Rightarrow> Inr (opts\<lparr>mode_mask := mode_mask opts OR mask_of ns,
                        mode := (if mode opts = APP_MODE_UNSET \<and> ns \<noteq> [] then mode_of_name (hd ns)
                                 else mode opts)\<rparr>))"
proof (induction ns arbitrary: opts)
  case Nil
  then show ?case by simp
next
  case (Cons n ns)
  show ?case
  proof (cases "known_name n")
    case True
    then show ?thesis
      using known_mode_of_name [of n]
      by (simp add: add_mode_eq Cons.IH with_mode_def mask_of_Cons or.assoc split: option.split)
  qed (simp add: add_mode_eq)
qed

lemma bit_mask_of:
  "bit (mask_of ns) i \<longleftrightarrow> (\<exists>n\<in>set ns. mode_num (mode_of_name n) = i)"
proof (induction ns)
  case Nil
  then show ?case by simp
next
  case (Cons n ns)
  have "mode_num (mode_of_name n) < 64" using mode_num_bound [of "mode_of_name n"] by simp
  then show ?case
    by (auto simp: mask_of_Cons bit_or_iff bit_exp_iff Cons.IH)
qed

lemma mask_of_zero: "mask_of ns = 0 \<longleftrightarrow> ns = []"
proof (cases ns)
  case (Cons n ms)
  then have "bit (mask_of ns) (mode_num (mode_of_name n))" by (auto simp: bit_mask_of)
  then show ?thesis using Cons by auto
qed simp

subsection \<open>Numbers\<close>

lemma decimal_start:
  "dropWhile c_isspace (decimal n) = decimal n"
  "take_sign (decimal n) = (False, decimal n)"
  "take (Suc 0) (decimal n) \<noteq> ''-''"
  using decimal_first [of n] by (auto simp: digit_char take_sign_def)

lemma parse_long_decimal:
  "parse_long_arg (decimal n) lo hi =
     (if int n \<le> LONG_MAX \<and> lo \<le> int n \<and> int n \<le> hi then Inr (int n) else Inl Invalid_number)"
  by (auto simp: parse_long_arg_def strtol_def decimal_start decimal_val Let_def LONG_MIN_def)

lemma parse_u64_decimal:
  "parse_u64_arg (Some (decimal n)) = (if int n \<le> ULLONG_MAX then Inr (of_nat n) else Inl Invalid_delay)"
  by (simp add: parse_u64_arg_def strtoull_def decimal_start decimal_val Let_def)

lemma parse_long_digit:
  "parse_long_arg ''0'' 0 1 = Inr 0" "parse_long_arg ''1'' 0 1 = Inr 1"
  by code_simp+

lemma word_of_int_mod_64 [simp]: "(word_of_int (v mod 2 ^ 64) :: u64) = word_of_int v"
  by (simp add: word_of_int_eq_iff take_bit_eq_mod)

lemma parse_long_range:
  "parse_long_arg s lo hi = Inr v \<Longrightarrow> lo \<le> v \<and> v \<le> hi"
  by (auto simp: parse_long_arg_def Let_def split: if_splits)

subsection \<open>What the parsed options satisfy\<close>

text \<open>
  The state the handler keeps: the timeout and the PID in their ranges, the mask made of
  registered modes only, and the first mode among them once there is one.
\<close>

definition options_ok :: "app_options \<Rightarrow> bool" where
  "options_ok opts \<longleftrightarrow>
     1 \<le> sint (poll_timeout_ms opts) \<and> sint (poll_timeout_ms opts) \<le> 60000 \<and>
     0 \<le> sint (target_pid opts) \<and>
     (\<exists>ns. list_all known_name ns \<and> mode_mask opts = mask_of ns \<and>
       mode opts = (if ns = [] then APP_MODE_UNSET else mode_of_name (hd ns)))"

lemma options_ok_default: "options_ok default_options"
  unfolding options_ok_def default_options_def
  by (simp, rule exI [of _ "[]"], simp)

lemma mask_of_append: "mask_of (ns @ ms) = mask_of ns OR mask_of ms"
  by (induction ns) (simp_all add: mask_of_Cons or.assoc)

lemma parse_opt_mode_eq:
  "parse_opt_mode (Some s) opts =
     (if 512 \<le> length s then Inl Invalid_mode_list
      else (case find (\<lambda>n. \<not> known_name n) (names_of s) of
              Some n \<Rightarrow> Inl (Invalid_mode n)
            | None \<Rightarrow>
                if mode_mask opts = 0 \<and> names_of s = [] then Inl Empty_mode_list
                else Inr (opts\<lparr>mode_mask := mode_mask opts OR mask_of (names_of s),
                               mode := (if mode opts = APP_MODE_UNSET \<and> names_of s \<noteq> []
                                        then mode_of_name (hd (names_of s)) else mode opts)\<rparr>)))"
  by (simp add: parse_opt_mode_def MODES_SIZE_def parse_modes_names add_modes_eq mask_of_zero or_eq_0_iff
      split: option.split)

lemma options_ok_mode:
  assumes "options_ok opts" and "parse_opt_mode arg opts = Inr o1"
  shows "options_ok o1"
proof -
  obtain ns where ns: "list_all known_name ns" "mode_mask opts = mask_of ns"
      "mode opts = (if ns = [] then APP_MODE_UNSET else mode_of_name (hd ns))"
    using assms(1) by (auto simp: options_ok_def)
  obtain s where s: "arg = Some s" using assms(2) by (cases arg) (simp_all add: parse_opt_mode_def)
  let ?ms = "names_of s"
  have known: "list_all known_name ?ms"
    and o1: "o1 = opts\<lparr>mode_mask := mode_mask opts OR mask_of ?ms,
       mode := (if mode opts = APP_MODE_UNSET \<and> ?ms \<noteq> [] then mode_of_name (hd ?ms) else mode opts)\<rparr>"
    using assms(2) unfolding s parse_opt_mode_eq
    by (auto simp: find_None_iff list_all_iff split: if_splits option.splits)
  have "mode_of_name (hd ns) \<noteq> APP_MODE_UNSET" if "ns \<noteq> []"
    using that ns(1) by (cases ns) (simp_all add: known_mode_of_name)
  then have "mode o1 = (if ns @ ?ms = [] then APP_MODE_UNSET else mode_of_name (hd (ns @ ?ms)))"
    unfolding o1 using ns(3) by (cases ns) simp_all
  moreover have "list_all known_name (ns @ ?ms)" using ns(1) known by simp
  moreover have "mode_mask o1 = mask_of (ns @ ?ms)" by (simp add: o1 ns(2) mask_of_append)
  moreover have "poll_timeout_ms o1 = poll_timeout_ms opts" "target_pid o1 = target_pid opts"
    by (simp_all add: o1)
  ultimately show ?thesis
    using assms(1) unfolding options_ok_def by metis
qed

lemma sint_small: "0 \<le> v \<Longrightarrow> v \<le> INT32_MAX \<Longrightarrow> sint (word_of_int v :: s32) = v"
  by (simp add: INT32_MAX_def sint_sbintrunc' signed_take_bit_int_eq_self)

lemma with_long_Inr:
  "with_long arg lo hi f = Inr o1 \<longleftrightarrow>
     (\<exists>s v. arg = Some s \<and> parse_long_arg s lo hi = Inr v \<and> lo \<le> v \<and> v \<le> hi \<and> o1 = f v)"
  by (auto simp: with_long_def dest: parse_long_range split: option.splits sum.splits)

lemma options_ok_frame:
  "options_ok opts \<Longrightarrow> 1 \<le> v \<Longrightarrow> v \<le> 60000 \<Longrightarrow> options_ok (opts\<lparr>poll_timeout_ms := word_of_int v\<rparr>)"
  "options_ok opts \<Longrightarrow> 0 \<le> v \<Longrightarrow> v \<le> INT32_MAX \<Longrightarrow> options_ok (opts\<lparr>target_pid := word_of_int v\<rparr>)"
  "options_ok opts \<Longrightarrow> options_ok (opts\<lparr>enable := b\<rparr>)"
  "options_ok opts \<Longrightarrow> options_ok (opts\<lparr>min_delay_ns := w\<rparr>)"
  using sint_small [of v] by (auto simp: options_ok_def INT32_MAX_def)

lemma options_ok_opt:
  assumes "options_ok opts" and "parse_opt key arg opts = Inr o1"
  shows "options_ok o1"
  using assms options_ok_mode [OF assms(1)]
  by (auto simp: parse_opt_def with_long_Inr options_ok_frame split: if_splits sum.splits)

lemma options_ok_calls:
  "options_ok opts \<Longrightarrow> argp_calls calls opts = Inr o1 \<Longrightarrow> options_ok o1"
  by (induction calls opts rule: argp_calls.induct)
     (auto split: sum.splits dest: options_ok_opt)

lemma parsed_options_ok: "app_parse_args calls = Parsed opts \<Longrightarrow> options_ok opts"
  by (auto simp: app_parse_args_def split: sum.splits if_splits
      intro: options_ok_calls [OF options_ok_default])

lemma parse_only_modes:
  assumes "length s < 512" and "names_of s \<noteq> []" and "list_all known_name (names_of s)"
  shows "app_parse_args [(CHR ''m'', Some s)] =
    Parsed (default_options\<lparr>mode_mask := mask_of (names_of s), mode := mode_of_name (hd (names_of s))\<rparr>)"
proof -
  have none: "find (\<lambda>n. \<not> known_name n) (names_of s) = None"
    using assms(3) by (auto simp: find_None_iff list_all_iff)
  have ne: "mode_of_name (hd (names_of s)) \<noteq> APP_MODE_UNSET"
    using assms(2,3) by (cases "names_of s") (simp_all add: known_mode_of_name)
  show ?thesis
    using assms(1,2) none ne
    by (simp add: app_parse_args_def parse_opt_def parse_opt_mode_eq mask_of_zero default_options_def)
qed

text \<open>Options written out in decimal are read as the numbers they are.\<close>

lemma written_options:
  assumes "length s < 512" and "names_of s \<noteq> []" and "list_all known_name (names_of s)"
    and "1 \<le> t" and "t \<le> 60000" and "pid < 2 ^ 31" and "delay < 2 ^ 64"
  shows "app_parse_args
      [(CHR ''m'', Some s), (CHR ''t'', Some (decimal t)),
       (CHR ''e'', Some (if en then ''1'' else ''0'')),
       (CHR ''p'', Some (decimal pid)), (CHR ''d'', Some (decimal delay))]
    = Parsed \<lparr>mode = mode_of_name (hd (names_of s)), mode_mask = mask_of (names_of s),
              poll_timeout_ms = of_nat t, enable = en, target_pid = of_nat pid,
              min_delay_ns = of_nat delay\<rparr>"
proof -
  have none: "find (\<lambda>n. \<not> known_name n) (names_of s) = None"
    using assms(3) by (auto simp: find_None_iff list_all_iff)
  have ne: "mode_of_name (hd (names_of s)) \<noteq> APP_MODE_UNSET"
    using assms(2,3) by (cases "names_of s") (simp_all add: known_mode_of_name)
  have en: "parse_long_arg (if en then ''1'' else ''0'') 0 1 = Inr (if en then 1 else 0)"
    by (cases en) (simp_all add: parse_long_digit)
  have m: "parse_opt (CHR ''m'') (Some s) default_options =
      Inr (default_options\<lparr>mode_mask := mask_of (names_of s), mode := mode_of_name (hd (names_of s))\<rparr>)"
    using assms(1,2) none by (simp add: parse_opt_def parse_opt_mode_eq default_options_def)
  have *: "parse_opt (CHR ''t'') (Some (decimal t)) opts = Inr (opts\<lparr>poll_timeout_ms := of_nat t\<rparr>)"
    "parse_opt (CHR ''e'') (Some (if en then ''1'' else ''0'')) opts = Inr (opts\<lparr>enable := en\<rparr>)"
    "parse_opt (CHR ''p'') (Some (decimal pid)) opts = Inr (opts\<lparr>target_pid := of_nat pid\<rparr>)"
    "parse_opt (CHR ''d'') (Some (decimal delay)) opts = Inr (opts\<lparr>min_delay_ns := of_nat delay\<rparr>)" for opts
    using assms en
    by (simp_all add: parse_opt_def with_long_def parse_long_decimal parse_u64_decimal LONG_MAX_def
        INT32_MAX_def ULLONG_MAX_def)
  have "argp_calls
      [(CHR ''m'', Some s), (CHR ''t'', Some (decimal t)),
       (CHR ''e'', Some (if en then ''1'' else ''0'')),
       (CHR ''p'', Some (decimal pid)), (CHR ''d'', Some (decimal delay))] default_options =
    Inr \<lparr>mode = mode_of_name (hd (names_of s)), mode_mask = mask_of (names_of s),
         poll_timeout_ms = of_nat t, enable = en, target_pid = of_nat pid, min_delay_ns = of_nat delay\<rparr>"
    by (simp only: argp_calls.simps m * sum.case) (simp add: default_options_def)
  then show ?thesis
    using ne assms(2) by (simp add: app_parse_args_def mask_of_zero)
qed

section \<open>Properties\<close>

text \<open>
  C19: the \<open>-m\<close> option accepts exactly the comma-separated lists, shorter than the
  512-byte buffer, of names of the registry. It reports the first unknown name, refuses a list
  without any name, adds one bit per name to the mask and keeps the first name as the mode.
\<close>

theorem mode_list_meaning:
  "parse_opt (CHR ''m'') (Some s) opts =
     (if 512 \<le> length s then Inl Invalid_mode_list
      else (case find (\<lambda>n. \<not> known_name n) (names_of s) of
              Some n \<Rightarrow> Inl (Invalid_mode n)
            | None \<Rightarrow>
                if mode_mask opts = 0 \<and> names_of s = [] then Inl Empty_mode_list
                else Inr (opts\<lparr>mode_mask := mode_mask opts OR mask_of (names_of s),
                               mode := (if mode opts = APP_MODE_UNSET \<and> names_of s \<noteq> []
                                        then mode_of_name (hd (names_of s)) else mode opts)\<rparr>)))"
  by (simp add: parse_opt_def parse_opt_mode_eq)

text \<open>
  Whatever the command line, options that \<open>app_parse_args\<close> accepts have a poll
  timeout from 1 to 60000 ms, a target PID that is not negative, a registered mode whose bit is
  in the mask, and a mask with no bit outside the registry.
\<close>

lemma parsed_options_valid:
  assumes "app_parse_args calls = Parsed opts"
  shows "1 \<le> sint (poll_timeout_ms opts) \<and> sint (poll_timeout_ms opts) \<le> 60000
    \<and> 0 \<le> sint (target_pid opts)
    \<and> mode opts \<in> entry_mode ` set MODULE_TABLE \<and> bit (mode_mask opts) (mode_num (mode opts))
    \<and> (\<forall>i. bit (mode_mask opts) i \<longrightarrow> (\<exists>e \<in> set MODULE_TABLE. mode_num (entry_mode e) = i))"
proof -
  obtain ns where ns: "list_all known_name ns" "mode_mask opts = mask_of ns"
      "mode opts = (if ns = [] then APP_MODE_UNSET else mode_of_name (hd ns))"
    and range: "1 \<le> sint (poll_timeout_ms opts)" "sint (poll_timeout_ms opts) \<le> 60000"
      "0 \<le> sint (target_pid opts)"
    using parsed_options_ok [OF assms] by (auto simp: options_ok_def)
  have "mode_mask opts \<noteq> 0"
    using assms by (auto simp: app_parse_args_def split: sum.splits if_splits)
  then have ne: "ns \<noteq> []" using ns(2) by auto
  have reg: "\<exists>e \<in> set MODULE_TABLE. mode_of_name n = entry_mode e" if n: "n \<in> set ns" for n
  proof -
    obtain e where "e \<in> set MODULE_TABLE" "n = name e"
      using n ns(1) by (auto simp: list_all_iff known_name_def)
    then show ?thesis using mode_of_name_entry by blast
  qed
  have "mode opts \<in> entry_mode ` set MODULE_TABLE" "bit (mode_mask opts) (mode_num (mode opts))"
    using ne reg [of "hd ns"] by (auto simp: ns(2,3) bit_mask_of)
  moreover have "\<exists>e \<in> set MODULE_TABLE. mode_num (entry_mode e) = i" if "bit (mode_mask opts) i" for i
    using that reg by (fastforce simp: ns(2) bit_mask_of)
  ultimately show ?thesis using range by blast
qed

text \<open>
  C37: a command line that spells out a list of registered names and in-range numbers
  in decimal is parsed to exactly those options: nothing is clamped, truncated or lost between
  the text and the configuration.
\<close>

theorem options_round_trip:
  assumes "length s < 512" and "names_of s \<noteq> []" and "list_all known_name (names_of s)"
    and "1 \<le> t" and "t \<le> 60000" and "pid < 2 ^ 31" and "delay < 2 ^ 64"
  shows "app_parse_args
      [(CHR ''m'', Some s), (CHR ''t'', Some (decimal t)),
       (CHR ''e'', Some (if en then ''1'' else ''0'')),
       (CHR ''p'', Some (decimal pid)), (CHR ''d'', Some (decimal delay))]
    = Parsed \<lparr>mode = mode_of_name (hd (names_of s)), mode_mask = mask_of (names_of s),
              poll_timeout_ms = of_nat t, enable = en, target_pid = of_nat pid,
              min_delay_ns = of_nat delay\<rparr>"
  using assms by (rule written_options)

theorem options_round_trip_witness:
  "app_parse_args
      [(CHR ''m'', Some ''msgqueue,,fs_open''), (CHR ''t'', Some (decimal 250)),
       (CHR ''e'', Some ''0''), (CHR ''p'', Some (decimal 4321)), (CHR ''d'', Some (decimal 100000))]
    = Parsed \<lparr>mode = mode_of_name ''msgqueue'', mode_mask = mask_of [''msgqueue'', ''fs_open''],
              poll_timeout_ms = 250, enable = False, target_pid = 4321, min_delay_ns = 100000\<rparr>"
proof -
  have names: "names_of ''msgqueue,,fs_open'' = [''msgqueue'', ''fs_open'']" by code_simp
  have known: "list_all known_name [''msgqueue'', ''fs_open'']" by code_simp
  show ?thesis
    using options_round_trip [of "''msgqueue,,fs_open''" 250 4321 100000 False]
    unfolding names using known by simp
qed

text \<open>
  every mode but \<open>APP_MODE_UNSET\<close> has a row of the registry, and the name printed
  for it is the one that selects it; \<open>APP_MODE_UNSET\<close> prints as unknown and no name selects it.
\<close>

lemma mode_name_round_trip:
  "find_by_name (app_mode_to_string md) =
     (if md = APP_MODE_UNSET then None
      else Some \<lparr>name = app_mode_to_string md, entry_mode = md\<rparr>)"
  by (cases md) (simp_all add: app_mode_to_string_def find_by_mode_def find_by_name_def MODULE_TABLE_def)

text \<open>
  C38: the check on \<open>arg[0]\<close> rejects a delay that starts with a minus sign, and every
  unsigned decimal below \<open>2^64\<close> is taken at its value; but one leading blank hides the sign from
  the check and \<open>strtoull\<close> wraps the negated value around, the conversion the comment above the
  function says is prevented.
\<close>

theorem delay_sign:
  "parse_u64_arg (Some (CHR ''-'' # s)) = Inl Invalid_delay
   \<and> parse_u64_arg (Some (decimal (unat w))) = Inr w
   \<and> parse_u64_arg (Some (CHR '' '' # CHR ''-'' # decimal (unat w))) = Inr (- w)"
proof -
  have le: "int (unat w) \<le> ULLONG_MAX" for w :: u64
    using unsigned_less [of w, where ?'a = int] by (simp add: ULLONG_MAX_def)
  have "strtoull (CHR '' '' # CHR ''-'' # decimal (unat w)) =
      \<lparr>conv_val = (- int (unat w)) mod 2 ^ 64, conv_erange = False, conv_end = Some []\<rparr>"
    using le [of w] by (simp add: strtoull_def c_isspace_def take_sign_def decimal_val Let_def)
  then have "parse_u64_arg (Some (CHR '' '' # CHR ''-'' # decimal (unat w))) =
      Inr (word_of_int ((- int (unat w)) mod 2 ^ 64))"
    by (simp add: parse_u64_arg_def)
  also have "\<dots> = Inr (- w)"
    by (simp only: word_of_int_mod_64) simp
  finally have "parse_u64_arg (Some (CHR '' '' # CHR ''-'' # decimal (unat w))) = Inr (- w)" .
  moreover have "parse_u64_arg (Some (decimal (unat w))) = Inr w"
    using le [of w] by (simp add: parse_u64_decimal)
  moreover have "parse_u64_arg (Some (CHR ''-'' # s)) = Inl Invalid_delay"
    by (simp add: parse_u64_arg_def)
  ultimately show ?thesis by blast
qed

end
