(* ===== verification/RunLoop.thy ===== *)
theory RunLoop
  imports Prelude
begin

section \<open>The life of a module\<close>

text \<open>
  The part of \<^verbatim>\<open>common/cli.c\<close> the modules call while they run (the exit flags and the PID
  namespace lookup) and the \<open>*_run\<close> function of a module: read the namespace, load the
  skeleton, write the configuration, create the ring buffer, attach, poll until asked to
  stop, print the summary, release everything. Almost all modules have
  this sequence with few differences, the parameters of \<open>run_module\<close> and \<open>run_loaded\<close>. libbpf and the kernel are
  arguments: \<open>run_env\<close> has the result of every call of one run.
\<close>

subsection \<open>Exit flags and the PID namespace\<close>

record exit_flags =
  g_signal_exit_requested :: bool
  g_thread_exit_requested :: bool

definition app_signal_handler :: "exit_flags \<Rightarrow> exit_flags" where
  "app_signal_handler fl = fl\<lparr>g_signal_exit_requested := True\<rparr>"

definition app_should_exit :: "exit_flags \<Rightarrow> bool" where
  "app_should_exit fl \<longleftrightarrow> g_signal_exit_requested fl \<or> g_thread_exit_requested fl"

definition app_request_exit :: "exit_flags \<Rightarrow> exit_flags" where
  "app_request_exit fl = fl\<lparr>g_thread_exit_requested := True\<rparr>"

definition app_reset_exit_flag :: "exit_flags \<Rightarrow> exit_flags" where
  "app_reset_exit_flag fl =
     fl\<lparr>g_signal_exit_requested := False, g_thread_exit_requested := False\<rparr>"

text \<open>
  \<open>sigaction\<close> is an argument: \<open>Some e\<close> when it fails with \<open>errno = e\<close>. The result is the
  return value and the signals that have the handler afterwards.
\<close>

definition SIGINT :: int where
  "SIGINT = 2"

definition SIGTERM :: int where
  "SIGTERM = 15"

definition app_setup_signal_handlers :: "(int \<Rightarrow> int option) \<Rightarrow> int \<times> int list" where
  "app_setup_signal_handlers sigact =
     (case sigact SIGINT of
        Some e \<Rightarrow> (- e, [])
      | None \<Rightarrow> (case sigact SIGTERM of Some e \<Rightarrow> (- e, [SIGINT]) | None \<Rightarrow> (0, [SIGINT, SIGTERM])))"

text \<open>
  \<open>stat("/proc/self/ns/pid")\<close> is an argument: the device and inode, or \<open>errno\<close>.
  The result is the return value and what was stored.
\<close>

definition EINVAL :: int where
  "EINVAL = 22"

definition app_get_pid_namespace ::
    "bool \<Rightarrow> bool \<Rightarrow> int + (u64 \<times> u64) \<Rightarrow> int \<times> (u64 \<times> u64) option" where
  "app_get_pid_namespace dev_null ino_null st =
     (if dev_null \<or> ino_null then (- EINVAL, None)
      else (case st of Inl e \<Rightarrow> (- e, None) | Inr di \<Rightarrow> (0, Some di)))"

text \<open>
  The results of one run: \<^verbatim>\<open>stat\<close> and \<^verbatim>\<open>getpid\<close>, whether the skeleton loads and the ring buffer
  can be made, what the map update and the attach return, and per iteration of the loop the
  exit flags it sees with what \<^verbatim>\<open>ring_buffer__poll\<close> returns next.
\<close>

record run_env =
  re_stat :: "int + (u64 \<times> u64)"
  re_getpid :: s32
  re_load :: bool
  re_ctrl_err :: int
  re_rb :: bool
  re_attach_err :: int
  re_polls :: "(exit_flags \<times> int) list"

text \<open>The calls a run makes, with their results; \<open>Set_skel\<close> and \<open>Clear_skel\<close> write \<open>g_skel\<close>.\<close>

datatype 'c action =
    Load bool
  | Set_skel
  | Write_ctrl 'c int
  | Rb_new bool
  | Attach int
  | Poll s32 int
  | Print_stats
  | Clear_skel
  | Rb_free bool
  | Destroy

definition EINTR :: int where
  "EINTR = 4"

definition ENOMEM :: int where
  "ENOMEM = 12"

text \<open>
  The loop: the value of \<open>err\<close> when it ends and the poll results it saw. \<open>None\<close> is a loop that
  has not ended when the given iterations are used up.
\<close>

fun poll_loop :: "(exit_flags \<times> int) list \<Rightarrow> int \<Rightarrow> (int \<times> int list) option" where
  "poll_loop [] err = None"
| "poll_loop ((fl, r) # ps) err =
     (if app_should_exit fl then Some (err, [])
      else if r = - EINTR then Some (0, [r])
      else if r < 0 then Some (r, [r])
      else map_option (\<lambda>(e, rs). (e, r # rs)) (poll_loop ps r))"

definition run_cleanup :: "bool \<Rightarrow> 'c action list" where
  "run_cleanup ring = [Clear_skel, Rb_free ring, Destroy]"

text \<open>
  A run from the load on, with what differs between the modules as parameters: when the map
  update counts as failed, how the last \<open>err\<close> becomes the return value, and the configuration
  written.
\<close>

definition run_loaded ::
    "(int \<Rightarrow> bool) \<Rightarrow> (int \<Rightarrow> int) \<Rightarrow> 'c \<Rightarrow> s32 \<Rightarrow> run_env \<Rightarrow> (int \<times> 'c action list) option" where
  "run_loaded ctrl_failed final ctrl timeout e =
     (if \<not> re_load e then Some (1, [Load False])
      else
        (let log1 = [Load True, Set_skel, Write_ctrl ctrl (re_ctrl_err e)]
         in if ctrl_failed (re_ctrl_err e) then Some (final (re_ctrl_err e), log1 @ run_cleanup False)
            else if \<not> re_rb e then Some (final (- ENOMEM), log1 @ [Rb_new False] @ run_cleanup False)
            else if re_attach_err e \<noteq> 0 then
              Some (final (re_attach_err e),
                    log1 @ [Rb_new True, Attach (re_attach_err e)] @ run_cleanup True)
            else
              (case poll_loop (re_polls e) 0 of
                 None \<Rightarrow> None
               | Some (err, rs) \<Rightarrow>
                   Some (final err,
                         log1 @ [Rb_new True, Attach 0] @ map (Poll timeout) rs @ [Print_stats]
                           @ run_cleanup True))))"

text \<open>
  A run that first looks up the PID namespace and puts it into the configuration; \<open>pid_fail\<close>
  is what a failed lookup returns. A failed \<^verbatim>\<open>stat\<close> has a nonzero \<open>errno\<close>.
\<close>

definition run_module ::
    "(int \<Rightarrow> int) \<Rightarrow> (int \<Rightarrow> bool) \<Rightarrow> (int \<Rightarrow> int) \<Rightarrow> (u64 \<Rightarrow> u64 \<Rightarrow> 'c) \<Rightarrow> s32 \<Rightarrow> run_env
     \<Rightarrow> (int \<times> 'c action list) option" where
  "run_module pid_fail ctrl_failed final mk_ctrl timeout e =
     (case app_get_pid_namespace False False (re_stat e) of
        (err, None) \<Rightarrow> Some (pid_fail err, [])
      | (_, Some (dev, ino)) \<Rightarrow> run_loaded ctrl_failed final (mk_ctrl dev ino) timeout e)"

text \<open>The two ways the modules turn the last \<open>err\<close> into their return value.\<close>

definition neg_or_zero :: "int \<Rightarrow> int" where
  "neg_or_zero err = (if err < 0 then - err else 0)"

definition neg_or_self :: "int \<Rightarrow> int" where
  "neg_or_self err = (if err < 0 then - err else err)"

section \<open>What a run promises\<close>

text \<open>
  The skeleton is destroyed exactly once if it was loaded and the ring buffer freed exactly
  once if it was made, and nothing happens after that.
\<close>

definition released :: "'c action list \<Rightarrow> bool" where
  "released log \<longleftrightarrow>
     count_list log Destroy = (if Load True \<in> set log then 1 else 0)
     \<and> (Load True \<in> set log \<longrightarrow> last log = Destroy)
     \<and> count_list log (Rb_free True) = count_list log (Rb_new True)"

text \<open>The probes are attached only after the configuration \<open>c\<close> was written without error.\<close>

definition configured :: "'c \<Rightarrow> 'c action list \<Rightarrow> bool" where
  "configured c log \<longleftrightarrow>
     (\<forall>a \<in> set log. (\<exists>err. a = Attach err) \<longrightarrow>
       (\<exists>err \<ge> 0. Write_ctrl c err \<in> set (takeWhile (\<lambda>b. b \<noteq> a) log)))"

text \<open>
  The summary is printed exactly when the probes were attached, once, between the attach and
  the moment \<open>g_skel\<close> is cleared.
\<close>

definition summarised :: "'c action list \<Rightarrow> bool" where
  "summarised log \<longleftrightarrow>
     count_list log Print_stats = (if Attach 0 \<in> set log then 1 else 0)
     \<and> Print_stats \<notin> set (takeWhile (\<lambda>a. a \<noteq> Attach 0) log)
     \<and> Print_stats \<notin> set (dropWhile (\<lambda>a. a \<noteq> Clear_skel) log)"

text \<open>Every call before the loop succeeds.\<close>

definition loaded_ok :: "run_env \<Rightarrow> bool" where
  "loaded_ok e \<longleftrightarrow> re_load e \<and> re_ctrl_err e = 0 \<and> re_rb e \<and> re_attach_err e = 0"

definition started :: "run_env \<Rightarrow> bool" where
  "started e \<longleftrightarrow> (\<exists>di. re_stat e = Inr di) \<and> loaded_ok e"

text \<open>The loop sees a request to stop, or a poll fails, within the given iterations.\<close>

definition stops :: "run_env \<Rightarrow> bool" where
  "stops e \<longleftrightarrow> (\<exists>p \<in> set (re_polls e). app_should_exit (fst p) \<or> snd p < 0)"

text \<open>
  What a run promises of its calls: it has released what it made, printed its summary exactly
  if it attached, and attached only under the configuration \<open>c\<close>.
\<close>

definition log_ok :: "'c \<Rightarrow> 'c action list \<Rightarrow> bool" where
  "log_ok c log \<longleftrightarrow> released log \<and> summarised log \<and> configured c log"

definition lifecycle_at :: "'c \<Rightarrow> (int \<times> 'c action list) option \<Rightarrow> bool" where
  "lifecycle_at c out \<longleftrightarrow> (case out of None \<Rightarrow> True | Some (ret, log) \<Rightarrow> log_ok c log)"

text \<open>With a namespace in the configuration: when the lookup fails nothing else is called.\<close>

definition lifecycle :: "(u64 \<Rightarrow> u64 \<Rightarrow> 'c) \<Rightarrow> run_env \<Rightarrow> (int \<times> 'c action list) option \<Rightarrow> bool" where
  "lifecycle c e out \<longleftrightarrow>
     (case re_stat e of
        Inl _ \<Rightarrow> (\<exists>ret. out = Some (ret, []))
      | Inr (dev, ino) \<Rightarrow> lifecycle_at (c dev ino) out)"

text \<open>
  The status of a run that started: zero unless a poll failed for another reason than a signal.
\<close>

definition honest_status :: "bool \<Rightarrow> (int \<times> 'c action list) option \<Rightarrow> bool" where
  "honest_status st out \<longleftrightarrow>
     (case out of None \<Rightarrow> True
      | Some (ret, log) \<Rightarrow> st \<longrightarrow>
          (ret = 0 \<longleftrightarrow> list_all (\<lambda>a. case a of Poll _ r \<Rightarrow> 0 \<le> r \<or> r = - EINTR | _ \<Rightarrow> True) log))"

section \<open>Lemmas\<close>

lemma poll_loop_ends:
  "\<exists>p \<in> set ps. app_should_exit (fst p) \<or> snd p < 0 \<Longrightarrow> \<exists>err rs. poll_loop ps e0 = Some (err, rs)"
  by (induction ps e0 rule: poll_loop.induct) (auto simp: EINTR_def)

text \<open>How the loop ends: what the last poll returned, or zero if a signal interrupted it.\<close>

lemma poll_loop_err:
  "poll_loop ps e0 = Some (err, rs) \<Longrightarrow>
     err = (if rs = [] then e0 else if last rs = - EINTR then 0 else last rs)"
  by (induction ps e0 arbitrary: err rs rule: poll_loop.induct)
     (fastforce split: if_splits simp: EINTR_def)+

lemma count_list_polls [simp]:
  "(\<And>r. a \<noteq> Poll t r) \<Longrightarrow> count_list (map (Poll t) rs) a = 0"
  by (induction rs) auto

lemma takeWhile_all_append:
  "list_all P xs \<Longrightarrow> takeWhile P (xs @ ys) = xs @ takeWhile P ys"
  "list_all P xs \<Longrightarrow> dropWhile P (xs @ ys) = dropWhile P ys"
  by (induction xs) simp_all

lemma polls_all:
  "(\<And>r. P (Poll t r)) \<Longrightarrow> list_all P (map (Poll t) rs)"
  by (simp add: list_all_iff)

text \<open>The ways a run ends.\<close>

lemma run_loaded_cases:
  assumes "run_loaded cf fin c t e = Some (ret, log)"
  obtains
    (load) "\<not> re_load e" "ret = 1" "log = [Load False]"
  | (ctrl) "re_load e" "cf (re_ctrl_err e)" "ret = fin (re_ctrl_err e)"
      "log = [Load True, Set_skel, Write_ctrl c (re_ctrl_err e), Clear_skel, Rb_free False, Destroy]"
  | (ring) "re_load e" "\<not> cf (re_ctrl_err e)" "\<not> re_rb e" "ret = fin (- ENOMEM)"
      "log = [Load True, Set_skel, Write_ctrl c (re_ctrl_err e), Rb_new False,
              Clear_skel, Rb_free False, Destroy]"
  | (attach) "re_load e" "\<not> cf (re_ctrl_err e)" "re_rb e"
      "re_attach_err e \<noteq> 0" "ret = fin (re_attach_err e)"
      "log = [Load True, Set_skel, Write_ctrl c (re_ctrl_err e), Rb_new True,
              Attach (re_attach_err e), Clear_skel, Rb_free True, Destroy]"
  | (looped) err rs where "re_load e" "\<not> cf (re_ctrl_err e)" "re_rb e"
      "re_attach_err e = 0" "poll_loop (re_polls e) 0 = Some (err, rs)" "ret = fin err"
      "log = [Load True, Set_skel, Write_ctrl c (re_ctrl_err e), Rb_new True, Attach 0]
             @ map (Poll t) rs @ [Print_stats, Clear_skel, Rb_free True, Destroy]"
  using assms load ctrl ring attach looped
  by (simp add: run_loaded_def Let_def run_cleanup_def split: if_splits option.splits prod.splits)

lemma run_module_Inl [simp]:
  "re_stat e = Inl err \<Longrightarrow> run_module pf cf fin mk t e = Some (pf (- err), [])"
  by (simp add: run_module_def app_get_pid_namespace_def)

lemma run_module_Inr [simp]:
  "re_stat e = Inr (dev, ino) \<Longrightarrow> run_module pf cf fin mk t e = run_loaded cf fin (mk dev ino) t e"
  by (simp add: run_module_def app_get_pid_namespace_def)

lemma poll_loop_seen:
  "poll_loop ps e0 = Some (err, rs) \<Longrightarrow> (err < 0 \<longleftrightarrow> (\<exists>r \<in> set rs. r < 0 \<and> r \<noteq> - EINTR) \<or> (rs = [] \<and> e0 < 0))"
  by (induction ps e0 arbitrary: err rs rule: poll_loop.induct)
     (fastforce split: if_splits simp: EINTR_def)+

lemma run_loaded_returns:
  assumes "stops e"
  shows "run_loaded ctrl_failed final c t e \<noteq> None"
proof -
  obtain err rs where "poll_loop (re_polls e) 0 = Some (err, rs)"
    using poll_loop_ends assms unfolding stops_def by blast
  then show ?thesis by (simp add: run_loaded_def Let_def)
qed

lemma run_module_returns:
  assumes "stops e"
  shows "run_module pid_fail ctrl_failed final mk t e \<noteq> None"
proof (cases "re_stat e")
  case (Inr di)
  then show ?thesis
    by (cases di) (simp only: run_module_Inr run_loaded_returns [OF assms] not_False_eq_True)
qed simp

section \<open>The contract of a module\<close>

text \<open>
  What a module may choose: an update that returned an error must be treated as one, and a
  negative \<open>err\<close> must give a nonzero return value.
\<close>

locale loaded_runner =
  fixes ctrl_failed :: "int \<Rightarrow> bool"
    and final :: "int \<Rightarrow> int"
  assumes ctrl_failed_neg: "err < 0 \<Longrightarrow> ctrl_failed err"
    and ctrl_failed_zero: "\<not> ctrl_failed 0"
    and final_neg: "err < 0 \<Longrightarrow> final err \<noteq> 0"
begin

lemma loaded_released:
  assumes "run_loaded ctrl_failed final c t e = Some (ret, log)"
  shows "released log"
  using assms by (cases rule: run_loaded_cases) (simp_all add: released_def image_iff)

lemma loaded_configured:
  assumes "run_loaded ctrl_failed final c t e = Some (ret, log)"
  shows "configured c log"
proof -
  have ok: "0 \<le> re_ctrl_err e" if "\<not> ctrl_failed (re_ctrl_err e)"
    using that ctrl_failed_neg [of "re_ctrl_err e"] by linarith
  show ?thesis
    using assms
  proof (cases rule: run_loaded_cases)
    case attach
    then show ?thesis using ok by (auto simp: configured_def)
  next
    case (looped err rs)
    then show ?thesis using ok by (auto simp: configured_def)
  qed (simp_all add: configured_def)
qed

lemma loaded_summarised:
  assumes "run_loaded ctrl_failed final c t e = Some (ret, log)"
  shows "summarised log"
  using assms
proof (cases rule: run_loaded_cases)
  case (looped err rs)
  have "list_all (\<lambda>a. a \<noteq> Clear_skel) (map (Poll t) rs :: 'a action list)"
    by (rule polls_all) simp
  then show ?thesis
    unfolding looped by (simp add: summarised_def image_iff takeWhile_all_append)
qed (simp_all add: summarised_def)

lemma loaded_lifecycle: "lifecycle_at c (run_loaded ctrl_failed final c t e)"
  by (auto simp: lifecycle_at_def log_ok_def loaded_released loaded_configured loaded_summarised
      split: option.split)

text \<open>
  A run that could not start reports failure. The hypotheses are what libbpf documents: zero
  or a negative error from the two calls.
\<close>

lemma loaded_failure:
  assumes "run_loaded ctrl_failed final c t e = Some (ret, log)" and "\<not> loaded_ok e"
    and "re_ctrl_err e \<le> 0" and "re_attach_err e \<le> 0"
  shows "ret \<noteq> 0"
proof -
  have ctrl0: "re_ctrl_err e = 0" if "\<not> ctrl_failed (re_ctrl_err e)"
    using that assms(3) ctrl_failed_neg [of "re_ctrl_err e"] by linarith
  have ctrl1: "re_ctrl_err e < 0" if "ctrl_failed (re_ctrl_err e)"
    using that assms(3) ctrl_failed_zero by (metis order_le_less)
  show ?thesis
    using assms(1)
  proof (cases rule: run_loaded_cases)
    case ctrl
    then show ?thesis using ctrl1 by (simp add: final_neg)
  next
    case ring
    then show ?thesis by (simp add: final_neg ENOMEM_def)
  next
    case attach
    then show ?thesis using assms(4) by (simp add: final_neg)
  next
    case (looped err rs)
    then show ?thesis using assms(2) ctrl0 by (simp add: loaded_ok_def)
  qed simp
qed

end

text \<open>A module whose return value is zero whenever the last \<open>err\<close> was not negative.\<close>

locale quiet_loaded = loaded_runner +
  assumes final_nonneg: "0 \<le> err \<Longrightarrow> final err = 0"
begin

lemma loaded_status: "honest_status (loaded_ok e) (run_loaded ctrl_failed final c t e)"
proof (cases "run_loaded ctrl_failed final c t e")
  case (Some out)
  obtain ret log where out: "out = (ret, log)" by (cases out)
  note run = Some [unfolded out]
  have "ret = 0 \<longleftrightarrow> list_all (\<lambda>a. case a of Poll _ r \<Rightarrow> 0 \<le> r \<or> r = - EINTR | _ \<Rightarrow> True) log"
    if st: "loaded_ok e"
    using run
  proof (cases rule: run_loaded_cases)
    case (looped err rs)
    have "ret = 0 \<longleftrightarrow> \<not> err < 0"
      using looped final_neg [of err] final_nonneg [of err] by (cases "err < 0") auto
    also have "\<dots> \<longleftrightarrow> list_all (\<lambda>r. 0 \<le> r \<or> r = - EINTR) rs"
      using poll_loop_seen [OF looped(5)] by (auto simp: list_all_iff)
    finally show ?thesis unfolding looped by (simp add: list_all_iff)
  qed (use st ctrl_failed_zero in \<open>simp_all add: loaded_ok_def\<close>)
  then show ?thesis by (simp add: honest_status_def Some out)
qed (simp add: honest_status_def)

end

text \<open>
  A module that looks up its namespace: a failed lookup must not look like success. What the
  part after the lookup promises carries over.
\<close>

locale module_runner = loaded_runner ctrl_failed final
  for ctrl_failed :: "int \<Rightarrow> bool" and final :: "int \<Rightarrow> int" +
  fixes pid_fail :: "int \<Rightarrow> int"
  assumes pid_fail_nonzero: "err < 0 \<Longrightarrow> pid_fail err \<noteq> 0"
begin

lemma run_lifecycle: "lifecycle mk e (run_module pid_fail ctrl_failed final mk t e)"
  by (cases "re_stat e") (auto simp: lifecycle_def loaded_lifecycle)

lemma run_failure:
  assumes "run_module pid_fail ctrl_failed final mk t e = Some (ret, log)" and "\<not> started e"
    and "\<And>err. re_stat e = Inl err \<Longrightarrow> 0 < err" and "re_ctrl_err e \<le> 0" and "re_attach_err e \<le> 0"
  shows "ret \<noteq> 0"
proof (cases "re_stat e")
  case (Inl err)
  then show ?thesis using assms(1,3) pid_fail_nonzero [of "- err"] by auto
next
  case (Inr di)
  obtain dev ino where "di = (dev, ino)" by (cases di)
  then show ?thesis
    using assms loaded_failure [of "mk dev ino" t e ret log] Inr by (simp add: started_def)
qed

end

locale quiet_runner = module_runner + quiet_loaded
begin

lemma run_status: "honest_status (started e) (run_module pid_fail ctrl_failed final mk t e)"
proof (cases "re_stat e")
  case (Inl err)
  then show ?thesis by (simp add: honest_status_def started_def)
next
  case (Inr di)
  then show ?thesis
    using loaded_status [of e] by (cases di) (simp add: started_def)
qed

end

text \<open>The choices the modules make.\<close>

lemma neg_or_zero_simps: "err < 0 \<Longrightarrow> neg_or_zero err = - err" "0 \<le> err \<Longrightarrow> neg_or_zero err = 0"
  by (simp_all add: neg_or_zero_def)

lemma neg_or_self_simps: "err < 0 \<Longrightarrow> neg_or_self err = - err" "0 \<le> err \<Longrightarrow> neg_or_self err = err"
  by (simp_all add: neg_or_self_def)

text \<open>A run in which everything works: \<open>ns\<close> are the poll results before the stop request.\<close>

definition calm_run :: "int list \<Rightarrow> run_env" where
  "calm_run ns =
     \<lparr>re_stat = Inr (4, 0xF0000001), re_getpid = 77, re_load = True, re_ctrl_err = 0, re_rb = True,
      re_attach_err = 0,
      re_polls = map (\<lambda>n. (\<lparr>g_signal_exit_requested = False, g_thread_exit_requested = False\<rparr>, n)) ns
        @ [(\<lparr>g_signal_exit_requested = True, g_thread_exit_requested = False\<rparr>, 0)]\<rparr>"

lemma calm_run_simps [simp]:
  "re_stat (calm_run ns) = Inr (4, 0xF0000001)" "re_load (calm_run ns)" "re_ctrl_err (calm_run ns) = 0"
  "re_rb (calm_run ns)" "re_attach_err (calm_run ns) = 0" "re_getpid (calm_run ns) = 77"
  by (simp_all add: calm_run_def)

lemma calm_run_started: "started (calm_run ns)"
  by (simp add: started_def loaded_ok_def)

lemma calm_run_stops: "stops (calm_run ns)"
  by (simp add: stops_def calm_run_def app_should_exit_def)

lemma poll_loop_calm:
  "list_all (\<lambda>n. 0 \<le> n) ns \<Longrightarrow>
     poll_loop (re_polls (calm_run ns)) e0 = Some (if ns = [] then e0 else last ns, ns)"
  unfolding calm_run_def
  by (induction ns arbitrary: e0) (simp_all add: app_should_exit_def EINTR_def)

end
