(* ===== verification/AppMain.thy ===== *)
theory AppMain
  imports Cli RunLoop
begin

section \<open>The main program\<close>

text \<open>
  \<^verbatim>\<open>common/main.c\<close>: \<open>main\<close> and the thread function \<open>run_module_thread\<close> as a step relation. The
  threads of the modules and the main thread interleave; one step is one access to the shared
  flags, one return of a module, one \<^verbatim>\<open>pthread_create\<close> or \<^verbatim>\<open>pthread_join\<close>. What the \<open>run\<close> function
  of a mode may return for given arguments is the argument \<open>rets\<close> of the relation.
\<close>

text \<open>
  Where a module stands: not created, inside its \<open>run\<close>, its result stored but the exit flag not
  yet written, or ended. \<open>Ran\<close> and \<open>Ended\<close> remember what \<open>run\<close> returned.
\<close>

datatype thread_status = Idle | Running | Ran int | Ended int

record module_thread =
  module :: module_entry
  status :: thread_status
  result :: int

text \<open>
  Where \<open>main\<close> stands: calling the only module itself, about to create thread \<open>i\<close>, joining
  thread \<open>j\<close> of the \<open>i\<close> created ones after a failed creation, joining thread \<open>i\<close> of all,
  past the joins, or returned.
\<close>

datatype main_pc = Direct | Creating nat | Aborting nat nat | Joining nat | Report | Finished int

record main_state =
  pc :: main_pc
  opts :: app_options
  threads :: "module_thread list"
  err :: int
  flags :: exit_flags

definition selected :: "app_options \<Rightarrow> module_entry list" where
  "selected op = filter (\<lambda>e. mode_mask op AND push_bit (mode_num (entry_mode e)) 1 \<noteq> 0) MODULE_TABLE"

definition main_begin :: "app_options \<Rightarrow> main_state" where
  "main_begin op =
     \<lparr>pc = (if length (selected op) = 1 then Direct else Creating 0), opts = op,
      threads = map (\<lambda>e. \<lparr>module = e, status = Idle, result = 0\<rparr>) (selected op), err = 0,
      flags = \<lparr>g_signal_exit_requested = False, g_thread_exit_requested = False\<rparr>\<rparr>"

text \<open>
  \<open>main\<close> up to the start of the modules: \<open>Inl\<close> is the exit status when the command line is
  refused (64 is what \<open>argp_error\<close> exits with) or the handlers cannot be installed.
\<close>

definition main_entry :: "(char \<times> cstr option) list \<Rightarrow> (int \<Rightarrow> int option) \<Rightarrow> int + main_state" where
  "main_entry calls sigact =
     (case app_parse_args calls of
        Exited e \<Rightarrow> Inl 64
      | Ret_einval \<Rightarrow> Inl 1
      | Parsed op \<Rightarrow> if fst (app_setup_signal_handlers sigact) \<noteq> 0 then Inl 1 else Inr (main_begin op))"

text \<open>What the \<open>run\<close> function of a mode may return when called with the given arguments.\<close>

type_synonym run_rets = "app_mode \<Rightarrow> s32 \<Rightarrow> bool \<Rightarrow> s32 \<Rightarrow> u64 \<Rightarrow> int \<Rightarrow> bool"

definition may_return :: "run_rets \<Rightarrow> app_options \<Rightarrow> module_entry \<Rightarrow> int \<Rightarrow> bool" where
  "may_return rets op e r \<longleftrightarrow>
     rets (entry_mode e) (poll_timeout_ms op) (enable op) (target_pid op) (min_delay_ns op) r"

text \<open>The steps of a module's thread.\<close>

definition thread_returns :: "nat \<Rightarrow> int \<Rightarrow> main_state \<Rightarrow> main_state" where
  "thread_returns i r s = s\<lparr>threads := (threads s)[i := (threads s ! i)\<lparr>status := Ran r, result := r\<rparr>]\<rparr>"

definition thread_ends :: "nat \<Rightarrow> int \<Rightarrow> main_state \<Rightarrow> main_state" where
  "thread_ends i r s =
     s\<lparr>threads := (threads s)[i := (threads s ! i)\<lparr>status := Ended r\<rparr>],
       flags := (if result (threads s ! i) \<noteq> 0 then app_request_exit (flags s) else flags s)\<rparr>"

text \<open>The steps of \<open>main\<close>.\<close>

definition main_direct :: "int \<Rightarrow> main_state \<Rightarrow> main_state" where
  "main_direct r s =
     s\<lparr>threads := (threads s)[0 := (threads s ! 0)\<lparr>status := Ended r\<rparr>], err := r, pc := Report\<rparr>"

definition main_creates :: "nat \<Rightarrow> bool \<Rightarrow> main_state \<Rightarrow> main_state" where
  "main_creates i ok s =
     (if ok then s\<lparr>threads := (threads s)[i := (threads s ! i)\<lparr>status := Running\<rparr>], pc := Creating (Suc i)\<rparr>
      else s\<lparr>flags := app_request_exit (flags s), pc := Aborting 0 i\<rparr>)"

definition main_joins :: "nat \<Rightarrow> main_state \<Rightarrow> main_state" where
  "main_joins i s =
     s\<lparr>err := (if err s = 0 \<and> result (threads s ! i) \<noteq> 0 then result (threads s ! i) else err s),
       pc := Joining (Suc i)\<rparr>"

definition main_report :: "main_state \<Rightarrow> main_state" where
  "main_report s = s\<lparr>pc := Finished (if err s \<noteq> 0 then 1 else 0)\<rparr>"

inductive main_step :: "run_rets \<Rightarrow> main_state \<Rightarrow> main_state \<Rightarrow> bool" for rets where
  run_direct: "pc s = Direct \<Longrightarrow> may_return rets (opts s) (module (threads s ! 0)) r \<Longrightarrow>
    main_step rets s (main_direct r s)"
| create: "pc s = Creating i \<Longrightarrow> i < length (threads s) \<Longrightarrow> main_step rets s (main_creates i ok s)"
| created: "pc s = Creating i \<Longrightarrow> i = length (threads s) \<Longrightarrow> main_step rets s (s\<lparr>pc := Joining 0\<rparr>)"
| join: "pc s = Joining i \<Longrightarrow> i < length (threads s) \<Longrightarrow> status (threads s ! i) = Ended r \<Longrightarrow>
    main_step rets s (main_joins i s)"
| joined: "pc s = Joining i \<Longrightarrow> i = length (threads s) \<Longrightarrow> main_step rets s (s\<lparr>pc := Report\<rparr>)"
| abort_join: "pc s = Aborting j i \<Longrightarrow> j < i \<Longrightarrow> status (threads s ! j) = Ended r \<Longrightarrow>
    main_step rets s (s\<lparr>pc := Aborting (Suc j) i\<rparr>)"
| aborted: "pc s = Aborting i i \<Longrightarrow> main_step rets s (s\<lparr>pc := Finished 1\<rparr>)"
| report: "pc s = Report \<Longrightarrow> main_step rets s (main_report s)"
| run_returns: "i < length (threads s) \<Longrightarrow> status (threads s ! i) = Running \<Longrightarrow>
    may_return rets (opts s) (module (threads s ! i)) r \<Longrightarrow> main_step rets s (thread_returns i r s)"
| thread_exit: "i < length (threads s) \<Longrightarrow> status (threads s ! i) = Ran r \<Longrightarrow>
    main_step rets s (thread_ends i r s)"
| signal: "main_step rets s (s\<lparr>flags := app_signal_handler (flags s)\<rparr>)"

inductive main_reaches :: "run_rets \<Rightarrow> main_state \<Rightarrow> main_state \<Rightarrow> bool" for rets s0 where
  start: "main_reaches rets s0 s0"
| step: "main_reaches rets s0 s \<Longrightarrow> main_step rets s s' \<Longrightarrow> main_reaches rets s0 s'"

section \<open>The invariant\<close>

definition alive :: "thread_status \<Rightarrow> bool" where
  "alive st \<longleftrightarrow> (case st of Running \<Rightarrow> True | Ran _ \<Rightarrow> True | _ \<Rightarrow> False)"

text \<open>The stored result is what \<open>run\<close> returned, and a failure has been announced.\<close>

fun status_ok :: "exit_flags \<Rightarrow> thread_status \<Rightarrow> int \<Rightarrow> bool" where
  "status_ok fl (Ran r) res \<longleftrightarrow> res = r"
| "status_ok fl (Ended r) res \<longleftrightarrow> res = r \<and> (r \<noteq> 0 \<longrightarrow> g_thread_exit_requested fl)"
| "status_ok fl st res \<longleftrightarrow> res = 0"

text \<open>The first nonzero result.\<close>

fun first_error :: "int list \<Rightarrow> int" where
  "first_error [] = 0"
| "first_error (r # rs) = (if r \<noteq> 0 then r else first_error rs)"

definition ended :: "module_thread \<Rightarrow> bool" where
  "ended t \<longleftrightarrow> (\<exists>r. status t = Ended r)"

definition idle :: "module_thread \<Rightarrow> bool" where
  "idle t \<longleftrightarrow> status t = Idle"

definition started_upto :: "nat \<Rightarrow> module_thread list \<Rightarrow> bool" where
  "started_upto i ts \<longleftrightarrow> (\<forall>j < length ts. idle (ts ! j) \<longleftrightarrow> i \<le> j)"

definition ended_upto :: "nat \<Rightarrow> module_thread list \<Rightarrow> bool" where
  "ended_upto i ts \<longleftrightarrow> (\<forall>j < min i (length ts). ended (ts ! j))"

fun pc_inv :: "main_pc \<Rightarrow> int \<Rightarrow> exit_flags \<Rightarrow> module_thread list \<Rightarrow> bool" where
  "pc_inv Direct er fl ts \<longleftrightarrow> False"
| "pc_inv (Creating i) er fl ts \<longleftrightarrow> i \<le> length ts \<and> started_upto i ts \<and> er = 0"
| "pc_inv (Aborting j i) er fl ts \<longleftrightarrow>
     j \<le> i \<and> i < length ts \<and> started_upto i ts \<and> ended_upto j ts \<and> g_thread_exit_requested fl"
| "pc_inv (Joining i) er fl ts \<longleftrightarrow>
     i \<le> length ts \<and> started_upto (length ts) ts \<and> ended_upto i ts \<and> er = first_error (map result (take i ts))"
| "pc_inv Report er fl ts \<longleftrightarrow> ended_upto (length ts) ts \<and> er = first_error (map result ts)"
| "pc_inv (Finished c) er fl ts \<longleftrightarrow>
     (c = 0 \<and> list_all (\<lambda>t. status t = Ended 0) ts)
     \<or> (c = 1 \<and> \<not> list_all (\<lambda>t. status t = Ended 0) ts \<and> list_all (\<lambda>t. \<not> alive (status t)) ts
        \<and> g_thread_exit_requested fl)"

definition many_inv :: "main_state \<Rightarrow> bool" where
  "many_inv s \<longleftrightarrow> pc_inv (pc s) (err s) (flags s) (threads s)
     \<and> (\<forall>t \<in> set (threads s). status_ok (flags s) (status t) (result t))"

text \<open>With one module \<open>main\<close> is the only thread.\<close>

definition one_inv :: "main_state \<Rightarrow> bool" where
  "one_inv s \<longleftrightarrow> length (threads s) = 1 \<and>
     ((pc s = Direct \<and> status (threads s ! 0) = Idle)
      \<or> (pc s = Report \<and> status (threads s ! 0) = Ended (err s))
      \<or> (\<exists>r. pc s = Finished (if r = 0 then 0 else 1) \<and> status (threads s ! 0) = Ended r))"

text \<open>How far \<open>main\<close> and the threads are from their ends.\<close>

fun status_left :: "thread_status \<Rightarrow> nat" where
  "status_left Idle = 3"
| "status_left Running = 2"
| "status_left (Ran _) = 1"
| "status_left (Ended _) = 0"

fun pc_left :: "nat \<Rightarrow> main_pc \<Rightarrow> nat" where
  "pc_left n Direct = 2"
| "pc_left n (Creating i) = 2 * n + 4 - i"
| "pc_left n (Aborting j i) = Suc (i - j)"
| "pc_left n (Joining i) = n - i + 2"
| "pc_left n Report = 1"
| "pc_left n (Finished _) = 0"

definition main_left :: "main_state \<Rightarrow> nat" where
  "main_left s = pc_left (length (threads s)) (pc s) + sum_list (map (status_left \<circ> status) (threads s))"

section \<open>Lemmas\<close>

subsection \<open>Which modules run\<close>

lemma and_push_bit_1: "w AND push_bit n (1 :: u64) \<noteq> 0 \<longleftrightarrow> bit w n" if "n < 64"
  using that by (simp add: and_exp_eq_0_iff_not_bit push_bit_of_1)

lemma selected_bit: "selected op = filter (\<lambda>e. bit (mode_mask op) (mode_num (entry_mode e))) MODULE_TABLE"
proof -
  have "mode_num m < 64" for m using mode_num_bound [of m] by simp
  then show ?thesis unfolding selected_def by (simp only: and_push_bit_1)
qed

lemma selected_mask_of:
  assumes "list_all known_name ns" and "mode_mask op = mask_of ns"
  shows "selected op = filter (\<lambda>e. name e \<in> set ns) MODULE_TABLE"
proof -
  have "bit (mask_of ns) (mode_num (entry_mode e)) \<longleftrightarrow> name e \<in> set ns" if e: "e \<in> set MODULE_TABLE" for e
  proof
    assume "bit (mask_of ns) (mode_num (entry_mode e))"
    then obtain n where n: "n \<in> set ns" "mode_of_name n = entry_mode e"
      by (auto simp: bit_mask_of)
    obtain e' where e': "e' \<in> set MODULE_TABLE" "n = name e'"
      using n(1) assms(1) by (auto simp: list_all_iff known_name_def)
    have "entry_mode e' = entry_mode e" using n(2) e' by (simp add: mode_of_name_entry)
    then have "find_by_mode (entry_mode e) = Some e'" using find_by_mode_entry [OF e'(1)] by simp
    then have "e' = e" using find_by_mode_entry [OF e] by simp
    then show "name e \<in> set ns" using n(1) e'(2) by simp
  next
    assume "name e \<in> set ns"
    then show "bit (mask_of ns) (mode_num (entry_mode e))"
      using mode_of_name_entry [OF e] unfolding bit_mask_of by metis
  qed
  then show ?thesis
    unfolding selected_bit assms(2) by (intro filter_cong) auto
qed

subsection \<open>Bookkeeping of the threads\<close>

lemma alive_iff: "alive (status t) \<longleftrightarrow> \<not> idle t \<and> \<not> ended t"
  by (auto simp: alive_def idle_def ended_def split: thread_status.splits)

lemma status_ok_flags:
  "status_ok fl st res \<Longrightarrow> g_thread_exit_requested fl \<longrightarrow> g_thread_exit_requested fl' \<Longrightarrow> status_ok fl' st res"
  by (cases st) auto

lemma pc_inv_flags:
  "pc_inv p er fl ts \<Longrightarrow> g_thread_exit_requested fl \<longrightarrow> g_thread_exit_requested fl' \<Longrightarrow> pc_inv p er fl' ts"
  by (cases p) auto

lemma request_exit_flag [simp]:
  "g_thread_exit_requested (app_request_exit fl)"
  "g_thread_exit_requested (app_signal_handler fl) = g_thread_exit_requested fl"
  by (simp_all add: app_request_exit_def app_signal_handler_def)

lemma started_upto_keep:
  "started_upto n ts \<Longrightarrow> \<not> idle (ts ! i) \<Longrightarrow> \<not> idle t \<Longrightarrow> started_upto n (ts[i := t])"
  unfolding started_upto_def by (metis length_list_update nth_list_update_eq nth_list_update_neq)

lemma started_upto_next:
  "started_upto i ts \<Longrightarrow> i < length ts \<Longrightarrow> \<not> idle t \<Longrightarrow> started_upto (Suc i) (ts[i := t])"
  by (auto simp: started_upto_def nth_list_update)

lemma ended_upto_keep:
  "ended_upto n ts \<Longrightarrow> \<not> ended (ts ! i) \<Longrightarrow> i < length ts \<Longrightarrow> n \<le> i \<and> ended_upto n (ts[i := t])"
  unfolding ended_upto_def
  by (metis length_list_update min_less_iff_conj not_le nth_list_update_neq)

lemma ended_upto_Suc:
  "ended_upto i ts \<Longrightarrow> ended (ts ! i) \<Longrightarrow> ended_upto (Suc i) ts"
  by (auto simp: ended_upto_def less_Suc_eq)

lemma first_error_append:
  "first_error (rs @ [r]) = (if first_error rs = 0 \<and> r \<noteq> 0 then r else first_error rs)"
  by (induction rs) auto

lemma first_error_zero: "first_error rs = 0 \<longleftrightarrow> list_all (\<lambda>r. r = 0) rs"
  by (induction rs) auto

text \<open>A thread that is alive may move on without touching what \<open>main\<close> knows.\<close>

lemma pc_inv_thread:
  assumes "pc_inv p er fl ts" and i: "i < length ts" and al: "alive (status (ts ! i))" and t: "\<not> idle t"
  shows "pc_inv p er fl (ts[i := t])"
proof -
  have ni: "\<not> idle (ts ! i)" and ne: "\<not> ended (ts ! i)" using al by (simp_all add: alive_iff)
  note keep = started_upto_keep [OF _ ni t] ended_upto_keep [OF _ ne i]
  show ?thesis
  proof (cases p)
    case (Joining k)
    then show ?thesis using assms(1) keep(1) keep(2) [of k t] by (auto simp: take_update_cancel)
  next
    case Report
    then show ?thesis using assms(1) keep(2) [of "length ts" t] i by auto
  next
    case (Finished c)
    have "ended (ts ! i)" if "list_all (\<lambda>t. status t = Ended 0) ts"
      using that i by (auto simp: list_all_length ended_def)
    moreover have "\<not> alive (status (ts ! i))" if "list_all (\<lambda>t. \<not> alive (status t)) ts"
      using that i by (auto simp: list_all_length)
    ultimately show ?thesis using assms(1) Finished ne al by auto
  qed (use assms(1) keep in auto)
qed

lemma status_ok_update:
  assumes "\<forall>t \<in> set ts. status_ok fl (status t) (result t)"
    and "g_thread_exit_requested fl \<longrightarrow> g_thread_exit_requested fl'"
    and "status_ok fl' (status t) (result t)"
  shows "\<forall>t \<in> set (ts[i := t]). status_ok fl' (status t) (result t)"
  using assms set_update_subset_insert [of ts i t] by (auto dest: status_ok_flags)

subsection \<open>Every step keeps the invariant\<close>

lemma many_inv_direct: "many_inv s \<Longrightarrow> pc s \<noteq> Direct"
  by (auto simp: many_inv_def)

lemma many_inv_create:
  assumes "many_inv s" and "pc s = Creating i" and i: "i < length (threads s)"
  shows "many_inv (main_creates i ok s)"
proof (cases ok)
  case True
  have t: "\<not> idle ((threads s ! i)\<lparr>status := Running\<rparr>)" by (simp add: idle_def)
  have "idle (threads s ! i)" using assms by (simp add: many_inv_def started_upto_def)
  moreover have "status_ok (flags s) (status (threads s ! i)) (result (threads s ! i))"
    using assms(1) i by (simp add: many_inv_def)
  ultimately have "result (threads s ! i) = 0" by (simp add: idle_def)
  then have "\<forall>t \<in> set ((threads s)[i := (threads s ! i)\<lparr>status := Running\<rparr>]).
      status_ok (flags s) (status t) (result t)"
    using assms(1) by (intro status_ok_update [of _ "flags s"]) (simp_all add: many_inv_def)
  then show ?thesis
    using assms True started_upto_next [OF _ i t] by (simp add: many_inv_def main_creates_def)
next
  case False
  then show ?thesis
    using assms by (auto simp: many_inv_def main_creates_def ended_upto_def intro: status_ok_flags)
qed

lemma many_inv_created:
  assumes "many_inv s" and "pc s = Creating (length (threads s))"
  shows "many_inv (s\<lparr>pc := Joining 0\<rparr>)"
  using assms by (simp add: many_inv_def ended_upto_def)

lemma many_inv_join:
  assumes "many_inv s" and "pc s = Joining i" and i: "i < length (threads s)"
    and "status (threads s ! i) = Ended r"
  shows "many_inv (main_joins i s)"
proof -
  have "ended (threads s ! i)" using assms(4) by (simp add: ended_def)
  then show ?thesis
    using assms ended_upto_Suc [of i "threads s"]
    by (simp add: many_inv_def main_joins_def take_Suc_conv_app_nth first_error_append)
qed

lemma many_inv_joined:
  assumes "many_inv s" and "pc s = Joining (length (threads s))"
  shows "many_inv (s\<lparr>pc := Report\<rparr>)"
  using assms by (simp add: many_inv_def)

lemma many_inv_abort_join:
  assumes "many_inv s" and "pc s = Aborting j i" and "j < i" and "status (threads s ! j) = Ended r"
  shows "many_inv (s\<lparr>pc := Aborting (Suc j) i\<rparr>)"
proof -
  have "ended (threads s ! j)" using assms(4) by (simp add: ended_def)
  then show ?thesis
    using assms ended_upto_Suc [of j "threads s"] by (simp add: many_inv_def)
qed

lemma many_inv_aborted:
  assumes "many_inv s" and "pc s = Aborting i i"
  shows "many_inv (s\<lparr>pc := Finished 1\<rparr>)"
proof -
  let ?ts = "threads s"
  have *: "i < length ?ts" "started_upto i ?ts" "ended_upto i ?ts" "g_thread_exit_requested (flags s)"
    using assms by (simp_all add: many_inv_def)
  have "status (?ts ! i) = Idle" using *(1,2) by (simp add: started_upto_def idle_def)
  then have "\<not> list_all (\<lambda>t. status t = Ended 0) ?ts" using *(1) by (auto simp: list_all_length)
  moreover have "idle (?ts ! j) \<or> ended (?ts ! j)" if "j < length ?ts" for j
    using that *(2,3) by (cases "j < i") (auto simp: started_upto_def ended_upto_def)
  then have "list_all (\<lambda>t. \<not> alive (status t)) ?ts" by (auto simp: list_all_length alive_iff)
  ultimately show ?thesis using assms(1) *(4) by (simp add: many_inv_def)
qed

lemma many_inv_report:
  assumes "many_inv s" and "pc s = Report"
  shows "many_inv (main_report s)"
proof -
  let ?ts = "threads s"
  have all: "ended (?ts ! j)" if "j < length ?ts" for j
    using assms that by (simp add: many_inv_def ended_upto_def)
  then have dead: "list_all (\<lambda>t. \<not> alive (status t)) ?ts" by (auto simp: list_all_length alive_iff)
  have ok: "status_ok (flags s) (status t) (result t)" if "t \<in> set ?ts" for t
    using assms(1) that by (simp add: many_inv_def)
  have ended: "status t = Ended (result t)" if "t \<in> set ?ts" for t
  proof -
    have "ended t" using that all by (auto simp: in_set_conv_nth)
    then show ?thesis using ok [OF that] by (auto simp: ended_def)
  qed
  have zero: "err s = 0 \<longleftrightarrow> list_all (\<lambda>t. status t = Ended 0) ?ts"
    using assms ended by (auto simp: many_inv_def first_error_zero list_all_iff)
  have "g_thread_exit_requested (flags s)" if nz: "err s \<noteq> 0"
  proof -
    obtain t where t: "t \<in> set ?ts" "status t \<noteq> Ended 0" using nz zero by (auto simp: list_all_iff)
    then show ?thesis using ok [OF t(1)] ended [OF t(1)] by auto
  qed
  then show ?thesis
    using assms(1) zero dead by (auto simp: many_inv_def main_report_def)
qed

lemma many_inv_thread:
  assumes "many_inv s" and i: "i < length (threads s)" and al: "alive (status (threads s ! i))"
    and t: "\<not> idle t" and mono: "g_thread_exit_requested (flags s) \<longrightarrow> g_thread_exit_requested fl"
    and ok: "status_ok fl (status t) (result t)"
  shows "many_inv (s\<lparr>threads := (threads s)[i := t], flags := fl\<rparr>)"
proof -
  have "\<forall>t \<in> set ((threads s)[i := t]). status_ok fl (status t) (result t)"
    using assms(1) mono ok by (intro status_ok_update [of _ "flags s"]) (simp_all add: many_inv_def)
  moreover have "pc_inv (pc s) (err s) (flags s) ((threads s)[i := t])"
    using assms(1) i al t by (intro pc_inv_thread) (simp_all add: many_inv_def)
  then have "pc_inv (pc s) (err s) fl ((threads s)[i := t])" using mono by (rule pc_inv_flags)
  ultimately show ?thesis by (simp add: many_inv_def)
qed

lemma many_inv_returns:
  assumes "many_inv s" and "i < length (threads s)" and "status (threads s ! i) = Running"
  shows "many_inv (thread_returns i r s)"
  using many_inv_thread [of s i "(threads s ! i)\<lparr>status := Ran r, result := r\<rparr>" "flags s"] assms
  by (simp add: thread_returns_def alive_def idle_def)

lemma many_inv_exit:
  assumes "many_inv s" and i: "i < length (threads s)" and st: "status (threads s ! i) = Ran r"
  shows "many_inv (thread_ends i r s)"
proof -
  have "status_ok (flags s) (status (threads s ! i)) (result (threads s ! i))"
    using assms(1) i by (simp add: many_inv_def)
  then have "result (threads s ! i) = r" using st by simp
  then show ?thesis
    using many_inv_thread [OF assms(1) i, of "(threads s ! i)\<lparr>status := Ended r\<rparr>"
        "if r \<noteq> 0 then app_request_exit (flags s) else flags s"] st
    by (simp add: thread_ends_def alive_def idle_def)
qed

lemma many_inv_signal:
  assumes "many_inv s"
  shows "many_inv (s\<lparr>flags := app_signal_handler (flags s)\<rparr>)"
  using assms pc_inv_flags [of "pc s" "err s" "flags s" "threads s" "app_signal_handler (flags s)"]
  by (auto simp: many_inv_def intro: status_ok_flags)

lemmas many_inv_steps = many_inv_create many_inv_join many_inv_abort_join many_inv_aborted
  many_inv_report many_inv_returns many_inv_exit many_inv_signal

lemma many_inv_step: "main_step rets s s' \<Longrightarrow> many_inv s \<Longrightarrow> many_inv s'"
  by (induction rule: main_step.induct)
     (auto intro: many_inv_steps many_inv_created many_inv_joined dest: many_inv_direct)

lemma many_inv_begin: "length (selected op) \<noteq> 1 \<Longrightarrow> many_inv (main_begin op)"
  by (auto simp: many_inv_def main_begin_def started_upto_def idle_def)

lemma one_inv_begin: "length (selected op) = 1 \<Longrightarrow> one_inv (main_begin op)"
  by (simp add: one_inv_def main_begin_def)

lemma one_inv_step:
  assumes "main_step rets s s'" and "one_inv s"
  shows "one_inv s'"
  using assms
  by (induction rule: main_step.induct)
     (auto simp: one_inv_def main_direct_def main_report_def)

lemma main_reaches_inv:
  "main_reaches rets (main_begin op) s \<Longrightarrow> if length (selected op) = 1 then one_inv s else many_inv s"
  by (induction rule: main_reaches.induct)
     (auto simp: many_inv_begin one_inv_begin dest: many_inv_step one_inv_step split: if_splits)

text \<open>The modules of the threads never change.\<close>

lemma update_same: "(map f xs)[i := f (xs ! i)] = map f xs"
  by (metis list_update_id map_update)

lemma main_step_modules:
  "main_step rets s s' \<Longrightarrow> map module (threads s') = map module (threads s) \<and> opts s' = opts s"
  by (induction rule: main_step.induct)
     (simp_all add: main_direct_def main_creates_def main_joins_def main_report_def thread_returns_def
       thread_ends_def map_update update_same)

lemma main_reaches_modules:
  "main_reaches rets (main_begin op) s \<Longrightarrow> map module (threads s) = selected op \<and> opts s = op"
proof (induction rule: main_reaches.induct)
  case start
  then show ?case by (simp add: main_begin_def comp_def)
next
  case (step s s')
  then show ?case using main_step_modules [of rets s s'] by simp
qed

subsection \<open>Progress\<close>

lemma sum_list_update_less:
  assumes "i < length xs" and "f y < f (xs ! i)"
  shows "sum_list (map f (xs[i := y])) < sum_list (map f xs :: nat list)"
proof -
  have "sum_list (map f (xs[i := y])) + f (xs ! i) = sum_list (map f xs) + f y"
    using assms(1)
  proof (induction xs arbitrary: i)
    case (Cons x xs)
    then show ?case by (cases i) auto
  qed simp
  then show ?thesis using assms(2) by linarith
qed

lemma sum_status_less:
  "i < length ts \<Longrightarrow> status_left (status t) < status_left (status (ts ! i)) \<Longrightarrow>
     sum_list (map (status_left \<circ> status) (ts[i := t])) < sum_list (map (status_left \<circ> status) ts)"
  by (rule sum_list_update_less) simp_all

text \<open>Every step but a signal brings the program closer to its end.\<close>

lemma main_step_left:
  assumes "main_step rets s s'"
    and "if length (threads s) = 1 then one_inv s \<or> many_inv s else many_inv s"
  shows "main_left s' < main_left s \<or> s' = s\<lparr>flags := app_signal_handler (flags s)\<rparr>"
  using assms
proof (induction rule: main_step.induct)
  case (run_direct s r)
  have "length (threads s) = 1" "status (threads s ! 0) = Idle"
    using run_direct many_inv_direct [of s] by (auto simp: one_inv_def split: if_splits)
  then show ?case
    using run_direct sum_status_less [of 0 "threads s" "(threads s ! 0)\<lparr>status := Ended r\<rparr>"]
    by (simp add: main_left_def main_direct_def)
next
  case (create s i ok)
  have "many_inv s" using create by (auto simp: one_inv_def split: if_splits)
  then have "status (threads s ! i) = Idle"
    using create by (simp add: many_inv_def started_upto_def idle_def)
  then show ?case
    using create sum_status_less [of i "threads s" "(threads s ! i)\<lparr>status := Running\<rparr>"]
    by (auto simp: main_left_def main_creates_def)
next
  case (run_returns i s r)
  then show ?case
    using sum_status_less [of i "threads s" "(threads s ! i)\<lparr>status := Ran r, result := r\<rparr>"]
    by (simp add: main_left_def thread_returns_def)
next
  case (thread_exit i s r)
  then show ?case
    using sum_status_less [of i "threads s" "(threads s ! i)\<lparr>status := Ended r\<rparr>"]
    by (simp add: main_left_def thread_ends_def)
qed (auto simp: main_left_def main_joins_def main_report_def)

text \<open>A created thread that has not ended can move, if its module returns.\<close>

lemma thread_moves:
  assumes "many_inv s" and i: "i < length (threads s)" and "\<not> idle (threads s ! i)"
    and ret: "\<And>e. \<exists>r. may_return rets (opts s) e r"
  shows "(\<exists>r. status (threads s ! i) = Ended r) \<or> (\<exists>s'. main_step rets s s' \<and> main_left s' < main_left s)"
proof (cases "status (threads s ! i)")
  case Running
  obtain r where "may_return rets (opts s) (module (threads s ! i)) r" using ret by blast
  then have st: "main_step rets s (thread_returns i r s)"
    using main_step.run_returns [OF i Running] by blast
  moreover have "main_left (thread_returns i r s) < main_left s"
    using sum_status_less [of i "threads s" "(threads s ! i)\<lparr>status := Ran r, result := r\<rparr>"] i Running
    by (simp add: main_left_def thread_returns_def)
  ultimately show ?thesis by blast
next
  case (Ran r)
  have "main_step rets s (thread_ends i r s)" using main_step.thread_exit [OF i Ran] .
  moreover have "main_left (thread_ends i r s) < main_left s"
    using sum_status_less [of i "threads s" "(threads s ! i)\<lparr>status := Ended r\<rparr>"] i Ran
    by (simp add: main_left_def thread_ends_def)
  ultimately show ?thesis by blast
qed (use assms(3) in \<open>simp_all add: idle_def\<close>)

lemma progress_creating:
  assumes inv: "many_inv s" and pc: "pc s = Creating i"
  shows "\<exists>s'. main_step rets s s' \<and> main_left s' < main_left s"
proof (cases "i < length (threads s)")
  case True
  have "main_left (main_creates i False s) < main_left s"
    using True pc by (simp add: main_left_def main_creates_def)
  then show ?thesis using main_step.create [OF pc True] by blast
next
  case False
  then have "i = length (threads s)" using inv pc by (simp add: many_inv_def)
  then have "main_step rets s (s\<lparr>pc := Joining 0\<rparr>)" "main_left (s\<lparr>pc := Joining 0\<rparr>) < main_left s"
    using main_step.created [OF pc] pc by (simp_all add: main_left_def)
  then show ?thesis by blast
qed

lemma progress_aborting:
  assumes inv: "many_inv s" and pc: "pc s = Aborting j i"
    and ret: "\<And>e. \<exists>r. may_return rets (opts s) e r"
  shows "\<exists>s'. main_step rets s s' \<and> main_left s' < main_left s"
proof (cases "j = i")
  case True
  then have "main_step rets s (s\<lparr>pc := Finished 1\<rparr>)" "main_left (s\<lparr>pc := Finished 1\<rparr>) < main_left s"
    using main_step.aborted [of s i] pc by (simp_all add: main_left_def)
  then show ?thesis by blast
next
  case False
  then have lt: "j < i" and jl: "j < length (threads s)" and "\<not> idle (threads s ! j)"
    using inv pc by (auto simp: many_inv_def started_upto_def)
  then consider r where "status (threads s ! j) = Ended r"
      | "\<exists>s'. main_step rets s s' \<and> main_left s' < main_left s"
    using thread_moves [OF inv jl _ ret] by blast
  then show ?thesis
  proof cases
    case 1
    have "main_left (s\<lparr>pc := Aborting (Suc j) i\<rparr>) < main_left s"
      using pc lt by (simp add: main_left_def)
    then show ?thesis using main_step.abort_join [OF pc lt 1] by blast
  qed
qed

lemma progress_joining:
  assumes inv: "many_inv s" and pc: "pc s = Joining i"
    and ret: "\<And>e. \<exists>r. may_return rets (opts s) e r"
  shows "\<exists>s'. main_step rets s s' \<and> main_left s' < main_left s"
proof (cases "i < length (threads s)")
  case True
  then have "\<not> idle (threads s ! i)" using inv pc by (simp add: many_inv_def started_upto_def)
  then consider r where "status (threads s ! i) = Ended r"
      | "\<exists>s'. main_step rets s s' \<and> main_left s' < main_left s"
    using thread_moves [OF inv True _ ret] by blast
  then show ?thesis
  proof cases
    case 1
    have "main_left (main_joins i s) < main_left s"
      using pc True by (simp add: main_left_def main_joins_def)
    then show ?thesis using main_step.join [OF pc True 1] by blast
  qed
next
  case False
  then have "i = length (threads s)" using inv pc by (simp add: many_inv_def)
  then have "main_step rets s (s\<lparr>pc := Report\<rparr>)" "main_left (s\<lparr>pc := Report\<rparr>) < main_left s"
    using main_step.joined [OF pc] pc by (simp_all add: main_left_def)
  then show ?thesis by blast
qed

lemma progress_report:
  assumes "pc s = Report"
  shows "\<exists>s'. main_step rets s s' \<and> main_left s' < main_left s"
proof -
  have "main_left (main_report s) < main_left s" using assms by (simp add: main_left_def main_report_def)
  then show ?thesis using main_step.report [OF assms] by blast
qed

lemma progress_direct:
  assumes inv: "one_inv s" and pc: "pc s = Direct"
    and ret: "\<And>e. \<exists>r. may_return rets (opts s) e r"
  shows "\<exists>s'. main_step rets s s' \<and> main_left s' < main_left s"
proof -
  obtain r where "may_return rets (opts s) (module (threads s ! 0)) r" using ret by blast
  then have st: "main_step rets s (main_direct r s)" using main_step.run_direct [OF pc] by blast
  moreover have "main_left (main_direct r s) < main_left s"
    using inv pc sum_status_less [of 0 "threads s" "(threads s ! 0)\<lparr>status := Ended r\<rparr>"]
    by (simp add: main_left_def main_direct_def one_inv_def)
  ultimately show ?thesis by blast
qed

lemma main_progress:
  assumes reach: "main_reaches rets (main_begin op) s" and nf: "\<And>c. pc s \<noteq> Finished c"
    and ret: "\<And>e. \<exists>r. may_return rets op e r"
  shows "\<exists>s'. main_step rets s s' \<and> main_left s' < main_left s"
proof -
  have ret': "\<And>e. \<exists>r. may_return rets (opts s) e r"
    using ret main_reaches_modules [OF reach] by simp
  show ?thesis
  proof (cases "length (selected op) = 1")
    case True
    then have "one_inv s" using main_reaches_inv [OF reach] by simp
    then consider "pc s = Direct" | "pc s = Report" using nf by (auto simp: one_inv_def)
    then show ?thesis
      using progress_direct [OF \<open>one_inv s\<close> _ ret'] progress_report by cases blast+
  next
    case False
    then have inv: "many_inv s" using main_reaches_inv [OF reach] by simp
    then have "pc s \<noteq> Direct" by (rule many_inv_direct)
    then show ?thesis
      using nf progress_creating [OF inv] progress_aborting [OF inv _ ret']
        progress_joining [OF inv _ ret'] progress_report
      by (cases "pc s") blast+
  qed
qed

lemma main_reaches_trans:
  "main_reaches rets s' s'' \<Longrightarrow> main_reaches rets s s' \<Longrightarrow> main_reaches rets s s''"
  by (induction rule: main_reaches.induct) (blast intro: main_reaches.step)+

lemma main_ends:
  assumes "main_reaches rets (main_begin op) s" and "\<And>e. \<exists>r. may_return rets op e r"
  shows "\<exists>s' c. main_reaches rets s s' \<and> pc s' = Finished c"
  using assms(1)
proof (induction "main_left s" arbitrary: s rule: less_induct)
  case less
  show ?case
  proof (cases "\<exists>c. pc s = Finished c")
    case False
    then obtain t where t: "main_step rets s t" "main_left t < main_left s"
      using main_progress [OF less.prems _ assms(2)] by blast
    then obtain s' c where "main_reaches rets t s'" "pc s' = Finished c"
      using less.hyps main_reaches.step [OF less.prems t(1)] by blast
    moreover have "main_reaches rets s t" using t(1) main_reaches.start main_reaches.step by blast
    ultimately show ?thesis using main_reaches_trans by blast
  qed (use main_reaches.start in blast)
qed

lemma main_reaches_length:
  "main_reaches rets (main_begin op) s \<Longrightarrow> length (threads s) = length (selected op)"
  using main_reaches_modules [of rets op s] by (metis length_map)

lemma main_reaches_left:
  assumes "main_reaches rets (main_begin op) s" and "main_step rets s s'"
  shows "main_left s' < main_left s \<or> s' = s\<lparr>flags := app_signal_handler (flags s)\<rparr>"
  using main_step_left [OF assms(2)] main_reaches_inv [OF assms(1)] main_reaches_length [OF assms(1)]
  by (auto split: if_splits)

lemma main_step_flag:
  "main_step rets s s' \<Longrightarrow> g_thread_exit_requested (flags s) \<Longrightarrow> g_thread_exit_requested (flags s')"
  by (induction rule: main_step.induct)
     (simp_all add: main_direct_def main_creates_def main_joins_def main_report_def thread_returns_def
       thread_ends_def)

section \<open>Properties\<close>

text \<open>
  C2: whatever the interleaving of the modules, the signals and the failures of
  \<^verbatim>\<open>pthread_create\<close>, when \<open>main\<close> returns no module is still running (the options the threads
  share live on \<open>main\<close>'s stack), and the status is 0 exactly when every selected module was
  run and returned 0.
\<close>

theorem main_exit_status:
  assumes "main_reaches rets (main_begin op) s" and "pc s = Finished c"
  shows "map module (threads s) = selected op
    \<and> list_all (\<lambda>t. \<not> alive (status t)) (threads s)
    \<and> c = (if list_all (\<lambda>t. status t = Ended 0) (threads s) then 0 else 1)"
proof (cases "length (selected op) = 1")
  case True
  then have inv: "one_inv s" using main_reaches_inv [OF assms(1)] by simp
  then obtain t where t: "threads s = [t]" by (auto simp: one_inv_def length_Suc_conv)
  show ?thesis
    using inv assms(2) main_reaches_modules [OF assms(1)] by (auto simp: one_inv_def t alive_def)
next
  case False
  then have inv: "many_inv s" using main_reaches_inv [OF assms(1)] by simp
  have "list_all (\<lambda>t. \<not> alive (status t)) (threads s)" if "list_all (\<lambda>t. status t = Ended 0) (threads s)"
    using that by (auto simp: list_all_iff alive_def)
  then show ?thesis
    using inv assms(2) main_reaches_modules [OF assms(1)] by (auto simp: many_inv_def)
qed

definition two_modules :: app_options where
  "two_modules = default_options\<lparr>mode := APP_MODE_FS_OPEN, mode_mask := 0x82\<rparr>"

definition all_succeed :: run_rets where
  "all_succeed md timeout en pid delay r \<longleftrightarrow> r = 0"

theorem main_exit_status_witness:
  "\<exists>s c. main_reaches all_succeed (main_begin two_modules) s \<and> pc s = Finished c
     \<and> list_all (\<lambda>t. \<not> alive (status t)) (threads s) \<and> map module (threads s) = selected two_modules"
proof -
  have "\<exists>s' c. main_reaches all_succeed (main_begin two_modules) s' \<and> pc s' = Finished c"
    by (rule main_ends [OF main_reaches.start]) (simp add: may_return_def all_succeed_def)
  then obtain s c where s: "main_reaches all_succeed (main_begin two_modules) s" "pc s = Finished c"
    by blast
  then show ?thesis using main_exit_status [OF s] by blast
qed

text \<open>
  C13: if every module returns for the options given, then from every state the program
  can get into, a return of \<open>main\<close> is reachable; and every step but a signal lowers
  \<open>main_left\<close>, so no schedule delays it for ever.
\<close>

theorem main_terminates:
  assumes "main_reaches rets (main_begin op) s" and "\<And>e. \<exists>r. may_return rets op e r"
  shows "(\<exists>s' c. main_reaches rets s s' \<and> pc s' = Finished c)
    \<and> ((\<exists>c. pc s = Finished c) \<or> (\<exists>s'. main_step rets s s' \<and> main_left s' < main_left s))
    \<and> (\<forall>s'. main_step rets s s' \<longrightarrow>
         main_left s' < main_left s \<or> s' = s\<lparr>flags := app_signal_handler (flags s)\<rparr>)"
  using main_ends [OF assms] main_progress [OF assms(1) _ assms(2)] main_reaches_left [OF assms(1)]
  by blast

theorem main_terminates_witness:
  "\<exists>s' c. main_reaches all_succeed (main_begin two_modules) s' \<and> pc s' = Finished c"
proof -
  have "\<exists>r. may_return all_succeed two_modules e r" for e
    by (simp add: may_return_def all_succeed_def)
  then show ?thesis using main_terminates [OF main_reaches.start, of all_succeed two_modules] by blast
qed

text \<open>
  C14: with several modules, once the thread of a module that failed has ended,
  every later test of \<open>app_should_exit\<close> is true, whatever else happens; the other modules
  leave their poll loops. The flag is never taken back.
\<close>

theorem failure_stops_all:
  assumes "main_reaches rets (main_begin op) s" and "length (selected op) \<noteq> 1"
    and "t \<in> set (threads s)" and "status t = Ended r" and "r \<noteq> 0"
    and "main_reaches rets s s'"
  shows "app_should_exit (flags s')"
proof -
  have "many_inv s" using main_reaches_inv [OF assms(1)] assms(2) by simp
  then have "status_ok (flags s) (status t) (result t)" using assms(3) by (simp add: many_inv_def)
  then have "g_thread_exit_requested (flags s)" using assms(4,5) by simp
  with assms(6) have "g_thread_exit_requested (flags s')"
    by (induction rule: main_reaches.induct) (simp_all add: main_step_flag)
  then show ?thesis by (simp add: app_should_exit_def)
qed

definition open_fails :: run_rets where
  "open_fails md timeout en pid delay r \<longleftrightarrow> r = (if md = APP_MODE_FS_OPEN then 5 else 0)"

text \<open>Both threads are created, the second returns 5 and ends.\<close>

definition failed_state :: main_state where
  "failed_state = thread_ends 1 5 (thread_returns 1 5 (main_creates 1 True (main_creates 0 True (main_begin two_modules))))"

lemma selected_two: "selected two_modules =
    [\<lparr>name = ''context'', entry_mode = APP_MODE_CONTEXT_SWITCH\<rparr>, \<lparr>name = ''fs_open'', entry_mode = APP_MODE_FS_OPEN\<rparr>]"
  by code_simp

lemma failed_state_reached: "main_reaches open_fails (main_begin two_modules) failed_state"
proof -
  let ?s0 = "main_begin two_modules"
  let ?s1 = "main_creates 0 True ?s0"
  let ?s2 = "main_creates 1 True ?s1"
  let ?s3 = "thread_returns 1 5 ?s2"
  note defs = main_begin_def selected_two main_creates_def thread_returns_def
  have "main_reaches open_fails ?s0 ?s1"
    by (rule main_reaches.step [OF main_reaches.start main_step.create]) (simp_all add: defs)
  moreover have "main_step open_fails ?s1 ?s2" by (rule main_step.create) (simp_all add: defs)
  moreover have "main_step open_fails ?s2 ?s3"
    by (rule main_step.run_returns) (simp_all add: defs may_return_def open_fails_def)
  moreover have "main_step open_fails ?s3 failed_state"
    unfolding failed_state_def by (rule main_step.thread_exit) (simp_all add: defs)
  ultimately show ?thesis by (blast intro: main_reaches.step)
qed

theorem failure_stops_all_witness:
  "app_should_exit (flags (failed_state\<lparr>flags := app_signal_handler (flags failed_state)\<rparr>))"
proof -
  have mem: "threads failed_state ! 1 \<in> set (threads failed_state)"
    and ended: "status (threads failed_state ! 1) = Ended 5"
    by (simp_all add: failed_state_def thread_ends_def thread_returns_def main_creates_def main_begin_def
        selected_two)
  have later: "main_reaches open_fails failed_state
      (failed_state\<lparr>flags := app_signal_handler (flags failed_state)\<rparr>)"
    by (rule main_reaches.step [OF main_reaches.start main_step.signal])
  have two: "length (selected two_modules) \<noteq> 1" by (simp add: selected_two)
  show ?thesis by (rule failure_stops_all [OF failed_state_reached two mem ended _ later]) simp
qed

text \<open>
  C17: the modules \<open>main\<close> starts for a mode list are exactly those the list names,
  each once however often it is named, in the order of the registry; no list of registered
  names starts nothing.
\<close>

theorem modules_started:
  assumes "length s < 512" and "names_of s \<noteq> []" and "list_all known_name (names_of s)"
    and "fst (app_setup_signal_handlers sigact) = 0"
  shows "\<exists>st. main_entry [(CHR ''m'', Some s)] sigact = Inr st
    \<and> map (name \<circ> module) (threads st) = filter (\<lambda>n. n \<in> set (names_of s)) (map name MODULE_TABLE)
    \<and> threads st \<noteq> []"
proof -
  let ?o = "default_options\<lparr>mode_mask := mask_of (names_of s), mode := mode_of_name (hd (names_of s))\<rparr>"
  have parsed: "app_parse_args [(CHR ''m'', Some s)] = Parsed ?o"
    using assms(1-3) by (rule parse_only_modes)
  have sel: "selected ?o = filter (\<lambda>e. name e \<in> set (names_of s)) MODULE_TABLE"
    using assms(3) by (intro selected_mask_of) simp_all
  have "known_name (hd (names_of s))" using assms(2,3) by (cases "names_of s") simp_all
  then have "selected ?o \<noteq> []"
    using hd_in_set [OF assms(2)] by (auto simp: sel known_name_def filter_empty_conv)
  then show ?thesis
    using assms(4) by (simp add: main_entry_def parsed main_begin_def sel filter_map comp_def)
qed

theorem modules_started_witness:
  "\<exists>st. main_entry [(CHR ''m'', Some ''fs_open,context,fs_open'')] (\<lambda>_. None) = Inr st
    \<and> map (name \<circ> module) (threads st) = [''context'', ''fs_open'']"
proof -
  let ?s = "''fs_open,context,fs_open''"
  have names: "names_of ?s = [''fs_open'', ''context'', ''fs_open'']" by code_simp
  have known: "list_all known_name [''fs_open'', ''context'', ''fs_open'']"
    by (simp add: known_name_def MODULE_TABLE_def)
  have "fst (app_setup_signal_handlers (\<lambda>_. None)) = 0" by (simp add: app_setup_signal_handlers_def)
  moreover have "filter (\<lambda>n. n \<in> set [''fs_open'', ''context'', ''fs_open'']) (map name MODULE_TABLE)
      = [''context'', ''fs_open'']"
    by (simp add: MODULE_TABLE_def)
  ultimately show ?thesis
    using modules_started [of ?s "\<lambda>_. None"] known unfolding names by auto
qed

end
