(* ===== verification/BpfMaps.thy ===== *)
theory BpfMaps
  imports Prelude
begin

section \<open>The kernel's key-value maps\<close>

text \<open>
  The probes keep the state between two firings in BPF maps of type HASH and LRU\_HASH. A map
  is an association list with distinct keys; the operations below are what the kernel documents
  of \<^verbatim>\<open>bpf_map_lookup_elem\<close>, \<^verbatim>\<open>bpf_map_update_elem\<close> and \<^verbatim>\<open>bpf_map_delete_elem\<close>. The contract
  the probes rely on is the locale \<open>bpf_map\<close>, and \<open>exact_map\<close> for a map that never evicts. Both
  kinds of map are interpretations.
\<close>

type_synonym ('k, 'v) bmap = "('k \<times> 'v) list"

text \<open>
  A HASH map of \<open>mx\<close> entries: an update of a present key replaces the value, a new key needs a
  free entry, and the allocation can fail (\<open>ok\<close>). \<open>None\<close> is a nonzero return value; the map
  is unchanged then.
\<close>

definition hash_update ::
  "nat \<Rightarrow> bool \<Rightarrow> 'k \<Rightarrow> 'v \<Rightarrow> ('k, 'v) bmap \<Rightarrow> ('k, 'v) bmap option" where
  "hash_update mx ok k v m =
     (if ok \<and> (map_of m k \<noteq> None \<or> length m < mx) then Some (AList.update k v m) else None)"

text \<open>With the flag \<^verbatim>\<open>BPF_NOEXIST\<close> a present key is an error.\<close>

definition hash_update_noexist ::
  "nat \<Rightarrow> bool \<Rightarrow> 'k \<Rightarrow> 'v \<Rightarrow> ('k, 'v) bmap \<Rightarrow> ('k, 'v) bmap option" where
  "hash_update_noexist mx ok k v m =
     (if map_of m k \<noteq> None then None else hash_update mx ok k v m)"

text \<open>
  An LRU map makes room by evicting entries. Which ones is the kernel's choice (\<open>ev\<close>); when the
  choice frees nothing and the map is full, the oldest entry goes.
\<close>

definition lru_evict :: "'k list \<Rightarrow> 'k \<Rightarrow> ('k, 'v) bmap \<Rightarrow> ('k, 'v) bmap" where
  "lru_evict ev k m = filter (\<lambda>p. fst p = k \<or> fst p \<notin> set ev) m"

definition lru_room :: "nat \<Rightarrow> 'k \<Rightarrow> ('k, 'v) bmap \<Rightarrow> ('k, 'v) bmap" where
  "lru_room mx k m = (if map_of m k = None \<and> mx \<le> length m then drop (Suc (length m - mx)) m else m)"

definition lru_update ::
  "nat \<Rightarrow> bool \<times> 'k list \<Rightarrow> 'k \<Rightarrow> 'v \<Rightarrow> ('k, 'v) bmap \<Rightarrow> ('k, 'v) bmap option" where
  "lru_update mx r k v m =
     (if fst r \<and> 0 < mx then Some (AList.update k v (lru_room mx k (lru_evict (snd r) k m)))
      else None)"

definition bpf_delete :: "'k \<Rightarrow> ('k, 'v) bmap \<Rightarrow> ('k, 'v) bmap" where
  "bpf_delete k m = AList.delete k m"

text \<open>\<open>if (bpf_map_update_elem(...)) failed++;\<close> keeps the old map when the update fails.\<close>

definition map_or_same :: "('k, 'v) bmap option \<Rightarrow> ('k, 'v) bmap \<Rightarrow> ('k, 'v) bmap" where
  "map_or_same r m = (case r of None \<Rightarrow> m | Some m' \<Rightarrow> m')"

definition map_wf :: "nat \<Rightarrow> ('k, 'v) bmap \<Rightarrow> bool" where
  "map_wf mx m \<longleftrightarrow> distinct (map fst m) \<and> length m \<le> mx"

text \<open>A property of every entry a lookup can find.\<close>

definition map_all :: "('k \<Rightarrow> 'v \<Rightarrow> bool) \<Rightarrow> ('k, 'v) bmap \<Rightarrow> bool" where
  "map_all P m \<longleftrightarrow> (\<forall>k v. map_of m k = Some v \<longrightarrow> P k v)"

section \<open>The contract\<close>

locale bpf_map =
  fixes upd :: "'r \<Rightarrow> 'k \<Rightarrow> 'v \<Rightarrow> ('k, 'v) bmap \<Rightarrow> ('k, 'v) bmap option"
    and wf :: "('k, 'v) bmap \<Rightarrow> bool"
  assumes upd_same: "wf m \<Longrightarrow> upd r k v m = Some m' \<Longrightarrow> map_of m' k = Some v"
    and upd_other: "wf m \<Longrightarrow> upd r k v m = Some m' \<Longrightarrow> k' \<noteq> k \<Longrightarrow>
      map_of m' k' = None \<or> map_of m' k' = map_of m k'"
    and upd_wf: "wf m \<Longrightarrow> upd r k v m = Some m' \<Longrightarrow> wf m'"
    and delete_wf: "wf m \<Longrightarrow> wf (bpf_delete k m)"
    and empty_wf: "wf []"
begin

lemma upd_found:
  assumes "wf m" and "map_of (map_or_same (upd r k v m) m) k' = Some v'"
  shows "(k' = k \<and> v' = v \<and> upd r k v m \<noteq> None) \<or>
    (map_of m k' = Some v' \<and> (k' \<noteq> k \<or> upd r k v m = None))"
proof (cases "upd r k v m")
  case None
  then show ?thesis using assms by (simp add: map_or_same_def)
next
  case (Some m')
  then show ?thesis
    using assms upd_same [OF assms(1) Some] upd_other [OF assms(1) Some, of k']
    by (cases "k' = k") (auto simp: map_or_same_def)
qed

text \<open>When an update fails only for an absent key, what is found is the new entry or another key's.\<close>

lemma upd_opened:
  assumes "wf m" and "map_of (map_or_same (upd r k v m) m) k' = Some v'"
    and "upd r k v m = None \<Longrightarrow> map_of m k = None"
  shows "(k' = k \<and> v' = v) \<or> (map_of m k' = Some v' \<and> k' \<noteq> k)"
  using upd_found [OF assms(1,2)] assms(3) by auto

lemma upd_dom:
  assumes "wf m" and "upd r k v m = Some m'"
  shows "dom (map_of m') \<subseteq> insert k (dom (map_of m))"
proof
  fix j assume "j \<in> dom (map_of m')"
  then show "j \<in> insert k (dom (map_of m))"
    using upd_other [OF assms, of j] by (cases "j = k") auto
qed

lemma upd_all:
  assumes "wf m" and "map_all P m" and "P k v"
  shows "map_all P (map_or_same (upd r k v m) m)"
  using assms upd_found [OF assms(1), of r k v] unfolding map_all_def by blast

lemma map_or_same_wf: "wf m \<Longrightarrow> wf (map_or_same (upd r k v m) m)"
  by (auto simp: map_or_same_def upd_wf split: option.split)

end

text \<open>A map without eviction is a finite map: an update leaves every other key alone.\<close>

locale exact_map = bpf_map +
  assumes upd_exact: "wf m \<Longrightarrow> upd r k v m = Some m' \<Longrightarrow> map_of m' = (map_of m)(k \<mapsto> v)"
    and upd_size: "wf m \<Longrightarrow> upd r k v m = Some m' \<Longrightarrow>
      length m' = length m + of_bool (map_of m k = None)"
begin

lemma upd_keeps:
  assumes "wf m" and "k' \<noteq> k"
  shows "map_of (map_or_same (upd r k v m) m) k' = map_of m k'"
  using assms upd_exact [OF assms(1)] by (auto simp: map_or_same_def split: option.split)

end

section \<open>Lemmas\<close>

lemma map_of_delete [simp]: "map_of (bpf_delete k m) = (map_of m)(k := None)"
  by (simp add: bpf_delete_def delete_conv')

lemma map_of_delete_Some:
  "map_of (bpf_delete k m) k' = Some v \<longleftrightarrow> k' \<noteq> k \<and> map_of m k' = Some v"
  by simp

lemma delete_map_wf: "map_wf mx m \<Longrightarrow> map_wf mx (bpf_delete k m)"
  using length_delete_le [of k m] by (auto simp: map_wf_def bpf_delete_def distinct_delete)

lemma bpf_delete_absent [simp]: "map_of m k = None \<Longrightarrow> bpf_delete k m = m"
  by (simp add: bpf_delete_def AList.delete_idem map_of_eq_None_iff)

lemma map_or_same_simps [simp]:
  "map_or_same None m = m"
  "map_or_same (Some m') m = m'"
  by (simp_all add: map_or_same_def)

lemma map_all_Nil [simp]: "map_all P []"
  by (simp add: map_all_def)

lemma map_all_delete: "map_all P m \<Longrightarrow> map_all P (bpf_delete k m)"
  by (simp add: map_all_def)

lemma map_allD: "map_all P m \<Longrightarrow> map_of m k = Some v \<Longrightarrow> P k v"
  by (simp add: map_all_def)

lemma map_wf_Nil [simp]: "map_wf mx []"
  by (simp add: map_wf_def)

lemma length_delete_present:
  assumes "distinct (map fst m)" and "map_of m k \<noteq> None"
  shows "Suc (length (bpf_delete k m)) = length m"
  using assms
proof (induction m)
  case (Cons p m)
  show ?case
  proof (cases "fst p = k")
    case True
    then have "k \<notin> fst ` set m" using Cons.prems(1) by auto
    then show ?thesis using True by (cases p) (simp add: bpf_delete_def AList.delete_idem)
  next
    case False
    then show ?thesis using Cons by (cases p) (simp add: bpf_delete_def AList.delete_eq)
  qed
qed simp

lemma length_update:
  "length (AList.update k v m) = length m + of_bool (map_of m k = None)"
  by (induction m) auto

lemma map_wf_update:
  assumes "map_wf mx m" and "map_of m k \<noteq> None \<or> length m < mx"
  shows "map_wf mx (AList.update k v m)"
  using assms by (auto simp: map_wf_def length_update distinct_update)

lemma map_of_lru_evict:
  "map_of (lru_evict ev k m) k' = (if k' = k \<or> k' \<notin> set ev then map_of m k' else None)"
  by (induction m) (auto simp: lru_evict_def)

lemma lru_evict_wf: "map_wf mx m \<Longrightarrow> map_wf mx (lru_evict ev k m)"
  using length_filter_le [of "\<lambda>p. fst p = k \<or> fst p \<notin> set ev" m]
  by (auto simp: map_wf_def lru_evict_def distinct_map_filter simp del: length_filter_le)

lemma map_of_drop:
  "distinct (map fst m) \<Longrightarrow> map_of (drop n m) k = None \<or> map_of (drop n m) k = map_of m k"
proof (induction m arbitrary: n)
  case (Cons p m)
  show ?case
  proof (cases n)
    case (Suc j)
    have "map_of (drop j m) k = None" if "k = fst p"
      using Cons.prems that by (auto simp: map_of_eq_None_iff dest: in_set_dropD)
    then show ?thesis using Suc Cons.IH [of j] Cons.prems by (cases p) auto
  qed simp
qed simp

lemma lru_room_wf:
  assumes "map_wf mx m" and "0 < mx"
  shows "map_wf mx (lru_room mx k m) \<and>
    (map_of (lru_room mx k m) k \<noteq> None \<or> length (lru_room mx k m) < mx)"
  using assms by (auto simp: map_wf_def lru_room_def drop_map [symmetric])

lemma map_of_lru_room:
  assumes "map_wf mx m"
  shows "map_of (lru_room mx k m) k' = None \<or> map_of (lru_room mx k m) k' = map_of m k'"
  using assms map_of_drop [of m] by (auto simp: lru_room_def map_wf_def)

lemma hash_update_Some:
  "hash_update mx ok k v m = Some m' \<longleftrightarrow>
     ok \<and> (map_of m k \<noteq> None \<or> length m < mx) \<and> m' = AList.update k v m"
  by (auto simp: hash_update_def)

lemma hash_update_None:
  "hash_update mx ok k v m = None \<longleftrightarrow> \<not> ok \<or> (map_of m k = None \<and> mx \<le> length m)"
  by (auto simp: hash_update_def)

lemma hash_update_not_ok [simp]: "hash_update mx False k v m = None"
  by (simp add: hash_update_None)

lemma lru_update_Some:
  "lru_update mx r k v m = Some m' \<longleftrightarrow> fst r \<and> 0 < mx \<and>
     m' = AList.update k v (lru_room mx k (lru_evict (snd r) k m))"
  by (auto simp: lru_update_def)

lemma lru_update_not_ok [simp]: "lru_update mx (False, ev) k v m = None"
  by (simp add: lru_update_def)

lemma lru_update_None: "lru_update mx r k v m = None \<longleftrightarrow> \<not> fst r \<or> mx = 0"
  by (auto simp: lru_update_def)

section \<open>The two kinds of map meet the contract\<close>

interpretation hash: exact_map "hash_update mx" "map_wf mx" for mx
proof unfold_locales
  fix m m' :: "('a \<times> 'b) list" and r k v
  assume "map_wf mx m" and u: "hash_update mx r k v m = Some m'"
  then show "map_wf mx m'" by (simp add: hash_update_Some map_wf_update)
  show "map_of m' = (map_of m)(k \<mapsto> v)"
    using u by (simp add: hash_update_Some update_conv')
  then show "map_of m' k = Some v" by simp
  show "length m' = length m + of_bool (map_of m k = None)"
    using u by (simp add: hash_update_Some length_update)
next
  fix m m' :: "('a \<times> 'b) list" and r k v k'
  assume "hash_update mx r k v m = Some m'" and "k' \<noteq> k"
  then show "map_of m' k' = None \<or> map_of m' k' = map_of m k'"
    by (simp add: hash_update_Some update_conv')
qed (simp_all add: delete_map_wf)

interpretation lru: bpf_map "lru_update mx" "map_wf mx" for mx
proof unfold_locales
  fix m m' :: "('a \<times> 'b) list" and r k v
  assume w: "map_wf mx m" and u: "lru_update mx r k v m = Some m'"
  then show "map_wf mx m'"
    using lru_room_wf [OF lru_evict_wf [OF w]] by (auto simp: lru_update_Some map_wf_update)
  show "map_of m' k = Some v" using u by (simp add: lru_update_Some update_conv')
next
  fix m m' :: "('a \<times> 'b) list" and r k v k'
  assume w: "map_wf mx m" and u: "lru_update mx r k v m = Some m'" and "k' \<noteq> k"
  then show "map_of m' k' = None \<or> map_of m' k' = map_of m k'"
    using map_of_lru_room [OF lru_evict_wf [OF w], of k "snd r" k k']
    by (auto simp: lru_update_Some update_conv' map_of_lru_evict)
qed (simp_all add: delete_map_wf)

end
