(* ===== verification/Monitor.thy ===== *)
theory Monitor
  imports BpfMaps
begin

section \<open>What the monitors have in common\<close>

text \<open>
  Every probe module is a set of handlers the kernel fires in any order, on any CPU, for any
  thread: a run is a sequence of firings, applied one after the other to the state of the
  module's maps. The locales below state the contracts the modules share, each with the
  consequences for whole runs; a module discharges the laws for single firings and gets
  the statement for every run.
\<close>

text \<open>A run in which every firing meets a condition in the state it finds.\<close>

primrec admissible :: "('e \<Rightarrow> 's \<Rightarrow> bool) \<Rightarrow> ('e \<Rightarrow> 's \<Rightarrow> 's) \<Rightarrow> 'e list \<Rightarrow> 's \<Rightarrow> bool" where
  "admissible ok step [] s = True"
| "admissible ok step (e # tr) s = (ok e s \<and> admissible ok step tr (step e s))"

lemma admissible_True [simp]: "admissible (\<lambda>_ _. True) step tr s"
  by (induction tr arbitrary: s) simp_all

lemma admissible_append:
  "admissible ok step (tr @ tr') s \<longleftrightarrow>
     admissible ok step tr s \<and> admissible ok step tr' (fold step tr s)"
  by (induction tr arbitrary: s) simp_all

lemma admissible_event: "admissible (\<lambda>e _. P e) step tr s \<longleftrightarrow> list_all P tr"
  by (induction tr arbitrary: s) simp_all

text \<open>The events a firing appends: what \<open>f\<close> makes of the entry found under \<open>k\<close>, if anything.\<close>

definition reported :: "('v \<Rightarrow> 'x option) \<Rightarrow> ('k, 'v) bmap \<Rightarrow> 'k \<Rightarrow> 'x list" where
  "reported f m k =
     (case map_of m k of None \<Rightarrow> []
      | Some v \<Rightarrow> (case f v of None \<Rightarrow> [] | Some x \<Rightarrow> [x]))"

lemma in_reported: "x \<in> set (reported f m k) \<longleftrightarrow> (\<exists>v. map_of m k = Some v \<and> f v = Some x)"
  by (cases "map_of m k"; cases "f (the (map_of m k))") (auto simp: reported_def)

lemma reported_absent [simp]: "map_of m k = None \<Longrightarrow> reported f m k = []"
  by (simp add: reported_def)

lemma reported_present [simp]:
  "map_of m k = Some v \<Longrightarrow> reported f m k = (case f v of None \<Rightarrow> [] | Some x \<Rightarrow> [x])"
  by (simp add: reported_def)

locale probe_system =
  fixes step :: "'e \<Rightarrow> 's \<Rightarrow> 's"
    and ok :: "'e \<Rightarrow> 's \<Rightarrow> bool"
    and inv :: "'s \<Rightarrow> bool"
  assumes step_inv: "inv s \<Longrightarrow> ok e s \<Longrightarrow> inv (step e s)"
begin

lemma run_inv: "admissible ok step tr s \<Longrightarrow> inv s \<Longrightarrow> inv (fold step tr s)"
  by (induction tr arbitrary: s) (simp_all add: step_inv)

text \<open>What holds after a run and not before came about at one firing.\<close>

lemma run_source:
  assumes "admissible ok step tr s" and "inv s" and "\<not> P s" and "P (fold step tr s)"
  shows "\<exists>pre e post. tr = pre @ e # post \<and> \<not> P (fold step pre s) \<and> P (step e (fold step pre s)) \<and>
    inv (fold step pre s) \<and> ok e (fold step pre s) \<and> admissible ok step pre s"
  using assms(1,4)
proof (induction tr rule: rev_induct)
  case Nil
  then show ?case using assms(3) by simp
next
  case (snoc e tr)
  show ?case
  proof (cases "P (fold step tr s)")
    case True
    then obtain pre e' post where "tr = pre @ e' # post" "\<not> P (fold step pre s)"
      "P (step e' (fold step pre s))" "inv (fold step pre s)" "ok e' (fold step pre s)"
      "admissible ok step pre s"
      using snoc by (auto simp: admissible_append)
    then show ?thesis by (intro exI [of _ pre] exI [of _ e'] exI [of _ "post @ [e]"]) simp
  next
    case False
    then show ?thesis using snoc.prems assms(2)
      by (intro exI [of _ tr] exI [of _ e] exI [of _ "[]"]) (simp add: admissible_append run_inv)
  qed
qed

lemma prefix_inv: "admissible ok step (tr @ tr') s \<Longrightarrow> inv s \<Longrightarrow> inv (fold step tr s)"
  by (simp add: admissible_append run_inv)

end

text \<open>
  Accounting: every handler moves the counters of one CPU so that a balance of them keeps its
  value. Then it keeps its value on every CPU, and summed over all CPUs.
\<close>

locale balanced_monitor = probe_system step ok inv
  for step :: "'e \<Rightarrow> 's \<Rightarrow> 's" and ok :: "'e \<Rightarrow> 's \<Rightarrow> bool" and inv :: "'s \<Rightarrow> bool" +
  fixes stats :: "'s \<Rightarrow> 'c list" and bal :: "'c \<Rightarrow> u64"
  assumes step_bal: "inv s \<Longrightarrow> ok e s \<Longrightarrow> map bal (stats (step e s)) = map bal (stats s)"
begin

lemma run_bal:
  "admissible ok step tr s \<Longrightarrow> inv s \<Longrightarrow> map bal (stats (fold step tr s)) = map bal (stats s)"
  by (induction tr arbitrary: s) (simp_all add: step_inv step_bal)

lemma run_cpus: "admissible ok step tr s \<Longrightarrow> inv s \<Longrightarrow> length (stats (fold step tr s)) = length (stats s)"
  using run_bal [of tr s] by (metis length_map)

lemma run_bal_zero:
  assumes "admissible ok step tr s" and "inv s" and "\<forall>c \<in> set (stats s). bal c = 0"
    and "c \<in> set (stats (fold step tr s))"
  shows "bal c = 0"
proof -
  have "set (map bal (stats (fold step tr s))) = set (map bal (stats s))"
    using run_bal [OF assms(1,2)] by simp
  then show ?thesis using assms(3,4) by (metis image_eqI imageE set_map)
qed

end

text \<open>
  Where an entry comes from: a firing may open an entry of a map (\<open>start_of\<close>: its key and value, in
  the state it finds) or close one (\<open>closes\<close>). What a run leaves under a key is the entry of the
  last firing that opened it, with no firing after it that opened or closed that key.
\<close>

locale tracked_table = probe_system step ok inv
  for step :: "'e \<Rightarrow> 's \<Rightarrow> 's" and ok :: "'e \<Rightarrow> 's \<Rightarrow> bool" and inv :: "'s \<Rightarrow> bool" +
  fixes tab :: "'s \<Rightarrow> ('k, 'v) bmap"
    and start_of :: "'e \<Rightarrow> 's \<Rightarrow> ('k \<times> 'v) option" and closes :: "'e \<Rightarrow> 's \<Rightarrow> 'k \<Rightarrow> bool"
  assumes step_tab: "inv s \<Longrightarrow> ok e s \<Longrightarrow> map_of (tab (step e s)) k = Some v \<Longrightarrow>
      start_of e s = Some (k, v) \<or>
      (map_of (tab s) k = Some v \<and> \<not> closes e s k \<and> (\<forall>v'. start_of e s \<noteq> Some (k, v')))"
begin

lemma found_origin:
  assumes "admissible ok step tr s" and "inv s" and "tab s = []"
    and "map_of (tab (fold step tr s)) k = Some v"
  shows "\<exists>pre e mid. tr = pre @ e # mid \<and> start_of e (fold step pre s) = Some (k, v) \<and>
    (\<forall>m1 e' m2. mid = m1 @ e' # m2 \<longrightarrow> \<not> closes e' (fold step (pre @ e # m1) s) k \<and>
       (\<forall>v'. start_of e' (fold step (pre @ e # m1) s) \<noteq> Some (k, v')))"
  using assms(1,4)
proof (induction tr rule: rev_induct)
  case Nil
  then show ?case using assms(3) by simp
next
  case (snoc e tr)
  let ?s = "fold step tr s"
  have i: "inv ?s" and o: "ok e ?s" and a: "admissible ok step tr s"
    using snoc.prems(1) assms(2) by (simp_all add: admissible_append run_inv)
  have "start_of e ?s = Some (k, v) \<or>
      (map_of (tab ?s) k = Some v \<and> \<not> closes e ?s k \<and> (\<forall>v'. start_of e ?s \<noteq> Some (k, v')))"
    using step_tab [OF i o] snoc.prems(2) by simp
  then show ?case
  proof
    assume "start_of e ?s = Some (k, v)"
    then show ?thesis by (intro exI [of _ tr] exI [of _ e] exI [of _ "[]"]) simp
  next
    assume h: "map_of (tab ?s) k = Some v \<and> \<not> closes e ?s k \<and> (\<forall>v'. start_of e ?s \<noteq> Some (k, v'))"
    then obtain pre e1 mid where t: "tr = pre @ e1 # mid"
      and o1: "start_of e1 (fold step pre s) = Some (k, v)"
      and m: "\<forall>m1 e' m2. mid = m1 @ e' # m2 \<longrightarrow> \<not> closes e' (fold step (pre @ e1 # m1) s) k \<and>
         (\<forall>v'. start_of e' (fold step (pre @ e1 # m1) s) \<noteq> Some (k, v'))"
      using snoc.IH [OF a] by blast
    have "\<not> closes e' (fold step (pre @ e1 # m1) s) k \<and>
        (\<forall>v'. start_of e' (fold step (pre @ e1 # m1) s) \<noteq> Some (k, v'))"
      if "mid @ [e] = m1 @ e' # m2" for m1 e' m2
    proof (cases m2 rule: rev_cases)
      case Nil
      then have "m1 = mid" "e' = e" using that by auto
      then show ?thesis using h t by simp
    next
      case (snoc m2' z)
      then have "mid = m1 @ e' # m2'" using that by auto
      then show ?thesis using m by blast
    qed
    then show ?thesis using o1 t
      by (intro exI [of _ pre] exI [of _ e1] exI [of _ "mid @ [e]"]) simp
  qed
qed

end

text \<open>
  Pairing: what a firing opens and closes depends on the firing alone, and a firing may report an
  event made of the entry it finds (\<open>report\<close>). Then every entry is that of the last firing that opened it and not closed since
  (\<open>live_entries\<close>), and every event in the ring buffer is the report of a pair of firings.
\<close>

definition live_entries ::
    "('e \<Rightarrow> ('k \<times> 'v) option) \<Rightarrow> ('e \<Rightarrow> 'k \<Rightarrow> bool) \<Rightarrow> 'e list \<Rightarrow> ('k, 'v) bmap \<Rightarrow> bool" where
  "live_entries start_of closes tr m \<longleftrightarrow> map_all (\<lambda>k v. \<exists>pre e mid. tr = pre @ e # mid \<and> start_of e = Some (k, v)
     \<and> (\<forall>e' \<in> set mid. \<not> closes e' k \<and> (\<forall>v'. start_of e' \<noteq> Some (k, v')))) m"

locale paired_monitor = probe_system step ok inv
  for step :: "'e \<Rightarrow> 's \<Rightarrow> 's" and ok :: "'e \<Rightarrow> 's \<Rightarrow> bool" and inv :: "'s \<Rightarrow> bool" +
  fixes tab :: "'s \<Rightarrow> ('k, 'v) bmap" and rb :: "'s \<Rightarrow> 'x list"
    and start_of :: "'e \<Rightarrow> ('k \<times> 'v) option" and closes :: "'e \<Rightarrow> 'k \<Rightarrow> bool"
    and report :: "'e \<Rightarrow> 'k \<Rightarrow> 'v \<Rightarrow> 'x option"
  assumes step_pair: "inv s \<Longrightarrow> ok e s \<Longrightarrow> map_of (tab (step e s)) k = Some v \<Longrightarrow>
      start_of e = Some (k, v) \<or>
      (map_of (tab s) k = Some v \<and> \<not> closes e k \<and> (\<forall>v'. start_of e \<noteq> Some (k, v')))"
    and step_rb: "inv s \<Longrightarrow> ok e s \<Longrightarrow> x \<in> set (rb (step e s)) \<Longrightarrow>
      x \<in> set (rb s) \<or> (\<exists>k v. map_of (tab s) k = Some v \<and> report e k v = Some x)"

sublocale paired_monitor \<subseteq> tracked_table step ok inv tab "\<lambda>e _. start_of e" "\<lambda>e _. closes e"
  by unfold_locales (rule step_pair)

context paired_monitor
begin

lemma found_opened:
  assumes "admissible ok step tr s" and "inv s" and "tab s = []"
    and "map_of (tab (fold step tr s)) k = Some v"
  shows "\<exists>pre e mid. tr = pre @ e # mid \<and> start_of e = Some (k, v) \<and>
    (\<forall>e' \<in> set mid. \<not> closes e' k \<and> (\<forall>v'. start_of e' \<noteq> Some (k, v')))"
  using found_origin [OF assms] by (metis in_set_conv_decomp)

lemma run_live:
  "admissible ok step tr s \<Longrightarrow> inv s \<Longrightarrow> tab s = [] \<Longrightarrow> live_entries start_of closes tr (tab (fold step tr s))"
  unfolding live_entries_def map_all_def using found_opened by blast

lemma reported_pair:
  assumes "admissible ok step tr s" and "inv s" and "tab s = []" and "rb s = []"
    and "x \<in> set (rb (fold step tr s))"
  shows "\<exists>pre e1 mid e2 post k v. tr = pre @ e1 # mid @ e2 # post \<and>
    start_of e1 = Some (k, v) \<and> report e2 k v = Some x \<and>
    (\<forall>e' \<in> set mid. \<not> closes e' k \<and> (\<forall>v'. start_of e' \<noteq> Some (k, v')))"
  using assms(1,5)
proof (induction tr rule: rev_induct)
  case Nil
  then show ?case using assms(4) by simp
next
  case (snoc e tr)
  let ?s = "fold step tr s"
  have i: "inv ?s" and o: "ok e ?s" and a: "admissible ok step tr s"
    using snoc.prems(1) assms(2) by (simp_all add: admissible_append run_inv)
  have "x \<in> set (rb ?s) \<or> (\<exists>k v. map_of (tab ?s) k = Some v \<and> report e k v = Some x)"
    using step_rb [OF i o] snoc.prems(2) by simp
  then show ?case
  proof
    assume "x \<in> set (rb ?s)"
    then obtain pre e1 mid e2 post k v where "tr = pre @ e1 # mid @ e2 # post"
      "start_of e1 = Some (k, v)" "report e2 k v = Some x"
      "\<forall>e' \<in> set mid. \<not> closes e' k \<and> (\<forall>v'. start_of e' \<noteq> Some (k, v'))"
      using snoc.IH [OF a] by blast
    then show ?thesis
      by (intro exI [of _ pre] exI [of _ e1] exI [of _ mid] exI [of _ e2]
          exI [of _ "post @ [e]"] exI [of _ k] exI [of _ v]) simp
  next
    assume "\<exists>k v. map_of (tab ?s) k = Some v \<and> report e k v = Some x"
    then obtain k v where f: "map_of (tab ?s) k = Some v" and r: "report e k v = Some x" by blast
    from found_opened [OF a assms(2,3) f] obtain pre e1 mid where "tr = pre @ e1 # mid"
      "start_of e1 = Some (k, v)"
      "\<forall>e' \<in> set mid. \<not> closes e' k \<and> (\<forall>v'. start_of e' \<noteq> Some (k, v'))"
      by blast
    then show ?thesis using r
      by (intro exI [of _ pre] exI [of _ e1] exI [of _ mid] exI [of _ e]
          exI [of _ "[]"] exI [of _ k] exI [of _ v]) simp
  qed
qed

text \<open>What every report of a pair has, every event has.\<close>

lemma reported_all:
  assumes "x \<in> set (rb (fold step tr s))" and "admissible ok step tr s" and "inv s" and "tab s = []" and "rb s = []"
    and "\<And>e1 e2 k v x. start_of e1 = Some (k, v) \<Longrightarrow> report e2 k v = Some x \<Longrightarrow> P x"
  shows "P x"
  using reported_pair [OF assms(2-5,1)] assms(6) by blast

end

text \<open>
  Conservation: on admissible runs a quantity of the whole state, such as calls begun less calls
  finished less entries in flight, keeps its value.
\<close>

locale conserved_monitor = probe_system step ok inv
  for step :: "'e \<Rightarrow> 's \<Rightarrow> 's" and ok :: "'e \<Rightarrow> 's \<Rightarrow> bool" and inv :: "'s \<Rightarrow> bool" +
  fixes quantity :: "'s \<Rightarrow> 'q"
  assumes step_quantity: "inv s \<Longrightarrow> ok e s \<Longrightarrow> quantity (step e s) = quantity s"
begin

lemma run_quantity:
  "admissible ok step tr s \<Longrightarrow> inv s \<Longrightarrow> quantity (fold step tr s) = quantity s"
  by (induction tr arbitrary: s) (simp_all add: step_inv step_quantity)

end

section \<open>The largest reported value\<close>

text \<open>
  Modules that keep the largest value they reported, with the fields that describe it: \<open>tags\<close>
  are the maxima of the CPUs, \<open>evs\<close> the same fields of the events reported. Every nonzero
  maximum is a reported event, and no reported event exceeds all maxima.
\<close>

definition max_books :: "(u64 \<times> 't) list \<Rightarrow> (u64 \<times> 't) list \<Rightarrow> bool" where
  "max_books tags evs \<longleftrightarrow> (\<forall>e \<in> set evs. \<exists>t \<in> set tags. fst e \<le> fst t) \<and>
     (\<forall>t \<in> set tags. fst t = 0 \<or> t \<in> set evs)"

definition max_tag :: "u64 \<times> 't \<Rightarrow> u64 \<times> 't \<Rightarrow> u64 \<times> 't" where
  "max_tag x t = (if fst x > fst t then x else t)"

lemma max_books_Nil: "(\<And>t. t \<in> set tags \<Longrightarrow> fst t = 0) \<Longrightarrow> max_books tags []"
  by (simp add: max_books_def)

lemma max_books_report:
  assumes "max_books tags evs" and "c < length tags"
  shows "max_books (percpu_upd c (max_tag x) tags) (evs @ [x])"
proof -
  let ?new = "percpu_upd c (max_tag x) tags"
  have "\<exists>t \<in> set ?new. fst e \<le> fst t" if e: "e \<in> set (evs @ [x])" for e
  proof (cases "e \<in> set evs")
    case True
    then obtain t where t: "t \<in> set tags" "fst e \<le> fst t"
      using assms(1) by (auto simp: max_books_def)
    moreover have "fst t \<le> fst (max_tag x t)" by (auto simp: max_tag_def)
    ultimately show ?thesis using percpu_upd_to [OF t(1), of c "max_tag x"] by (meson order_trans)
  next
    case False
    then have "fst e \<le> fst (max_tag x (tags ! c))" using e by (auto simp: max_tag_def)
    then show ?thesis using percpu_upd_new [OF assms(2), of "max_tag x"] by blast
  qed
  moreover have "fst (tags ! c) = 0 \<or> tags ! c \<in> set evs"
    using assms by (auto simp: max_books_def)
  then have "fst t = 0 \<or> t \<in> set (evs @ [x])" if "t \<in> set ?new" for t
    using percpu_upd_from [OF that] assms(1) by (auto simp: max_books_def max_tag_def)
  ultimately show ?thesis by (simp add: max_books_def)
qed

section \<open>Merging the per-CPU copies\<close>

text \<open>
  At exit the user side reads all copies of the statistics and merges them: counters are added,
  and the copy with the largest maximum also gives the fields that describe it (\<open>tag\<close>).
\<close>

locale percpu_report =
  fixes zero :: 'c and merge :: "'c \<Rightarrow> 'c \<Rightarrow> 'c" and counters :: "('c \<Rightarrow> u64) set"
    and mx :: "'c \<Rightarrow> u64" and tag :: "'c \<Rightarrow> 't"
  assumes zero_counter: "f \<in> counters \<Longrightarrow> f zero = 0"
    and zero_mx: "mx zero = 0"
    and merge_counter: "f \<in> counters \<Longrightarrow> f (merge a b) = f a + f b"
    and merge_mx: "mx (merge a b) = max (mx a) (mx b)"
    and merge_tag: "tag (merge a b) = (if mx a < mx b then tag b else tag a)"
begin

lemma fold_counter:
  "f \<in> counters \<Longrightarrow> f (foldl merge a vs) = f a + sum_list (map f vs)"
  by (induction vs arbitrary: a) (simp_all add: merge_counter add.assoc)

lemma report_counter: "f \<in> counters \<Longrightarrow> f (foldl merge zero vs) = sum_list (map f vs)"
  by (simp add: fold_counter zero_counter)

lemma fold_mx_ge: "mx a \<le> mx (foldl merge a vs)"
  by (induction vs arbitrary: a) (simp_all, metis max.bounded_iff merge_mx)

lemma report_mx_ge: "v \<in> set vs \<Longrightarrow> mx v \<le> mx (foldl merge a vs)"
proof (induction vs arbitrary: a)
  case (Cons w vs)
  show ?case
  proof (cases "v = w")
    case True
    have "mx w \<le> mx (merge a w)" by (simp add: merge_mx)
    then show ?thesis using True fold_mx_ge [of "merge a w" vs] by simp
  next
    case False
    then show ?thesis using Cons by simp
  qed
qed simp

lemma fold_source:
  "\<exists>v \<in> insert a (set vs). mx (foldl merge a vs) = mx v \<and> tag (foldl merge a vs) = tag v"
proof (induction vs arbitrary: a)
  case (Cons w vs)
  obtain v where v: "v \<in> insert (merge a w) (set vs)" and
    e: "mx (foldl merge (merge a w) vs) = mx v" "tag (foldl merge (merge a w) vs) = tag v"
    using Cons.IH by blast
  show ?case
  proof (cases "v = merge a w")
    case True
    then show ?thesis using e merge_mx [of a w] merge_tag [of a w]
      by (cases "mx a < mx w") (auto simp: max_def not_less)
  next
    case False
    then show ?thesis using v e by auto
  qed
qed simp

lemma report_source:
  assumes "mx (foldl merge zero vs) \<noteq> 0"
  shows "\<exists>v \<in> set vs. mx (foldl merge zero vs) = mx v \<and> tag (foldl merge zero vs) = tag v \<and>
    (\<forall>w \<in> set vs. mx w \<le> mx v)"
proof -
  obtain v where "v \<in> insert zero (set vs)"
    "mx (foldl merge zero vs) = mx v" "tag (foldl merge zero vs) = tag v"
    using fold_source [of zero vs] by blast
  then show ?thesis using assms zero_mx report_mx_ge [of _ vs zero] by force
qed

end

section \<open>Entries that change while they are in a map\<close>

text \<open>
  The network modules update an entry in place several times between its creation and its removal.
  \<open>touch e k v\<close> is what the firing \<open>e\<close> makes of the value \<open>v\<close> under \<open>k\<close>, \<open>None\<close> if it removes or replaces it;
  \<open>start_of e s\<close> is the entry it creates.
\<close>

fun touched :: "('e \<Rightarrow> 'k \<Rightarrow> 'v \<Rightarrow> 'v option) \<Rightarrow> 'k \<Rightarrow> 'e list \<Rightarrow> 'v \<Rightarrow> 'v option" where
  "touched touch k [] v = Some v"
| "touched touch k (e # es) v = Option.bind (touch e k v) (touched touch k es)"

lemma touched_append:
  "touched touch k (es @ es') v = Option.bind (touched touch k es v) (touched touch k es')"
  by (induction es arbitrary: v) (simp_all add: Option.bind_eq_Some_conv split: Option.bind_split)

locale evolving_monitor = probe_system step ok inv
  for step :: "'e \<Rightarrow> 's \<Rightarrow> 's" and ok :: "'e \<Rightarrow> 's \<Rightarrow> bool" and inv :: "'s \<Rightarrow> bool" +
  fixes tab :: "'s \<Rightarrow> 'k \<Rightarrow> 'v option" and rb :: "'s \<Rightarrow> 'x list"
    and start_of :: "'e \<Rightarrow> 's \<Rightarrow> ('k \<times> 'v) option"
    and touch :: "'e \<Rightarrow> 'k \<Rightarrow> 'v \<Rightarrow> 'v option"
    and report :: "'e \<Rightarrow> 'k \<Rightarrow> 'v \<Rightarrow> 'x option"
  assumes step_evolve: "inv s \<Longrightarrow> ok e s \<Longrightarrow> tab (step e s) k = Some v' \<Longrightarrow>
      start_of e s = Some (k, v') \<or> (\<exists>v. tab s k = Some v \<and> touch e k v = Some v')"
    and step_report: "inv s \<Longrightarrow> ok e s \<Longrightarrow> x \<in> set (rb (step e s)) \<Longrightarrow>
      x \<in> set (rb s) \<or> (\<exists>k v. tab s k = Some v \<and> report e k v = Some x)"
begin

lemma found_evolved:
  assumes "admissible ok step tr s" and "inv s" and "tab s k = None"
    and "tab (fold step tr s) k = Some v"
  shows "\<exists>pre e mid v0. tr = pre @ e # mid \<and> start_of e (fold step pre s) = Some (k, v0) \<and>
    touched touch k mid v0 = Some v"
  using assms(1,4)
proof (induction tr arbitrary: v rule: rev_induct)
  case Nil
  then show ?case using assms(3) by simp
next
  case (snoc e tr)
  let ?s = "fold step tr s"
  have i: "inv ?s" and o: "ok e ?s" and a: "admissible ok step tr s"
    using snoc.prems(1) assms(2) by (simp_all add: admissible_append run_inv)
  from step_evolve [OF i o, of k v] snoc.prems(2)
  consider "start_of e ?s = Some (k, v)" | w where "tab ?s k = Some w" "touch e k w = Some v" by auto
  then show ?case
  proof cases
    case 1
    then show ?thesis by (intro exI [of _ tr] exI [of _ e] exI [of _ "[]"] exI [of _ v]) simp
  next
    case 2
    then obtain pre e1 mid v0 where "tr = pre @ e1 # mid" "start_of e1 (fold step pre s) = Some (k, v0)"
      "touched touch k mid v0 = Some w"
      using snoc.IH [OF a] by blast
    then show ?thesis using 2(2)
      by (intro exI [of _ pre] exI [of _ e1] exI [of _ "mid @ [e]"] exI [of _ v0]) (simp add: touched_append)
  qed
qed

lemma reported_evolved:
  assumes "admissible ok step tr s" and "inv s" and "\<And>k. tab s k = None" and "rb s = []"
    and "x \<in> set (rb (fold step tr s))"
  shows "\<exists>pre e1 mid e2 post k v0 v. tr = pre @ e1 # mid @ e2 # post \<and>
    start_of e1 (fold step pre s) = Some (k, v0) \<and> touched touch k mid v0 = Some v \<and> report e2 k v = Some x"
proof -
  obtain pre' e2 post where t: "tr = pre' @ e2 # post"
    and new: "x \<notin> set (rb (fold step pre' s))" "x \<in> set (rb (step e2 (fold step pre' s)))"
    and i: "inv (fold step pre' s)" "ok e2 (fold step pre' s)" "admissible ok step pre' s"
    using run_source [OF assms(1,2), of "\<lambda>s. x \<in> set (rb s)"] assms(4,5) by auto
  obtain k v where kv: "tab (fold step pre' s) k = Some v" "report e2 k v = Some x"
    using step_report [OF i(1,2) new(2)] new(1) by blast
  obtain pre e1 mid v0 where "pre' = pre @ e1 # mid" "start_of e1 (fold step pre s) = Some (k, v0)"
    "touched touch k mid v0 = Some v"
    using found_evolved [OF i(3) assms(2,3) kv(1)] by blast
  then show ?thesis using t kv(2)
    by (intro exI [of _ pre] exI [of _ e1] exI [of _ mid] exI [of _ e2] exI [of _ post] exI [of _ k]
        exI [of _ v0] exI [of _ v]) simp
qed

end

end
