(* ===== verification/CallSpec.thy ===== *)
theory CallSpec
  imports Monitor
begin

section \<open>What a module that times calls should report\<close>

text \<open>
  The specification of a module that times calls, without maps, capacities and CPUs: the calls in flight are a
  partial function, and the events are a list. A firing may end a call (\<open>ends\<close>, the key), which reports it if the filters let it
  pass (\<open>report\<close>), and may begin one (\<open>opens\<close>, key and entry). The locale \<open>call_monitor\<close> says that the probes do
  exactly this; then the ring buffer holds exactly the events of the specification, in the same order.
\<close>

definition call_step ::
    "('e \<Rightarrow> ('k \<times> 'v) option) \<Rightarrow> ('e \<Rightarrow> 'k option) \<Rightarrow> ('e \<Rightarrow> 'k \<Rightarrow> 'v \<Rightarrow> 'x option)
     \<Rightarrow> 'e \<Rightarrow> ('k \<rightharpoonup> 'v) \<times> 'x list \<Rightarrow> ('k \<rightharpoonup> 'v) \<times> 'x list" where
  "call_step opens ends report e c =
     (let left = (case ends e of None \<Rightarrow> fst c | Some k \<Rightarrow> (fst c)(k := None));
          new = (case ends e of None \<Rightarrow> []
                 | Some k \<Rightarrow> (case fst c k of None \<Rightarrow> []
                   | Some v \<Rightarrow> (case report e k v of None \<Rightarrow> [] | Some x \<Rightarrow> [x])))
      in (case opens e of None \<Rightarrow> left | Some (k, v) \<Rightarrow> left(k \<mapsto> v), snd c @ new))"

definition calls_of ::
    "('e \<Rightarrow> ('k \<times> 'v) option) \<Rightarrow> ('e \<Rightarrow> 'k option) \<Rightarrow> ('e \<Rightarrow> 'k \<Rightarrow> 'v \<Rightarrow> 'x option)
     \<Rightarrow> 'e list \<Rightarrow> ('k \<rightharpoonup> 'v) \<times> 'x list" where
  "calls_of opens ends report tr = fold (call_step opens ends report) tr (Map.empty, [])"

text \<open>
  When the update of a map keeps all it has: there is room in a HASH map, and nothing is evicted from
  an LRU map.
\<close>

definition hash_fits :: "nat \<Rightarrow> ('k, 'v) bmap \<Rightarrow> ('k \<times> 'v) option \<Rightarrow> bool" where
  "hash_fits mx m new \<longleftrightarrow> (case new of None \<Rightarrow> True | Some (k, v) \<Rightarrow> map_of m k \<noteq> None \<or> length m < mx)"

definition lru_fits :: "nat \<Rightarrow> 'k list \<Rightarrow> ('k, 'v) bmap \<Rightarrow> ('k \<times> 'v) option \<Rightarrow> bool" where
  "lru_fits mx ev m new \<longleftrightarrow> 0 < mx \<and> hash_fits mx m new
     \<and> (case new of None \<Rightarrow> True | Some (k, v) \<Rightarrow> list_all (\<lambda>k'. k' = k \<or> map_of m k' = None) ev)"

section \<open>Lemmas\<close>

lemma hash_fits_None [simp]: "hash_fits mx m None"
  by (simp add: hash_fits_def)

lemma hash_fits_update:
  "hash_fits mx m (Some (k, v)) \<Longrightarrow> map_of (map_or_same (hash_update mx True k v m) m) = (map_of m)(k \<mapsto> v)"
  by (simp add: hash_fits_def hash_update_def update_conv')

lemma lru_fits_update:
  assumes "lru_fits mx ev m (Some (k, v))"
  shows "map_of (map_or_same (lru_update mx (True, ev) k v m) m) = (map_of m)(k \<mapsto> v)"
proof -
  have "lru_evict ev k m = m"
    using assms unfolding lru_evict_def
    by (intro filter_True ballI) (auto simp: lru_fits_def list_all_iff map_of_eq_None_iff)
  then show ?thesis
    using assms by (simp add: lru_fits_def hash_fits_def lru_update_def lru_room_def update_conv' split: if_splits) auto
qed

lemma call_step_events: "\<exists>new. snd (call_step opens ends report e c) = snd c @ new"
  by (simp add: call_step_def Let_def)

lemma calls_events: "\<exists>new. snd (fold (call_step opens ends report) tr c) = snd c @ new"
proof (induction tr arbitrary: c)
  case (Cons e tr)
  show ?case
    using Cons.IH [of "call_step opens ends report e c"] call_step_events [of opens ends report e c] by auto
qed simp

text \<open>A call stays in flight as long as no firing ends it or begins another under its key.\<close>

lemma call_kept:
  "fst c k = Some v \<Longrightarrow> \<forall>e \<in> set mid. ends e \<noteq> Some k \<and> (\<forall>v'. opens e \<noteq> Some (k, v')) \<Longrightarrow>
     fst (fold (call_step opens ends report) mid c) k = Some v"
proof (induction mid arbitrary: c)
  case (Cons e mid)
  have "fst (call_step opens ends report e c) k = Some v"
    using Cons.prems by (auto simp: call_step_def Let_def split: option.split)
  then show ?case using Cons by simp
qed simp

lemma call_events_complete:
  assumes "opens e1 = Some (k, v)" and "ends e2 = Some k" and "report e2 k v = Some x"
    and "\<forall>e \<in> set mid. ends e \<noteq> Some k \<and> (\<forall>v'. opens e \<noteq> Some (k, v'))"
  shows "x \<in> set (snd (calls_of opens ends report (pre @ e1 # mid @ e2 # post)))"
proof -
  let ?step = "call_step opens ends report"
  let ?c = "fold ?step mid (?step e1 (fold ?step pre (Map.empty, [])))"
  have "fst ?c k = Some v"
    by (rule call_kept [OF _ assms(4)]) (simp add: call_step_def Let_def assms(1))
  then have "x \<in> set (snd (?step e2 ?c))" using assms(2,3) by (simp add: call_step_def Let_def)
  moreover obtain new where "snd (fold ?step post (?step e2 ?c)) = snd (?step e2 ?c) @ new"
    using calls_events by blast
  ultimately show ?thesis by (simp add: calls_of_def)
qed

locale call_monitor = probe_system step ok inv
  for step :: "'e \<Rightarrow> 's \<Rightarrow> 's" and ok :: "'e \<Rightarrow> 's \<Rightarrow> bool" and inv :: "'s \<Rightarrow> bool" +
  fixes tab :: "'s \<Rightarrow> ('k, 'v) bmap" and rb :: "'s \<Rightarrow> 'x list"
    and opens :: "'e \<Rightarrow> ('k \<times> 'v) option" and ends :: "'e \<Rightarrow> 'k option"
    and report :: "'e \<Rightarrow> 'k \<Rightarrow> 'v \<Rightarrow> 'x option"
  assumes step_calls: "inv s \<Longrightarrow> ok e s \<Longrightarrow>
      (map_of (tab (step e s)), rb (step e s)) = call_step opens ends report e (map_of (tab s), rb s)"
begin

lemma run_calls:
  assumes "admissible ok step tr s" and "inv s"
  shows "(map_of (tab (fold step tr s)), rb (fold step tr s)) =
    fold (call_step opens ends report) tr (map_of (tab s), rb s)"
  using assms by (induction tr arbitrary: s) (simp_all add: step_calls step_inv)

text \<open>From empty maps, the ring buffer is the specification's list, and the map is its calls in flight.\<close>

lemma run_exact:
  assumes "admissible ok step tr s" and "inv s" and "tab s = []" and "rb s = []"
  shows "(map_of (tab (fold step tr s)), rb (fold step tr s)) = calls_of opens ends report tr"
  using run_calls [OF assms(1,2)] assms(3,4) by (simp add: calls_of_def)

lemma pair_reported:
  assumes "admissible ok step (pre @ e1 # mid @ e2 # post) s" and "inv s" and "tab s = []" and "rb s = []"
    and "opens e1 = Some (k, v)" and "ends e2 = Some k" and "report e2 k v = Some x"
    and "\<forall>e \<in> set mid. ends e \<noteq> Some k \<and> (\<forall>v'. opens e \<noteq> Some (k, v'))"
  shows "x \<in> set (rb (fold step (pre @ e1 # mid @ e2 # post) s))"
  using arg_cong [OF run_exact [OF assms(1-4)], of snd]
    call_events_complete [where opens = opens and ends = ends and report = report, OF assms(5-8)] by simp

end

end
