(* ===== verification/PidNs.thy ===== *)
theory PidNs
  imports Prelude
begin

section \<open>PID namespaces\<close>

text \<open>
  \<^verbatim>\<open>common/pid_namespace.bpf.h\<close>: the ids of the current thread and of any task as the
  target PID namespace sees them. Kernel memory is an argument: a record of the fields the
  functions and the probes read, each a function of the address it is read at; \<open>k_current\<close> is the
  task the probe runs in, \<open>k_mutex_owner\<close> the owner word of a mutex.
\<close>

record upid =
  upid_nr :: s32
  upid_ns :: u64

record kmem =
  k_thread_pid :: "u64 \<Rightarrow> u64"
  k_group_leader :: "u64 \<Rightarrow> u64"
  k_level :: "u64 \<Rightarrow> u32"
  k_numbers :: "u64 \<Rightarrow> nat \<Rightarrow> upid"
  k_inum :: "u64 \<Rightarrow> u32"
  k_current :: u64
  k_prio :: "u64 \<Rightarrow> s32"
  k_comm :: "u64 \<Rightarrow> cstr option"
  k_mutex_owner :: "u64 \<Rightarrow> u64"
  k_state :: "u64 \<Rightarrow> u32"

definition APP_PIDNS_LEVEL_COUNT :: nat where
  "APP_PIDNS_LEVEL_COUNT = 33"

definition app_current_pid_tgid_ns :: "bpf_env \<Rightarrow> u64 \<Rightarrow> u64 \<Rightarrow> u64" where
  "app_current_pid_tgid_ns env dev ino =
     (if ino = 0 then env_pid_tgid env
      else case env_ns_pid env dev ino of
        None \<Rightarrow> 0
      | Some (tgid, pid) \<Rightarrow> push_bit 32 (ucast tgid) OR ucast pid)"

text \<open>
  The bounded loop over the levels from \<open>i\<close> on; \<open>n\<close> counts the iterations
  the bound \<^verbatim>\<open>APP_PIDNS_LEVEL_COUNT\<close> leaves.
\<close>

fun pid_nr_loop :: "kmem \<Rightarrow> u64 \<Rightarrow> u64 \<Rightarrow> u32 \<Rightarrow> nat \<Rightarrow> nat \<Rightarrow> s32" where
  "pid_nr_loop km pid ino level i 0 = 0"
| "pid_nr_loop km pid ino level i (Suc n) =
     (if unat level < i then 0
      else let u = k_numbers km pid i in
        if upid_ns u = 0 then pid_nr_loop km pid ino level (Suc i) n
        else if ucast (k_inum km (upid_ns u)) = ino then upid_nr u
        else pid_nr_loop km pid ino level (Suc i) n)"

definition app_pid_nr_in_ns :: "kmem \<Rightarrow> u64 \<Rightarrow> u64 \<Rightarrow> s32" where
  "app_pid_nr_in_ns km pid ino =
     (if pid = 0 \<or> ino = 0 then 0
      else let level = k_level km pid in
        if APP_PIDNS_LEVEL_COUNT \<le> unat level then 0
        else pid_nr_loop km pid ino level 0 APP_PIDNS_LEVEL_COUNT)"

definition app_task_tid_ns :: "kmem \<Rightarrow> u64 \<Rightarrow> u64 \<Rightarrow> s32" where
  "app_task_tid_ns km task ino =
     (if task = 0 then 0 else app_pid_nr_in_ns km (k_thread_pid km task) ino)"

definition app_task_tgid_ns :: "kmem \<Rightarrow> u64 \<Rightarrow> u64 \<Rightarrow> s32" where
  "app_task_tgid_ns km task ino =
     (if task = 0 then 0
      else let leader = k_group_leader km task in
        if leader = 0 then 0
        else app_pid_nr_in_ns km (k_thread_pid km leader) ino)"

text \<open>Three tasks at addresses 16, 24 and 32, visible as 1, 2 and 3 in a namespace of inode 4.\<close>

definition demo_kmem :: kmem where
  "demo_kmem =
     \<lparr>k_thread_pid = \<lambda>t. t, k_group_leader = \<lambda>t. t, k_level = \<lambda>_. 0,
      k_numbers = \<lambda>p _. \<lparr>upid_nr = ucast (drop_bit 3 p) - 1, upid_ns = 48\<rparr>, k_inum = \<lambda>_. 4,
      k_current = 16, k_prio = \<lambda>_. 120, k_comm = \<lambda>_. Some ''task'',
      k_mutex_owner = \<lambda>_. 25, k_state = \<lambda>_. 1\<rparr>"

section \<open>Lemmas\<close>

text \<open>What the search looks for: a level whose namespace has the inode \<open>ino\<close>.\<close>

definition level_matches :: "kmem \<Rightarrow> u64 \<Rightarrow> u64 \<Rightarrow> nat \<Rightarrow> bool" where
  "level_matches km pid ino i \<longleftrightarrow>
     upid_ns (k_numbers km pid i) \<noteq> 0 \<and>
     ucast (k_inum km (upid_ns (k_numbers km pid i))) = ino"

lemma app_current_pid_tgid_ns_parts:
  assumes "ino \<noteq> 0" and "env_ns_pid env dev ino = Some (tgid, pid)"
  shows "hi32 (app_current_pid_tgid_ns env dev ino) = tgid \<and>
    lo32 (app_current_pid_tgid_ns env dev ino) = pid"
  using assms hi32_pack [of tgid pid] lo32_pack [of tgid pid]
  by (simp add: app_current_pid_tgid_ns_def pack32_def)

lemma app_current_pid_tgid_ns_calm [simp]:
  "app_current_pid_tgid_ns (calm_env c t g p) dev ino = pack32 g p"
  by (simp add: app_current_pid_tgid_ns_def pack32_def)

text \<open>The search as the library's \<open>find\<close> over the levels.\<close>

lemma pid_nr_loop_find:
  "pid_nr_loop km pid ino level i n =
     (case find (level_matches km pid ino) [i..<min (i + n) (Suc (unat level))] of
        None \<Rightarrow> 0 | Some j \<Rightarrow> upid_nr (k_numbers km pid j))"
proof (induction n arbitrary: i)
  case (Suc n)
  show ?case
  proof (cases "unat level < i")
    case False
    then have "[i..<min (i + Suc n) (Suc (unat level))] =
        i # [Suc i..<min (Suc i + n) (Suc (unat level))]"
      by (subst upt_conv_Cons) auto
    then show ?thesis using False Suc.IH [of "Suc i"]
      by (simp add: level_matches_def Let_def)
  qed simp
qed simp

lemma app_pid_nr_in_ns_find:
  assumes "pid \<noteq> 0" and "ino \<noteq> 0" and "unat (k_level km pid) < APP_PIDNS_LEVEL_COUNT"
  shows "app_pid_nr_in_ns km pid ino =
    (case find (level_matches km pid ino) [0..<Suc (unat (k_level km pid))] of
       None \<Rightarrow> 0 | Some j \<Rightarrow> upid_nr (k_numbers km pid j))"
proof -
  have "min (0 + APP_PIDNS_LEVEL_COUNT) (Suc (unat (k_level km pid))) = Suc (unat (k_level km pid))"
    using assms(3) by simp
  then show ?thesis using assms
    by (simp only: app_pid_nr_in_ns_def Let_def pid_nr_loop_find) simp
qed

lemma demo_kmem_nr:
  "app_pid_nr_in_ns demo_kmem 24 4 = 2" "app_pid_nr_in_ns demo_kmem 32 4 = 3"
  by (simp_all add: app_pid_nr_in_ns_find APP_PIDNS_LEVEL_COUNT_def demo_kmem_def level_matches_def)

lemma demo_kmem_ids [simp]:
  "app_task_tid_ns demo_kmem 24 4 = 2" "app_task_tgid_ns demo_kmem 24 4 = 2"
  "app_task_tid_ns demo_kmem 32 4 = 3" "app_task_tgid_ns demo_kmem 32 4 = 3"
  using demo_kmem_nr by (simp_all add: app_task_tid_ns_def app_task_tgid_ns_def demo_kmem_def)

lemma demo_kmem_simps [simp]:
  "k_current demo_kmem = 16"
  "k_prio demo_kmem t = 120"
  "k_comm demo_kmem t = Some ''task''"
  "k_mutex_owner demo_kmem l = 25"
  "k_state demo_kmem t = 1"
  by (simp_all add: demo_kmem_def)

section \<open>Properties\<close>

text \<open>
  The id of a \<open>struct pid\<close> in the target namespace is the number at the outermost level
  (numbered from the initial namespace) whose namespace exists and has that inode. It is 0 for a
  null \<open>struct pid\<close>, for inode 0, for a level beyond the kernel's 32, and when no level up to the
  task's own matches; no level above the task's own is ever considered, and the loop bound of 33
  cuts no search short.
\<close>

lemma app_pid_nr_in_ns_search:
  "app_pid_nr_in_ns km pid ino =
    (if pid = 0 \<or> ino = 0 \<or> 33 \<le> unat (k_level km pid) then 0
     else case find (level_matches km pid ino) [0..<Suc (unat (k_level km pid))] of
       None \<Rightarrow> 0 | Some j \<Rightarrow> upid_nr (k_numbers km pid j))"
  using app_pid_nr_in_ns_find [of pid ino km]
  by (auto simp: app_pid_nr_in_ns_def APP_PIDNS_LEVEL_COUNT_def Let_def)

text \<open>
  when the kernel knows the current thread in the target namespace, the packed result
  gives back the process id in its high half and the thread id in its low half, and it is 0
  (\<open>skip this firing\<close>) exactly when both ids are 0.
\<close>

lemma app_current_pid_tgid_ns_visible:
  assumes "ino \<noteq> 0" and "env_ns_pid env dev ino = Some (tgid, pid)"
  shows "hi32 (app_current_pid_tgid_ns env dev ino) = tgid \<and>
    lo32 (app_current_pid_tgid_ns env dev ino) = pid \<and>
    (app_current_pid_tgid_ns env dev ino = 0 \<longleftrightarrow> tgid = 0 \<and> pid = 0)"
  using app_current_pid_tgid_ns_parts [OF assms] assms pack32_zero [of tgid pid]
  by (simp add: app_current_pid_tgid_ns_def pack32_def)

end
