(* ===== verification/Logger.thy ===== *)
theory Logger
  imports Printf
begin

section \<open>The logger\<close>

text \<open>
  \<^verbatim>\<open>common/logger.h\<close>: the time stamp, the macros that write a line, the coloured durations, and the lock around a
  block of output. A module thread writes by calls on \<^verbatim>\<open>stdout\<close>; its program is the list of these calls.
  The standard library keeps one recursive lock per \<^verbatim>\<open>FILE\<close>: \<^verbatim>\<open>flockfile\<close> takes it, and every other call
  needs it for as long as it runs. So threads interleave between calls, and the holder of the lock goes on alone.
\<close>

datatype out_call = Lock | Unlock | Write string | Flush | Err string

subsection \<open>What the functions of the logger write\<close>

definition C_GREEN :: string where "C_GREEN = CHR 0x1B # ''[32m''"

definition C_YELLOW :: string where "C_YELLOW = CHR 0x1B # ''[33m''"

definition C_RED :: string where "C_RED = CHR 0x1B # ''[31m''"

definition C_CYAN :: string where "C_CYAN = CHR 0x1B # ''[36m''"

definition C_BOLD :: string where "C_BOLD = CHR 0x1B # ''[1m''"

definition C_RESET :: string where "C_RESET = CHR 0x1B # ''[0m''"

definition log_output_lock :: "out_call list" where
  "log_output_lock = [Lock]"

definition log_output_unlock :: "out_call list" where
  "log_output_unlock = [Unlock]"

text \<open>The local time of a call: what \<^verbatim>\<open>clock_gettime\<close> and \<^verbatim>\<open>localtime_r\<close> give.\<close>

record wall =
  tm_hour :: int
  tm_min :: int
  tm_sec :: int
  tv_nsec :: int

definition log_ts :: "wall \<Rightarrow> nat \<Rightarrow> string" where
  "log_ts now len = snprintf len
     (zjust 2 (fmt_int (tm_hour now)) @ '':'' @ zjust 2 (fmt_int (tm_min now)) @ '':'' @ zjust 2 (fmt_int (tm_sec now))
      @ ''.'' @ zjust 3 (fmt_int (tv_nsec now div 1000000)))"

definition LOG :: "wall \<Rightarrow> string \<Rightarrow> out_call list" where
  "LOG now msg = [Write (C_BOLD @ ''['' @ log_ts now 16 @ '']'' @ C_RESET @ '' '' @ msg), Flush]"

definition LOG_HDR :: "string \<Rightarrow> out_call list" where
  "LOG_HDR msg = [Write (ljust 16 [] @ '' '' @ msg @ [CHR 0x0A])]"

definition LOG_SEP :: "out_call list" where
  "LOG_SEP = [Write (replicate 64 CHR ''-'' @ [CHR 0x0A])]"

definition log_col :: "string \<Rightarrow> u64 \<Rightarrow> u64 \<Rightarrow> u64 \<Rightarrow> out_call list" where
  "log_col unit v warn crit =
     [Write ((if v \<ge> crit then C_RED else if v \<ge> warn then C_YELLOW else C_GREEN)
        @ rjust 8 (fmt_u v) @ '' '' @ unit @ C_RESET)]"

definition log_col_ns :: "u64 \<Rightarrow> u64 \<Rightarrow> u64 \<Rightarrow> out_call list" where
  "log_col_ns = log_col ''ns''"

definition log_col_us :: "u64 \<Rightarrow> u64 \<Rightarrow> u64 \<Rightarrow> out_call list" where
  "log_col_us = log_col ''us''"

text \<open>
  The banner, in UTF-8: a rule of 41 double lines (\<open>E2 95 90\<close>), the name with whether the module is on
  (\<open>E5 90 AF E5 8A A8\<close>) or off (\<open>E5 85 B3 E9 97 AD\<close>), and how to stop it (\<open>E9 80 80 E5 87 BA\<close>).
\<close>

definition utf8 :: "nat list \<Rightarrow> string" where
  "utf8 bs = map char_of bs"

definition RULE :: string where
  "RULE = C_CYAN @ C_BOLD @ concat (replicate 41 (utf8 [0xE2, 0x95, 0x90])) @ [CHR 0x0A] @ C_RESET"

definition log_banner :: "string \<Rightarrow> bool \<Rightarrow> out_call list" where
  "log_banner nm en =
     [Write RULE,
      Write (C_CYAN @ ''  '' @ nm @ '' '' @ utf8 [0xE2, 0x80, 0x94] @ '' '' @ utf8 [0xE5, 0xB7, 0xB2]
        @ (if en then utf8 [0xE5, 0x90, 0xAF, 0xE5, 0x8A, 0xA8] else utf8 [0xE5, 0x85, 0xB3, 0xE9, 0x97, 0xAD])
        @ [CHR 0x0A] @ C_RESET),
      Write (C_CYAN @ ''  Ctrl+C '' @ utf8 [0xE9, 0x80, 0x80, 0xE5, 0x87, 0xBA] @ [CHR 0x0A] @ C_RESET),
      Write RULE]"

text \<open>
  The other calls of the modules: \<^verbatim>\<open>printf\<close>, \<^verbatim>\<open>fprintf(stderr, ...)\<close>, the time of day as
  \<^verbatim>\<open>strftime\<close> with \<open>%H:%M:%S\<close> gives it, the end of a line, and the arrow (\<open>E2 86 92\<close>) in the lines of the network modules.
\<close>

definition printf :: "string \<Rightarrow> out_call list" where
  "printf t = [Write t]"

definition eprintf :: "string \<Rightarrow> out_call list" where
  "eprintf t = [Err t]"

definition strftime_hms :: "wall \<Rightarrow> string" where
  "strftime_hms now =
     zjust 2 (fmt_int (tm_hour now)) @ '':'' @ zjust 2 (fmt_int (tm_min now)) @ '':'' @ zjust 2 (fmt_int (tm_sec now))"

definition endl :: string where
  "endl = [CHR 0x0A]"

definition ARROW :: string where
  "ARROW = utf8 [0xE2, 0x86, 0x92]"

subsection \<open>Threads that write\<close>

text \<open>
  The state: what every thread has still to do, who holds the lock of \<^verbatim>\<open>stdout\<close> and how often, and what has been
  written.
\<close>

record out_state =
  todo :: "out_call list list"
  holder :: "(nat \<times> nat) option"
  written :: string

definition may_use :: "nat \<Rightarrow> out_state \<Rightarrow> bool" where
  "may_use i s = (case holder s of None \<Rightarrow> True | Some (j, d) \<Rightarrow> j = i)"

definition do_call :: "nat \<Rightarrow> out_call \<Rightarrow> out_state \<Rightarrow> out_state" where
  "do_call i c s =
     (case c of
        Write t \<Rightarrow> s\<lparr>written := written s @ t\<rparr>
      | Flush \<Rightarrow> s
      | Err t \<Rightarrow> s
      | Lock \<Rightarrow> s\<lparr>holder := Some (i, case holder s of None \<Rightarrow> 1 | Some (j, d) \<Rightarrow> Suc d)\<rparr>
      | Unlock \<Rightarrow> s\<lparr>holder := (case holder s of None \<Rightarrow> None
                   | Some (j, d) \<Rightarrow> if d \<le> 1 then None else Some (j, d - 1))\<rparr>)"

text \<open>A call on \<^verbatim>\<open>stdout\<close> waits for the lock; one on \<^verbatim>\<open>stderr\<close> does not.\<close>

inductive out_step :: "out_state \<Rightarrow> out_state \<Rightarrow> bool" where
  call: "\<lbrakk>i < length (todo s); todo s ! i = c # cs; may_use i s \<or> (\<exists>t. c = Err t)\<rbrakk> \<Longrightarrow>
    out_step s ((do_call i c s)\<lparr>todo := (todo s)[i := cs]\<rparr>)"

inductive out_reaches :: "out_state \<Rightarrow> out_state \<Rightarrow> bool" where
  refl: "out_reaches s s"
| step: "out_reaches s t \<Longrightarrow> out_step t u \<Longrightarrow> out_reaches s u"

definition out_start :: "out_call list list \<Rightarrow> out_state" where
  "out_start ps = \<lparr>todo = ps, holder = None, written = []\<rparr>"

definition out_done :: "out_state \<Rightarrow> bool" where
  "out_done s \<longleftrightarrow> list_all (\<lambda>p. p = []) (todo s)"

inductive_cases out_stepE: "out_step s t"

subsection \<open>The specification: whole pieces of output\<close>

text \<open>
  \<open>lock_depth\<close> follows the lock through a program, \<open>None\<close> when it gives back a lock it does not have. \<open>atoms d cur p\<close>
  is what the program writes, as the pieces no other thread can break: a call outside the lock, or all calls
  between taking and giving back the lock. \<open>d\<close> is how often the lock is held and \<open>cur\<close> what was written since.
\<close>

fun lock_depth :: "nat \<Rightarrow> out_call list \<Rightarrow> nat option" where
  "lock_depth d [] = Some d"
| "lock_depth d (Lock # p) = lock_depth (Suc d) p"
| "lock_depth d (Unlock # p) = (if d = 0 then None else lock_depth (d - 1) p)"
| "lock_depth d (_ # p) = lock_depth d p"

definition balanced :: "out_call list \<Rightarrow> bool" where
  "balanced p \<longleftrightarrow> lock_depth 0 p = Some 0"

fun atoms :: "nat \<Rightarrow> string \<Rightarrow> out_call list \<Rightarrow> string list" where
  "atoms d cur [] = (if d = 0 then [] else [cur])"
| "atoms d cur (Write t # p) = (if d = 0 then t # atoms 0 [] p else atoms d (cur @ t) p)"
| "atoms d cur (Lock # p) = atoms (Suc d) cur p"
| "atoms d cur (Unlock # p) = (if d = 0 then atoms 0 [] p else if d = 1 then cur # atoms 0 [] p else atoms (d - 1) cur p)"
| "atoms d cur (Flush # p) = atoms d cur p"
| "atoms d cur (Err t # p) = atoms d cur p"

abbreviation pieces :: "out_call list \<Rightarrow> string list" where
  "pieces p \<equiv> atoms 0 [] p"

text \<open>
  \<open>merged xss ms\<close>: the tagged list \<open>ms\<close> is an interleaving of the lists \<open>xss\<close>, in which list number \<open>i\<close> gave
  the elements with the tag \<open>i\<close>, in its order.
\<close>

definition merged :: "'a list list \<Rightarrow> (nat \<times> 'a) list \<Rightarrow> bool" where
  "merged xss ms \<longleftrightarrow> (\<forall>m \<in> set ms. fst m < length xss)
     \<and> (\<forall>i < length xss. map snd (filter (\<lambda>m. fst m = i) ms) = xss ! i)"

section \<open>Lemmas\<close>

lemma lock_depth_append:
  "lock_depth d (p @ q) = (case lock_depth d p of None \<Rightarrow> None | Some d' \<Rightarrow> lock_depth d' q)"
  by (induction d p rule: lock_depth.induct) auto

lemma atoms_append:
  assumes "lock_depth d p = Some 0" and "d = 0 \<Longrightarrow> cur = []"
  shows "atoms d cur (p @ q) = atoms d cur p @ pieces q"
  using assms by (induction d cur p rule: atoms.induct) (auto split: if_splits)

lemma balanced_append: "balanced p \<Longrightarrow> balanced q \<Longrightarrow> balanced (p @ q)"
  by (simp add: balanced_def lock_depth_append)

lemma pieces_append: "balanced p \<Longrightarrow> pieces (p @ q) = pieces p @ pieces q"
  by (simp add: balanced_def atoms_append)

lemma balanced_concat: "list_all balanced ps \<Longrightarrow> balanced (concat ps)"
  by (induction ps) (simp_all add: balanced_append, simp add: balanced_def)

lemma pieces_concat: "list_all balanced ps \<Longrightarrow> pieces (concat ps) = concat (map pieces ps)"
  by (induction ps) (simp_all add: pieces_append)

text \<open>How often thread \<open>i\<close> holds the lock.\<close>

definition held :: "nat \<Rightarrow> out_state \<Rightarrow> nat" where
  "held i s = (case holder s of None \<Rightarrow> 0 | Some (j, d) \<Rightarrow> if j = i then d else 0)"

text \<open>
  The simulation: what is written is the interleaving of whole pieces and the beginning of the piece of the thread that
  holds the lock; the rest of every program has the rest of its pieces.
\<close>

definition holder_ok :: "out_state \<Rightarrow> bool" where
  "holder_ok s \<longleftrightarrow> (case holder s of None \<Rightarrow> True | Some (j, d) \<Rightarrow> 0 < d \<and> j < length (todo s))"

definition sim :: "out_call list list \<Rightarrow> (nat \<times> string) list \<Rightarrow> string \<Rightarrow> out_state \<Rightarrow> bool" where
  "sim ps ms part s \<longleftrightarrow> length (todo s) = length ps \<and> (\<forall>m \<in> set ms. fst m < length ps)
     \<and> written s = concat (map snd ms) @ part \<and> (holder s = None \<longrightarrow> part = [])
     \<and> (\<forall>i < length ps. pieces (ps ! i) = map snd (filter (\<lambda>m. fst m = i) ms)
          @ atoms (held i s) (if held i s = 0 then [] else part) (todo s ! i))"

lemma sim_start: "sim ps [] [] (out_start ps)"
  by (simp add: sim_def out_start_def held_def)

lemma holder_ok_step: "holder_ok s \<Longrightarrow> out_step s t \<Longrightarrow> holder_ok t"
  by (erule out_stepE) (auto simp: holder_ok_def do_call_def may_use_def split: out_call.split option.splits)

lemma sim_step:
  assumes "sim ps ms part s" and "holder_ok s" and "out_step s t"
  shows "\<exists>ms' part'. sim ps ms' part' t"
  using assms(3)
proof (cases rule: out_step.cases)
  case step: (call i c cs)
  have i: "i < length ps" using step assms(1) by (simp add: sim_def)
  have pi: "pieces (ps ! i) = map snd (filter (\<lambda>m. fst m = i) ms)
      @ atoms (held i s) (if held i s = 0 then [] else part) (c # cs)"
    using assms(1) step i by (simp add: sim_def)
  note defs = sim_def do_call_def held_def may_use_def holder_ok_def nth_list_update
  show ?thesis
  proof (cases c)
    case (Write w)
    show ?thesis
    proof (cases "holder s")
      case None
      then have "sim ps (ms @ [(i, w)]) [] t" using assms(1) step i pi Write by (auto simp: defs)
      then show ?thesis by blast
    next
      case (Some jd)
      then have "sim ps ms (part @ w) t" using assms(1,2) step i pi Write by (cases jd) (auto simp: defs)
      then show ?thesis by blast
    qed
  next
    case Unlock
    show ?thesis
    proof (cases "held i s = 1")
      case True
      then have "sim ps (ms @ [(i, part)]) [] t"
        using assms(1,2) step i pi Unlock by (auto simp: defs split: option.splits if_splits)
      then show ?thesis by blast
    next
      case False
      then have "sim ps ms part t"
        using assms(1,2) step i pi Unlock by (auto simp: defs split: option.splits if_splits)
      then show ?thesis by blast
    qed
  next
    case Lock
    then have "sim ps ms part t" using assms(1,2) step i pi by (auto simp: defs split: option.splits if_splits)
    then show ?thesis by blast
  next
    case Flush
    then have "sim ps ms part t" using assms(1,2) step i pi by (auto simp: defs split: option.splits if_splits)
    then show ?thesis by blast
  next
    case (Err e)
    then have "sim ps ms part t" using assms(1,2) step i pi by (auto simp: defs split: option.splits if_splits)
    then show ?thesis by blast
  qed
qed

text \<open>Balanced programs: what is left of each gives back what its thread holds.\<close>

definition paid :: "out_state \<Rightarrow> bool" where
  "paid s \<longleftrightarrow> (\<forall>i < length (todo s). lock_depth (held i s) (todo s ! i) = Some 0)"

lemma paid_step: "holder_ok s \<Longrightarrow> paid s \<Longrightarrow> out_step s t \<Longrightarrow> paid t"
proof (erule out_step.cases)
  fix i s' c cs
  assume ok: "holder_ok s" "paid s" and st: "s = s'" "t = (do_call i c s')\<lparr>todo := (todo s')[i := cs]\<rparr>"
    and i: "i < length (todo s')" "todo s' ! i = c # cs" "may_use i s' \<or> (\<exists>e. c = Err e)"
  have "lock_depth (held i s) (c # cs) = Some 0" using ok(2) i st(1) by (auto simp: paid_def)
  then show "paid t"
    using ok i unfolding st(2) st(1)
    by (cases c)
       (auto simp: paid_def do_call_def held_def may_use_def holder_ok_def nth_list_update split: option.splits if_splits)
qed

lemma reaches_facts:
  assumes "out_reaches s0 s" and "s0 = out_start ps" and "list_all balanced ps"
  shows "holder_ok s \<and> paid s \<and> (\<exists>ms part. sim ps ms part s)"
  using assms
proof (induction rule: out_reaches.induct)
  case (refl s)
  then have "holder_ok s" "paid s" "sim ps [] [] s"
    by (simp_all add: holder_ok_def paid_def held_def out_start_def list_all_length balanced_def sim_start [unfolded out_start_def])
  then show ?case by blast
next
  case (step s t u)
  then show ?case using holder_ok_step paid_step sim_step by blast
qed

text \<open>A thread that can go on: the holder of the lock, or any thread when there is none.\<close>

lemma out_progress:
  assumes "holder_ok s" and "paid s" and "\<not> out_done s"
  shows "\<exists>t. out_step s t"
proof -
  have "\<exists>i < length (todo s). todo s ! i \<noteq> [] \<and> may_use i s"
  proof (cases "holder s")
    case None
    then show ?thesis using assms(3) by (auto simp: out_done_def list_all_length may_use_def)
  next
    case (Some jd)
    obtain j d where jd: "jd = (j, d)" by (cases jd)
    have j: "j < length (todo s)" "0 < d" using assms(1) Some by (auto simp: holder_ok_def jd)
    then have "lock_depth d (todo s ! j) = Some 0" using assms(2) Some by (auto simp: paid_def held_def jd)
    then have "todo s ! j \<noteq> []" using j(2) by auto
    then show ?thesis using j Some by (auto simp: may_use_def jd)
  qed
  then obtain i c cs where "i < length (todo s)" "todo s ! i = c # cs" "may_use i s" by (auto simp: neq_Nil_conv)
  then show ?thesis using out_step.call by blast
qed

definition calls_left :: "out_state \<Rightarrow> nat" where
  "calls_left s = sum_list (map length (todo s))"

lemma sum_list_shorter:
  fixes xs :: "nat list"
  shows "i < length xs \<Longrightarrow> y < xs ! i \<Longrightarrow> sum_list (xs[i := y]) < sum_list xs"
  by (induction xs arbitrary: i) (auto simp: nth_Cons' less_Suc_eq_0_disj split: if_splits nat.splits)

lemma out_step_shorter: "out_step s t \<Longrightarrow> calls_left t < calls_left s"
  by (erule out_step.cases) (simp add: calls_left_def map_update sum_list_shorter)

lemma out_reaches_trans: "out_reaches t u \<Longrightarrow> out_reaches s t \<Longrightarrow> out_reaches s u"
  by (induction rule: out_reaches.induct) (auto intro: out_reaches.intros)

lemma out_finishes:
  assumes "holder_ok s" and "paid s"
  shows "\<exists>t. out_reaches s t \<and> out_done t"
  using assms
proof (induction "calls_left s" arbitrary: s rule: less_induct)
  case less
  show ?case
  proof (cases "out_done s")
    case False
    then obtain t where t: "out_step s t" using out_progress less.prems by blast
    then obtain u where "out_reaches t u" "out_done u"
      using less.hyps [OF out_step_shorter] holder_ok_step paid_step less.prems by blast
    then show ?thesis using out_reaches_trans [OF _ out_reaches.step [OF out_reaches.refl t]] by blast
  qed (blast intro: out_reaches.refl)
qed

lemma balanced_finishes: "list_all balanced ps \<Longrightarrow> \<exists>s. out_reaches (out_start ps) s \<and> out_done s"
  using reaches_facts [OF out_reaches.refl HOL.refl] out_finishes by blast

lemma done_merged:
  assumes "list_all balanced ps" and "out_reaches (out_start ps) s" and "out_done s"
  shows "\<exists>ms. merged (map pieces ps) ms \<and> written s = concat (map snd ms)"
proof -
  obtain ms part where f: "holder_ok s" "paid s" "sim ps ms part s"
    using reaches_facts [OF assms(2) HOL.refl assms(1)] by blast
  have empty: "\<And>i. i < length (todo s) \<Longrightarrow> todo s ! i = []" using assms(3) by (simp add: out_done_def list_all_length)
  then have h: "\<And>i. i < length (todo s) \<Longrightarrow> held i s = 0" using f(2) by (simp add: paid_def)
  have "holder s = None"
  proof (cases "holder s")
    case (Some jd)
    then show ?thesis using f(1) h [of "fst jd"] by (cases jd) (auto simp: holder_ok_def held_def)
  qed simp
  then show ?thesis using f(3) empty h by (intro exI [of _ ms]) (auto simp: sim_def merged_def)
qed

text \<open>So balanced threads are never stuck: they can finish from wherever they are, and every call brings the end nearer.\<close>

lemma writers_finish:
  assumes "list_all balanced ps" and "out_reaches (out_start ps) s"
  shows "(\<exists>t. out_reaches s t \<and> out_done t)
    \<and> (out_done s \<or> (\<exists>t. out_step s t)) \<and> (\<forall>t. out_step s t \<longrightarrow> calls_left t < calls_left s)"
proof -
  have "holder_ok s" "paid s" using reaches_facts [OF assms(2) HOL.refl assms(1)] by blast+
  then show ?thesis using out_finishes out_progress out_step_shorter by blast
qed

text \<open>A thread that does not lock goes on as far as it likes while nobody holds the lock.\<close>

lemma unlocked_runs:
  assumes "i < length (todo s)" and "todo s ! i = p @ q" and "holder s = None" and "Lock \<notin> set p"
  shows "out_reaches s (s\<lparr>todo := (todo s)[i := q], written := written s @ concat (pieces p)\<rparr>)"
  using assms
proof (induction p arbitrary: s)
  case Nil
  have "s\<lparr>todo := (todo s)[i := q], written := written s @ []\<rparr> = s" using Nil by (simp add: list_update_same_conv)
  then show ?case using out_reaches.refl [of s] by simp
next
  case (Cons c p)
  let ?t = "(do_call i c s)\<lparr>todo := (todo s)[i := p @ q]\<rparr>"
  have step: "out_step s ?t" using Cons.prems by (intro out_step.call) (simp_all add: may_use_def)
  have "out_reaches ?t (?t\<lparr>todo := (todo ?t)[i := q], written := written ?t @ concat (pieces p)\<rparr>)"
    using Cons.prems by (intro Cons.IH) (auto simp: do_call_def split: out_call.split)
  then have "out_reaches s (?t\<lparr>todo := (todo ?t)[i := q], written := written ?t @ concat (pieces p)\<rparr>)"
    using out_reaches_trans out_reaches.step [OF out_reaches.refl step] by blast
  moreover have "?t\<lparr>todo := (todo ?t)[i := q], written := written ?t @ concat (pieces p)\<rparr>
      = s\<lparr>todo := (todo s)[i := q], written := written s @ concat (pieces (c # p))\<rparr>"
    using Cons.prems by (cases c) (auto simp: do_call_def)
  ultimately show ?case by simp
qed

text \<open>So of two threads that do not lock, the second can write all it has in the middle of what the first writes.\<close>

lemma unlocked_interleave:
  assumes "Lock \<notin> set p" and "Lock \<notin> set p'" and "Lock \<notin> set q"
  shows "\<exists>s. out_reaches (out_start [p @ p', q]) s \<and> out_done s
    \<and> written s = concat (pieces p) @ concat (pieces q) @ concat (pieces p')"
proof -
  let ?at = "\<lambda>ps w. \<lparr>todo = ps, holder = None, written = w\<rparr>"
  have 1: "out_reaches (?at [p @ p', q] []) (?at [p', q] (concat (pieces p)))"
    using unlocked_runs [of 0 "?at [p @ p', q] []" p p'] assms(1) by simp
  have 2: "out_reaches (?at [p', q] w) (?at [p', []] (w @ concat (pieces q)))" for w
    using unlocked_runs [of 1 "?at [p', q] w" q "[]"] assms(3) by simp
  have 3: "out_reaches (?at [p', []] w) (?at [[], []] (w @ concat (pieces p')))" for w
    using unlocked_runs [of 0 "?at [p', []] w" p' "[]"] assms(2) by simp
  show ?thesis
    using out_reaches_trans [OF 3 out_reaches_trans [OF 2 1]]
    by (intro exI conjI) (auto simp: out_start_def out_done_def)
qed

text \<open>A time of day fits the buffer of 16 bytes the macros give \<open>log_ts\<close>.\<close>

lemma length_fmt_int: "0 \<le> i \<Longrightarrow> i < 10 ^ k \<Longrightarrow> 0 < k \<Longrightarrow> length (fmt_int i) \<le> k"
  unfolding fmt_int_def by (simp add: nat_less_iff length_decimal)

lemma log_ts_fits:
  assumes "0 \<le> tm_hour now" "tm_hour now < 24" "0 \<le> tm_min now" "tm_min now < 60" "0 \<le> tm_sec now" "tm_sec now \<le> 60"
    and "0 \<le> tv_nsec now" "tv_nsec now < 1000000000"
  shows "length (log_ts now 16) = 12"
proof -
  have "length (fmt_int (tm_hour now)) \<le> 2" "length (fmt_int (tm_min now)) \<le> 2" "length (fmt_int (tm_sec now)) \<le> 2"
    "length (fmt_int (tv_nsec now div 1000000)) \<le> 3"
    using assms by (simp_all add: length_fmt_int)
  then show ?thesis by (simp add: log_ts_def)
qed

subsection \<open>Printers of events\<close>

text \<open>
  A module prints one line per event, or nothing. \<open>clean\<close> says that the strings taken from the
  system (the name of a process, a path) have no line break.
\<close>

definition is_line :: "string \<Rightarrow> bool" where
  "is_line t \<longleftrightarrow> (\<exists>u. printable u \<and> t = u @ [CHR 0x0A])"

named_theorems line_simps \<open>what the calls of a line write and where the lock is held\<close>

lemma calls_pieces [line_simps]:
  "balanced p \<longleftrightarrow> lock_depth 0 p = Some 0"
  "log_output_lock @ p = Lock # p" "log_output_unlock = [Unlock]"
  "LOG now t @ p = Write (C_BOLD @ ''['' @ log_ts now 16 @ '']'' @ C_RESET @ '' '' @ t) # Flush # p"
  "LOG now t = [Write (C_BOLD @ ''['' @ log_ts now 16 @ '']'' @ C_RESET @ '' '' @ t), Flush]"
  "printf t @ p = Write t # p" "printf t = [Write t]" "eprintf t @ p = Err t # p" "eprintf t = [Err t]"
  by (simp_all add: balanced_def log_output_lock_def log_output_unlock_def LOG_def printf_def eprintf_def)

lemma log_col_pieces [line_simps]:
  "log_col_ns v w c = printf ((if v \<ge> c then C_RED else if v \<ge> w then C_YELLOW else C_GREEN)
     @ rjust 8 (fmt_u v) @ '' '' @ ''ns'' @ C_RESET)"
  "log_col_us v w c = printf ((if v \<ge> c then C_RED else if v \<ge> w then C_YELLOW else C_GREEN)
     @ rjust 8 (fmt_u v) @ '' '' @ ''us'' @ C_RESET)"
  by (simp_all add: log_col_ns_def log_col_us_def log_col_def printf_def)

lemma printable_log [simp]:
  "printable C_GREEN" "printable C_YELLOW" "printable C_RED" "printable C_CYAN" "printable C_BOLD" "printable C_RESET"
  "printable ARROW" "printable (log_ts now n)" "printable (strftime_hms now)"
  by (simp_all add: C_GREEN_def C_YELLOW_def C_RED_def C_CYAN_def C_BOLD_def C_RESET_def ARROW_def utf8_def
      log_ts_def strftime_hms_def) (simp_all add: char_of_def)

lemma is_line_simps [line_simps]:
  "is_line endl" "printable a \<Longrightarrow> is_line (a @ t) \<longleftrightarrow> is_line t"
  "c \<noteq> CHR 0x0A \<Longrightarrow> is_line (c # t) \<longleftrightarrow> is_line t"
proof -
  show "is_line endl" by (auto simp: is_line_def endl_def)
  have *: "is_line t \<Longrightarrow> printable a \<Longrightarrow> is_line (a @ t)" for a t by (auto simp: is_line_def)
  have **: "is_line (a @ t) \<Longrightarrow> printable a \<Longrightarrow> is_line t" for a t
  proof -
    assume l: "is_line (a @ t)" and a: "printable a"
    then obtain u where u: "printable u" "a @ t = u @ [CHR 0x0A]" by (auto simp: is_line_def)
    have "t \<noteq> []" using u a by (auto simp: printable_def)
    then obtain t' where "t = t' @ [CHR 0x0A]" using u(2) by (cases t rule: rev_cases) auto
    then show "is_line t" using u by (auto simp: is_line_def)
  qed
  show "printable a \<Longrightarrow> is_line (a @ t) \<longleftrightarrow> is_line t" using * ** by blast
  show "c \<noteq> CHR 0x0A \<Longrightarrow> is_line (c # t) \<longleftrightarrow> is_line t" using * [of t "[c]"] ** [of "[c]" t] by auto
qed

locale line_printer =
  fixes print :: "'e \<Rightarrow> out_call list" and clean :: "'e \<Rightarrow> bool"
  assumes print_balanced: "balanced (print e)"
    and print_line: "clean e \<Longrightarrow> concat (pieces (print e)) = [] \<or> is_line (concat (pieces (print e)))"
begin

lemma stream_balanced: "balanced (concat (map print es))"
  by (rule balanced_concat) (simp add: list_all_iff print_balanced)

lemma stream_pieces: "pieces (concat (map print es)) = concat (map (\<lambda>e. pieces (print e)) es)"
  by (subst pieces_concat) (simp_all add: list_all_iff print_balanced o_def)

text \<open>Alone, the module writes lines only.\<close>

lemma stream_lines:
  "list_all clean es \<Longrightarrow> \<exists>ls. list_all is_line ls \<and> concat (pieces (concat (map print es))) = concat ls"
proof (induction es)
  case (Cons e es)
  then obtain ls where ls: "list_all is_line ls" "concat (pieces (concat (map print es))) = concat ls" by auto
  have "concat (pieces (concat (map print (e # es)))) = concat (pieces (print e)) @ concat ls"
    using ls(2) by (simp add: pieces_append print_balanced)
  then show ?case using ls(1) print_line [of e] Cons.prems
    by (cases "concat (pieces (print e)) = []") (auto intro: exI [of _ ls] exI [of _ "concat (pieces (print e)) # ls"])
qed (auto intro: exI [of _ "[]"])

end

text \<open>A module that holds the lock for the whole line.\<close>

locale whole_printer = line_printer +
  assumes print_whole: "length (pieces (print e)) \<le> 1"
begin

lemma stream_whole:
  assumes "list_all clean es" and "x \<in> set (pieces (concat (map print es)))"
  shows "x = [] \<or> is_line x"
proof -
  obtain e where e: "e \<in> set es" "x \<in> set (pieces (print e))" using assms(2) by (auto simp: stream_pieces)
  then have "pieces (print e) = [x]" using print_whole [of e] by (cases "pieces (print e)") auto
  then show ?thesis using print_line [of e] e(1) assms(1) by (auto simp: list_all_iff)
qed

end

end
