(* ===== verification/FsOpen.thy ===== *)
theory FsOpen
  imports CallSpec PidNs RunLoop Logger
begin

section \<open>fs/open: latency of openat\<close>

text \<open>
  \<^verbatim>\<open>fs/open\<close>: \<open>openat_entry\<close> stores the arguments and the start time under the thread id,
  \<open>openat_exit\<close> takes them back, counts, filters and reports. The user side
  merges the per-CPU statistics (\<open>open_merge\<close>, \<open>open_print_stats\<close>).
\<close>

definition FS_OPEN_PATH_SIZE :: nat where
  "FS_OPEN_PATH_SIZE = 256"

record Open_ctrl =
  enable :: bool
  min_delay_ns :: u64
  target_pid :: s32
  pid_ns_dev :: u64
  pid_ns_ino :: u64

record Open_event =
  ev_pid :: s32
  ev_tid :: s32
  ev_dirfd :: s32
  ev_fd :: s32
  ev_ret :: s64
  ev_flags :: u64
  ev_timestamp_ns :: u64
  ev_latency_ns :: u64
  ev_path_name :: cstr
  ev_comm :: cstr

record Open_stats =
  attempted :: u64
  completed :: u64
  submitted :: u64
  failed :: u64
  filtered_pid :: u64
  filtered_delay :: u64
  ringbuf_dropped :: u64
  map_update_failed :: u64
  lookup_missed :: u64
  path_read_failed :: u64
  path_truncated :: u64
  total_ns :: u64
  max_ns :: u64
  max_pid :: s32
  max_comm :: cstr

record entry_data =
  en_enter_ts :: u64
  en_flags :: u64
  en_pid :: s32
  en_tid :: s32
  en_dirfd :: s32
  en_path_name :: cstr

text \<open>The maps of the module; \<open>tid_map\<close> is a HASH of 10240 entries.\<close>

record Open_state =
  ctrl_map :: "Open_ctrl option"
  stats_map :: "Open_stats list"
  tid_map :: "(u32, entry_data) bmap"
  rb :: "Open_event list"

definition TID_MAP_MAX :: nat where
  "TID_MAP_MAX = 10240"

text \<open>\<open>ctx->args\<close> of the enter tracepoint.\<close>

record openat_args =
  arg_dirfd :: u64
  arg_path :: u64
  arg_flags :: u64

definition open_count :: "bpf_env \<Rightarrow> (Open_stats \<Rightarrow> Open_stats) \<Rightarrow> Open_state \<Rightarrow> Open_state" where
  "open_count env f s = s\<lparr>stats_map := percpu_upd (env_cpu env) f (stats_map s)\<rparr>"

text \<open>The \<open>entry_data\<close> the enter handler fills in for a thread.\<close>

definition open_entry_of :: "bpf_env \<Rightarrow> openat_args \<Rightarrow> u64 \<Rightarrow> entry_data" where
  "open_entry_of env args pid_tgid = (let
     (path_len, path) = probe_read_str FS_OPEN_PATH_SIZE (env_user_str env (arg_path args))
     in \<lparr>en_enter_ts = env_ktime env, en_flags = arg_flags args, en_pid = hi32 pid_tgid,
         en_tid = lo32 pid_tgid, en_dirfd = ucast (arg_dirfd args),
         en_path_name = (if path_len < 0 then ''<read-error>'' else path)\<rparr>)"

definition openat_entry :: "bpf_env \<Rightarrow> openat_args \<Rightarrow> Open_state \<Rightarrow> Open_state" where
  "openat_entry env args s =
     (case ctrl_map s of None \<Rightarrow> s
      | Some ctrl \<Rightarrow>
        if \<not> enable ctrl then s
        else let pid_tgid = app_current_pid_tgid_ns env (pid_ns_dev ctrl) (pid_ns_ino ctrl) in
        if pid_tgid = 0 then s
        else let tid = lo32 pid_tgid; pid = hi32 pid_tgid in
        if target_pid ctrl \<noteq> 0 \<and> pid \<noteq> target_pid ctrl
        then open_count env (\<lambda>c. c\<lparr>filtered_pid := filtered_pid c + 1\<rparr>) s
        else let
          s1 = open_count env (\<lambda>c. c\<lparr>attempted := attempted c + 1\<rparr>) s;
          path_len = fst (probe_read_str FS_OPEN_PATH_SIZE (env_user_str env (arg_path args)));
          s2 = (if path_len < 0
                then open_count env (\<lambda>c. c\<lparr>path_read_failed := path_read_failed c + 1\<rparr>) s1
                else if path_len = int FS_OPEN_PATH_SIZE
                then open_count env (\<lambda>c. c\<lparr>path_truncated := path_truncated c + 1\<rparr>) s1
                else s1);
          entry = open_entry_of env args pid_tgid
        in (case hash_update TID_MAP_MAX (env_update_ok env) tid entry (tid_map s2) of
              None \<Rightarrow> open_count env (\<lambda>c. c\<lparr>map_update_failed := map_update_failed c + 1\<rparr>) s2
            | Some m \<Rightarrow> s2\<lparr>tid_map := m\<rparr>))"

text \<open>The statistics block of the exit handler, and the event it assembles.\<close>

definition open_exit_stats :: "bpf_env \<Rightarrow> entry_data \<Rightarrow> u64 \<Rightarrow> s64 \<Rightarrow> Open_stats \<Rightarrow> Open_stats" where
  "open_exit_stats env entry latency_ns ret c0 = (let
     c1 = c0\<lparr>completed := completed c0 + 1\<rparr>;
     c2 = (if sint ret < 0 then c1\<lparr>failed := failed c1 + 1\<rparr> else c1);
     c3 = c2\<lparr>total_ns := total_ns c2 + latency_ns\<rparr>
     in if latency_ns > max_ns c3
        then c3\<lparr>max_ns := latency_ns, max_pid := en_pid entry, max_comm := env_comm env\<rparr>
        else c3)"

definition open_event_of :: "bpf_env \<Rightarrow> entry_data \<Rightarrow> s64 \<Rightarrow> Open_event" where
  "open_event_of env entry ret =
     \<lparr>ev_pid = en_pid entry, ev_tid = en_tid entry, ev_dirfd = en_dirfd entry,
      ev_fd = (if 0 \<le> sint ret then ucast ret else - 1), ev_ret = ret,
      ev_flags = en_flags entry, ev_timestamp_ns = env_ktime env,
      ev_latency_ns = env_ktime env - en_enter_ts entry,
      ev_path_name = en_path_name entry, ev_comm = env_comm env\<rparr>"

definition open_drop_tid :: "u32 \<Rightarrow> Open_state \<Rightarrow> Open_state" where
  "open_drop_tid tid s = s\<lparr>tid_map := bpf_delete tid (tid_map s)\<rparr>"

definition openat_exit :: "bpf_env \<Rightarrow> s64 \<Rightarrow> Open_state \<Rightarrow> Open_state" where
  "openat_exit env ret s =
     (case ctrl_map s of None \<Rightarrow> s
      | Some ctrl \<Rightarrow>
        let pid_tgid = app_current_pid_tgid_ns env (pid_ns_dev ctrl) (pid_ns_ino ctrl) in
        if pid_tgid = 0 then s
        else let tid = lo32 pid_tgid in
        (case map_of (tid_map s) tid of
           None \<Rightarrow>
            if enable ctrl \<and> (target_pid ctrl = 0 \<or> target_pid ctrl = hi32 pid_tgid)
            then open_count env (\<lambda>c. c\<lparr>lookup_missed := lookup_missed c + 1\<rparr>) s else s
        | Some entry \<Rightarrow>
            if \<not> enable ctrl then open_drop_tid tid s
            else let
              latency_ns = env_ktime env - en_enter_ts entry;
              s1 = open_count env (open_exit_stats env entry latency_ns ret) s
            in if target_pid ctrl \<noteq> 0 \<and> en_pid entry \<noteq> target_pid ctrl
            then open_drop_tid tid (open_count env (\<lambda>c. c\<lparr>filtered_pid := filtered_pid c + 1\<rparr>) s1)
            else if min_delay_ns ctrl \<noteq> 0 \<and> latency_ns < min_delay_ns ctrl
            then open_drop_tid tid (open_count env (\<lambda>c. c\<lparr>filtered_delay := filtered_delay c + 1\<rparr>) s1)
            else if \<not> env_reserve_ok env
            then open_drop_tid tid (open_count env (\<lambda>c. c\<lparr>ringbuf_dropped := ringbuf_dropped c + 1\<rparr>) s1)
            else let
              s2 = open_count env (\<lambda>c. c\<lparr>submitted := submitted c + 1\<rparr>) s1
            in open_drop_tid tid (s2\<lparr>rb := rb s2 @ [open_event_of env entry ret]\<rparr>)))"

text \<open>A firing of one of the two probes.\<close>

datatype open_firing = Enter bpf_env openat_args | Exit bpf_env s64

fun open_step :: "open_firing \<Rightarrow> Open_state \<Rightarrow> Open_state" where
  "open_step (Enter env args) s = openat_entry env args s"
| "open_step (Exit env ret) s = openat_exit env ret s"

fun open_env :: "open_firing \<Rightarrow> bpf_env" where
  "open_env (Enter env args) = env"
| "open_env (Exit env ret) = env"

subsection \<open>The summary at exit\<close>

definition open_zero :: Open_stats where
  "open_zero = \<lparr>attempted = 0, completed = 0, submitted = 0, failed = 0, filtered_pid = 0,
     filtered_delay = 0, ringbuf_dropped = 0, map_update_failed = 0, lookup_missed = 0,
     path_read_failed = 0, path_truncated = 0, total_ns = 0, max_ns = 0, max_pid = 0,
     max_comm = ''''\<rparr>"

definition open_merge :: "Open_stats \<Rightarrow> Open_stats \<Rightarrow> Open_stats" where
  "open_merge s v = (let
     s1 = s\<lparr>attempted := attempted s + attempted v,
            completed := completed s + completed v,
            submitted := submitted s + submitted v,
            failed := failed s + failed v,
            filtered_pid := filtered_pid s + filtered_pid v,
            filtered_delay := filtered_delay s + filtered_delay v,
            ringbuf_dropped := ringbuf_dropped s + ringbuf_dropped v,
            map_update_failed := map_update_failed s + map_update_failed v,
            lookup_missed := lookup_missed s + lookup_missed v,
            path_read_failed := path_read_failed s + path_read_failed v,
            path_truncated := path_truncated s + path_truncated v,
            total_ns := total_ns s + total_ns v\<rparr>
     in if max_ns v > max_ns s1
        then s1\<lparr>max_ns := max_ns v, max_pid := max_pid v, max_comm := max_comm v\<rparr>
        else s1)"

text \<open>
  What the panel shows: the merged statistics, and the average when some call completed.
  \<open>ncpus\<close>, the allocation and the map lookup (the copies of all CPUs) are what the library calls
  return. \<open>None\<close>: nothing is printed.
\<close>

record Open_panel =
  panel_stats :: Open_stats
  panel_avg :: "u64 option"

definition open_print_stats ::
  "int \<Rightarrow> bool \<Rightarrow> Open_stats list option \<Rightarrow> Open_panel option" where
  "open_print_stats ncpus alloc_ok values =
     (if ncpus \<le> 0 \<or> \<not> alloc_ok then None
      else case values of None \<Rightarrow> None
      | Some vs \<Rightarrow>
        let s = foldl open_merge open_zero (take (nat ncpus) vs) in
        if attempted s = 0 \<and> filtered_pid s = 0 then None
        else Some \<lparr>panel_stats = s,
          panel_avg = (if completed s \<noteq> 0 then Some (total_ns s div completed s) else None)\<rparr>)"

subsection \<open>The run function\<close>

text \<open>
  The configuration \<open>open_run\<close> builds from its arguments, and \<open>open_run\<close> itself over the calls it makes.
\<close>

definition open_ctrl_of :: "bool \<Rightarrow> s32 \<Rightarrow> u64 \<Rightarrow> u64 \<Rightarrow> u64 \<Rightarrow> Open_ctrl" where
  "open_ctrl_of en pid delay dev ino =
     \<lparr>enable = en, min_delay_ns = delay, target_pid = pid, pid_ns_dev = dev, pid_ns_ino = ino\<rparr>"

definition open_run ::
    "s32 \<Rightarrow> bool \<Rightarrow> s32 \<Rightarrow> u64 \<Rightarrow> run_env \<Rightarrow> (int \<times> Open_ctrl action list) option" where
  "open_run timeout en pid delay e =
     run_module (\<lambda>_. 1) (\<lambda>err. err < 0) neg_or_zero (open_ctrl_of en pid delay) timeout e"

subsection \<open>The line of an event\<close>

text \<open>\<open>handle_event\<close>; \<^verbatim>\<open>strerror\<close> is an argument, its texts depend on the locale.\<close>

definition open_handle_event :: "(int \<Rightarrow> string) \<Rightarrow> wall \<Rightarrow> Open_event \<Rightarrow> out_call list" where
  "open_handle_event strerror now e =
     log_output_lock
     @ LOG now (''PID='' @ ljust 6 (fmt_d (ev_pid e)) @ '' TID='' @ ljust 6 (fmt_d (ev_tid e))
         @ '' DIRFD='' @ ljust 4 (fmt_d (ev_dirfd e)) @ '' '' @ ljust 16 (ev_comm e) @ '' '' @ ev_path_name e @ '' | '')
     @ (if sint (ev_ret e) < 0
        then printf (''ERR='' @ strerror (sint (ucast (- ev_ret e) :: s32)) @ '' ('' @ fmt_d (ev_ret e) @ '') | '')
        else printf (''FD='' @ fmt_d (ev_fd e) @ '' | ''))
     @ log_col_ns (ev_latency_ns e) 10000 100000
     @ printf endl
     @ log_output_unlock"

section \<open>Lemmas\<close>

interpretation open_runner: quiet_runner "\<lambda>err. err < 0" neg_or_zero "\<lambda>_. 1"
  by unfold_locales (simp_all add: neg_or_zero_simps)

text \<open>The ids of the thread a firing is for, and what a firing opens, closes and reports.\<close>

definition open_ids :: "Open_ctrl \<Rightarrow> bpf_env \<Rightarrow> u64" where
  "open_ids c env = app_current_pid_tgid_ns env (pid_ns_dev c) (pid_ns_ino c)"

definition open_traced :: "Open_ctrl \<Rightarrow> s32 \<Rightarrow> bool" where
  "open_traced c pid \<longleftrightarrow> target_pid c = 0 \<or> pid = target_pid c"

fun open_starts :: "Open_ctrl \<Rightarrow> open_firing \<Rightarrow> (u32 \<times> entry_data) option" where
  "open_starts c (Enter env args) =
     (if enable c \<and> open_ids c env \<noteq> 0 \<and> open_traced c (hi32 (open_ids c env)) \<and> env_update_ok env
      then Some (lo32 (open_ids c env), open_entry_of env args (open_ids c env)) else None)"
| "open_starts c (Exit env ret) = None"

fun open_closes :: "Open_ctrl \<Rightarrow> open_firing \<Rightarrow> u32 \<Rightarrow> bool" where
  "open_closes c (Enter env args) k = False"
| "open_closes c (Exit env ret) k = (open_ids c env \<noteq> 0 \<and> k = lo32 (open_ids c env))"

fun open_reports :: "Open_ctrl \<Rightarrow> open_firing \<Rightarrow> u32 \<Rightarrow> entry_data \<Rightarrow> Open_event option" where
  "open_reports c (Enter env args) k v = None"
| "open_reports c (Exit env ret) k v =
     (if enable c \<and> open_ids c env \<noteq> 0 \<and> k = lo32 (open_ids c env) \<and> open_traced c (en_pid v) \<and>
         (min_delay_ns c = 0 \<or> min_delay_ns c \<le> env_ktime env - en_enter_ts v) \<and> env_reserve_ok env
      then Some (open_event_of env v ret) else None)"

definition open_inv :: "Open_ctrl \<Rightarrow> Open_state \<Rightarrow> bool" where
  "open_inv c s \<longleftrightarrow> ctrl_map s = Some c \<and> map_wf TID_MAP_MAX (tid_map s) \<and>
     (enable c \<or> tid_map s = []) \<and>
     map_all (\<lambda>k v. open_traced c (en_pid v) \<and> en_tid v = k) (tid_map s)"

definition open_init :: "Open_ctrl \<Rightarrow> nat \<Rightarrow> Open_state" where
  "open_init c ncpus =
     \<lparr>ctrl_map = Some c, stats_map = replicate ncpus open_zero, tid_map = [], rb = []\<rparr>"

lemma open_count_simps [simp]:
  "ctrl_map (open_count env f s) = ctrl_map s"
  "tid_map (open_count env f s) = tid_map s"
  "rb (open_count env f s) = rb s"
  "stats_map (open_count env f s) = percpu_upd (env_cpu env) f (stats_map s)"
  by (simp_all add: open_count_def)

lemma open_drop_tid_simps [simp]:
  "ctrl_map (open_drop_tid k s) = ctrl_map s"
  "tid_map (open_drop_tid k s) = bpf_delete k (tid_map s)"
  "rb (open_drop_tid k s) = rb s"
  "stats_map (open_drop_tid k s) = stats_map s"
  by (simp_all add: open_drop_tid_def)

lemma open_entry_of_simps [simp]:
  "en_pid (open_entry_of env args p) = hi32 p"
  "en_tid (open_entry_of env args p) = lo32 p"
  "en_enter_ts (open_entry_of env args p) = env_ktime env"
  by (simp_all add: open_entry_of_def Let_def split: prod.split)

lemma open_exit_stats_simps [simp]:
  "completed (open_exit_stats env v l r c) = completed c + 1"
  "attempted (open_exit_stats env v l r c) = attempted c"
  "submitted (open_exit_stats env v l r c) = submitted c"
  "filtered_delay (open_exit_stats env v l r c) = filtered_delay c"
  "ringbuf_dropped (open_exit_stats env v l r c) = ringbuf_dropped c"
  "map_update_failed (open_exit_stats env v l r c) = map_update_failed c"
  "total_ns (open_exit_stats env v l r c) = total_ns c + l"
  "max_ns (open_exit_stats env v l r c) = max (max_ns c) l"
  by (auto simp: open_exit_stats_def Let_def max_def)

lemmas open_handler_defs = openat_entry_def openat_exit_def Let_def open_ids_def [symmetric]

text \<open>What one firing does to the map, the ring buffer and the control block.\<close>

lemma openat_entry_ctrl [simp]: "ctrl_map (openat_entry env args s) = ctrl_map s"
  by (auto simp: open_handler_defs split: option.split)

lemma openat_exit_ctrl [simp]: "ctrl_map (openat_exit env ret s) = ctrl_map s"
  by (auto simp: open_handler_defs split: option.split)

lemma openat_entry_tab:
  assumes "ctrl_map s = Some c"
  shows "tid_map (openat_entry env args s) =
    (case open_starts c (Enter env args) of None \<Rightarrow> tid_map s
     | Some (k, v) \<Rightarrow> map_or_same (hash_update TID_MAP_MAX True k v (tid_map s)) (tid_map s))"
  by (cases "env_update_ok env")
    (auto simp: assms open_handler_defs open_traced_def split: option.split)

lemma openat_exit_tab:
  assumes "ctrl_map s = Some c"
  shows "tid_map (openat_exit env ret s) =
    (if open_ids c env = 0 then tid_map s else bpf_delete (lo32 (open_ids c env)) (tid_map s))"
  by (cases "map_of (tid_map s) (lo32 (open_ids c env))")
    (simp_all add: assms open_handler_defs)

lemma openat_entry_rb: "rb (openat_entry env args s) = rb s"
  by (simp add: open_handler_defs split: option.split)

lemma openat_exit_rb:
  assumes "ctrl_map s = Some c"
  shows "rb (openat_exit env ret s) = rb s @
    reported (open_reports c (Exit env ret) (lo32 (open_ids c env))) (tid_map s) (lo32 (open_ids c env))"
  by (cases "map_of (tid_map s) (lo32 (open_ids c env))")
    (auto simp: assms open_handler_defs open_traced_def)

lemma open_step_inv: "open_inv c s \<Longrightarrow> open_inv c (open_step e s)"
  by (cases e)
    (auto simp: open_inv_def openat_entry_tab openat_exit_tab hash.map_or_same_wf hash.upd_all
      delete_map_wf map_all_delete split: option.split)

definition open_bal :: "Open_stats \<Rightarrow> u64" where
  "open_bal c = completed c - submitted c - filtered_delay c - ringbuf_dropped c"

lemma openat_entry_bal: "map open_bal (stats_map (openat_entry env args s)) = map open_bal (stats_map s)"
  by (auto simp: open_handler_defs open_bal_def intro!: map_percpu_upd split: option.split)

lemma openat_exit_bal:
  assumes "open_inv c s"
  shows "map open_bal (stats_map (openat_exit env ret s)) = map open_bal (stats_map s)"
proof (cases "map_of (tid_map s) (lo32 (open_ids c env))")
  case None
  then show ?thesis using assms
    by (auto simp: open_inv_def open_handler_defs open_bal_def intro!: map_percpu_upd)
next
  case (Some v)
  then have "target_pid c = 0 \<or> en_pid v = target_pid c"
    using assms by (auto simp: open_inv_def open_traced_def dest: map_allD)
  then show ?thesis using assms Some
    by (auto simp: open_inv_def open_handler_defs open_bal_def intro!: map_percpu_upd)
qed

lemma open_step_bal:
  "open_inv c s \<Longrightarrow> map open_bal (stats_map (open_step e s)) = map open_bal (stats_map s)"
  by (cases e) (simp_all add: openat_entry_bal openat_exit_bal)

interpretation open_mon: balanced_monitor open_step "\<lambda>_ _. True" "open_inv c" stats_map open_bal for c
  by unfold_locales (auto simp: open_step_inv open_step_bal)

lemma open_step_tab:
  assumes "open_inv c s" and "map_of (tid_map (open_step e s)) k = Some v"
  shows "open_starts c e = Some (k, v) \<or>
    (map_of (tid_map s) k = Some v \<and> \<not> open_closes c e k \<and> (\<forall>v'. open_starts c e \<noteq> Some (k, v')))"
proof (cases e)
  case (Enter env args)
  then show ?thesis using assms hash.upd_opened [of TID_MAP_MAX "tid_map s" True _ _ k v]
    by (auto simp: open_inv_def openat_entry_tab hash_update_None split: if_splits)
next
  case (Exit env ret)
  then show ?thesis using assms by (auto simp: open_inv_def openat_exit_tab split: if_splits)
qed

lemma open_step_rb:
  assumes "open_inv c s" and "x \<in> set (rb (open_step e s))"
  shows "x \<in> set (rb s) \<or> (\<exists>k v. map_of (tid_map s) k = Some v \<and> open_reports c e k v = Some x)"
proof (cases e)
  case (Exit env ret)
  then show ?thesis using assms
    by (simp add: open_inv_def openat_exit_rb in_reported del: open_reports.simps) blast
qed (use assms in \<open>simp add: openat_entry_rb\<close>)

interpretation open_pair: paired_monitor open_step "\<lambda>_ _. True" "open_inv c" tid_map rb
  "open_starts c" "open_closes c" "open_reports c" for c
  by unfold_locales (use open_step_tab open_step_rb in blast)+

lemma open_inv_init: "open_inv c (open_init c n)"
  by (simp add: open_inv_def open_init_def)

text \<open>
  Calls in flight. A firing is regular when its CPU is one of the possible CPUs and an enter
  does not come from a thread that is already inside \<open>openat\<close>.
\<close>

fun open_regular :: "open_firing \<Rightarrow> Open_state \<Rightarrow> bool" where
  "open_regular (Enter env args) s = (env_cpu env < length (stats_map s) \<and>
     (case ctrl_map s of None \<Rightarrow> True
      | Some c \<Rightarrow> map_of (tid_map s) (lo32 (open_ids c env)) = None))"
| "open_regular (Exit env ret) s = (env_cpu env < length (stats_map s))"

definition open_flow :: "Open_stats \<Rightarrow> u64" where
  "open_flow c = attempted c - completed c - map_update_failed c"

definition open_quantity :: "Open_state \<Rightarrow> u64" where
  "open_quantity s = sum_list (map open_flow (stats_map s)) - of_nat (length (tid_map s))"

lemma openat_entry_quantity:
  assumes "open_inv c s" and "open_regular (Enter env args) s"
  shows "open_quantity (openat_entry env args s) = open_quantity s"
proof -
  let ?u = "hash_update TID_MAP_MAX (env_update_ok env) (lo32 (open_ids c env))
    (open_entry_of env args (open_ids c env)) (tid_map s)"
  have l: "length m' = Suc (length (tid_map s))" if "?u = Some m'" for m'
    using hash.upd_size [OF _ that] assms by (simp add: open_inv_def)
  show ?thesis using assms l
    by (cases ?u) (auto simp: open_inv_def open_handler_defs open_quantity_def open_flow_def
        sum_percpu_rules algebra_simps)
qed

lemma openat_exit_quantity:
  assumes "open_inv c s" and "open_regular (Exit env ret) s"
  shows "open_quantity (openat_exit env ret s) = open_quantity s"
proof (cases "map_of (tid_map s) (lo32 (open_ids c env))")
  case None
  then show ?thesis using assms
    by (auto simp: open_inv_def open_handler_defs open_quantity_def open_flow_def sum_percpu_rules)
next
  case (Some v)
  have l: "length (tid_map s) = Suc (length (bpf_delete (lo32 (open_ids c env)) (tid_map s)))"
    using length_delete_present [of "tid_map s" "lo32 (open_ids c env)"] assms Some
    by (simp add: open_inv_def map_wf_def)
  show ?thesis using assms Some
    by (auto simp: open_inv_def open_handler_defs open_quantity_def open_flow_def
        sum_percpu_rules algebra_simps l)
qed

lemma open_step_quantity:
  "open_inv c s \<Longrightarrow> open_regular e s \<Longrightarrow> open_quantity (open_step e s) = open_quantity s"
  by (cases e) (simp_all add: openat_entry_quantity openat_exit_quantity)

interpretation open_cons: conserved_monitor open_step open_regular "open_inv c" open_quantity for c
  by unfold_locales (simp_all add: open_step_inv open_step_quantity)

interpretation open_rep: percpu_report open_zero open_merge
  "{attempted, completed, submitted, failed, filtered_pid, filtered_delay, ringbuf_dropped,
    map_update_failed, lookup_missed, path_read_failed, path_truncated, total_ns}"
  max_ns "\<lambda>c. (max_pid c, max_comm c)"
  by unfold_locales (auto simp: open_zero_def open_merge_def Let_def max_def)

lemma open_init_bal: "\<forall>v \<in> set (stats_map (open_init c n)). open_bal v = 0"
  by (auto simp: open_init_def open_bal_def open_zero_def)

lemma open_run_bal:
  assumes "v \<in> set (stats_map (fold open_step tr (open_init c n)))"
  shows "completed v = submitted v + filtered_delay v + ringbuf_dropped v"
  using open_mon.run_bal_zero [OF admissible_True open_inv_init open_init_bal assms]
  by (simp add: open_bal_def algebra_simps)

lemma open_sum_bal:
  assumes "\<forall>v \<in> set vs. completed v = submitted v + filtered_delay v + ringbuf_dropped v"
  shows "sum_list (map completed vs) =
    sum_list (map submitted vs) + sum_list (map filtered_delay vs) + sum_list (map ringbuf_dropped vs)"
  using assms by (induction vs) (auto simp: algebra_simps)

interpretation open_lines: whole_printer "\<lambda>(now, e). open_handle_event strerror now e"
  "\<lambda>(now, e). printable (ev_comm e) \<and> printable (ev_path_name e)
     \<and> printable (strerror (sint (ucast (- ev_ret e) :: s32)))" for strerror
  by unfold_locales (auto simp: open_handle_event_def line_simps split: if_splits)

text \<open>The key of the call a firing ends; with room in the map the module reports exactly the calls of the specification.\<close>

fun open_ends :: "Open_ctrl \<Rightarrow> open_firing \<Rightarrow> u32 option" where
  "open_ends c (Enter env args) = None"
| "open_ends c (Exit env ret) = (if open_ids c env = 0 then None else Some (lo32 (open_ids c env)))"

lemma open_step_calls:
  assumes "open_inv c s" and "hash_fits TID_MAP_MAX (tid_map s) (open_starts c e)"
  shows "(map_of (tid_map (open_step e s)), rb (open_step e s)) =
    call_step (open_starts c) (open_ends c) (open_reports c) e (map_of (tid_map s), rb s)"
  using assms
  by (cases e) (auto simp: open_inv_def openat_entry_tab openat_entry_rb openat_exit_tab openat_exit_rb
      hash_fits_update call_step_def reported_def split: option.split)

interpretation open_calls: call_monitor open_step "\<lambda>e s. hash_fits TID_MAP_MAX (tid_map s) (open_starts c e)"
  "open_inv c" tid_map rb "open_starts c" "open_ends c" "open_reports c" for c
  by unfold_locales (simp_all add: open_step_inv open_step_calls)

text \<open>Every event passed the filters of the configuration.\<close>

lemma open_filtered:
  assumes "x \<in> set (rb (fold open_step tr (open_init c n)))"
  shows "enable c \<and> min_delay_ns c \<le> ev_latency_ns x \<and> (target_pid c = 0 \<or> ev_pid x = target_pid c)"
  using assms
  by (rule open_pair.reported_all [OF _ admissible_True open_inv_init])
     (auto simp: open_init_def open_event_of_def open_traced_def elim!: open_starts.elims open_reports.elims split: if_splits)

section \<open>Properties\<close>

text \<open>
  C1: every event user space receives is the report of one \<open>openat\<close> call. Its fields come from an
  enter and a later exit of the same thread with no exit and no recorded enter of that
  thread between them; its latency is the difference of the two clock readings, at
  least the configured threshold; its process is the target process when one is set.
\<close>

theorem open_reported_call:
  assumes "x \<in> set (rb (fold open_step tr (open_init c n)))"
  shows "\<exists>pre env1 args mid env2 ret post.
    tr = pre @ Enter env1 args # mid @ Exit env2 ret # post \<and>
    lo32 (open_ids c env1) = lo32 (open_ids c env2) \<and>
    x = open_event_of env2 (open_entry_of env1 args (open_ids c env1)) ret \<and>
    ev_latency_ns x = env_ktime env2 - env_ktime env1 \<and>
    min_delay_ns c \<le> ev_latency_ns x \<and>
    enable c \<and> (target_pid c = 0 \<or> ev_pid x = target_pid c) \<and>
    (\<forall>e \<in> set mid. \<not> open_closes c e (ev_tid x) \<and> (\<forall>v. open_starts c e \<noteq> Some (ev_tid x, v)))"
proof -
  obtain pre e1 mid e2 post k v where t: "tr = pre @ e1 # mid @ e2 # post"
    and s: "open_starts c e1 = Some (k, v)" and r: "open_reports c e2 k v = Some x"
    and m: "\<forall>e \<in> set mid. \<not> open_closes c e k \<and> (\<forall>v'. open_starts c e \<noteq> Some (k, v'))"
    using open_pair.reported_pair [OF admissible_True open_inv_init _ _ assms]
    by (auto simp: open_init_def)
  obtain env1 args where e1: "e1 = Enter env1 args" using s by (cases e1) auto
  obtain env2 ret where e2: "e2 = Exit env2 ret" using r by (cases e2) auto
  have v: "v = open_entry_of env1 args (open_ids c env1)" "k = lo32 (open_ids c env1)"
    using s e1 by (auto split: if_splits)
  have x: "x = open_event_of env2 v ret" "k = lo32 (open_ids c env2)" "enable c"
    "open_traced c (en_pid v)" "min_delay_ns c = 0 \<or> min_delay_ns c \<le> env_ktime env2 - en_enter_ts v"
    using r e2 by (auto split: if_splits)
  have f: "ev_tid x = k" "ev_latency_ns x = env_ktime env2 - env_ktime env1" "ev_pid x = en_pid v"
    using v x by (simp_all add: open_event_of_def)
  have p: "tr = pre @ Enter env1 args # mid @ Exit env2 ret # post" using t e1 e2 by simp
  have d: "min_delay_ns c \<le> ev_latency_ns x" using x(5) v(1) f(2) by auto
  have q: "target_pid c = 0 \<or> ev_pid x = target_pid c"
    using x(4) f(3) by (simp add: open_traced_def)
  show ?thesis
    by (intro exI conjI, rule p) (use v x f d q m in simp_all)
qed

definition open_demo_ctrl :: Open_ctrl where
  "open_demo_ctrl = \<lparr>enable = True, min_delay_ns = 3, target_pid = 7, pid_ns_dev = 1, pid_ns_ino = 4\<rparr>"

definition open_demo_run :: "open_firing list" where
  "open_demo_run =
     [Enter (calm_env 0 10 7 8) \<lparr>arg_dirfd = 3, arg_path = 64, arg_flags = 2\<rparr>,
      Enter (calm_env 1 11 9 9) \<lparr>arg_dirfd = 3, arg_path = 64, arg_flags = 2\<rparr>,
      Exit (calm_env 1 25 7 8) 5]"

lemmas open_demo_defs = open_demo_ctrl_def open_demo_run_def open_init_def open_handler_defs
  open_ids_def open_count_def open_drop_tid_def
  percpu_upd_def open_entry_of_def probe_read_str_def FS_OPEN_PATH_SIZE_def TID_MAP_MAX_def
  hash_update_def bpf_delete_def open_event_of_def open_exit_stats_def open_zero_def

lemma open_demo_rb: "rb (fold open_step open_demo_run (open_init open_demo_ctrl 2)) =
  [\<lparr>ev_pid = 7, ev_tid = 8, ev_dirfd = 3, ev_fd = 5, ev_ret = 5, ev_flags = 2, ev_timestamp_ns = 25,
    ev_latency_ns = 15, ev_path_name = ''/tmp/a'', ev_comm = ''demo''\<rparr>]"
  by (simp add: open_demo_defs)

lemma open_demo_fits:
  "admissible (\<lambda>e s. hash_fits TID_MAP_MAX (tid_map s) (open_starts open_demo_ctrl e)) open_step open_demo_run
     (open_init open_demo_ctrl 2)"
  by (simp add: open_demo_defs open_traced_def hash_fits_def)

theorem open_reported_call_witness:
  "\<exists>pre env1 args mid env2 ret post.
    open_demo_run = pre @ Enter env1 args # mid @ Exit env2 ret # post \<and>
    lo32 (open_ids open_demo_ctrl env1) = lo32 (open_ids open_demo_ctrl env2) \<and>
    15 = env_ktime env2 - env_ktime env1"
proof -
  let ?x = "hd (rb (fold open_step open_demo_run (open_init open_demo_ctrl 2)))"
  have "ev_latency_ns ?x = 15" by (simp add: open_demo_rb)
  moreover have "?x \<in> set (rb (fold open_step open_demo_run (open_init open_demo_ctrl 2)))"
    by (simp add: open_demo_rb)
  ultimately show ?thesis using open_reported_call [of ?x open_demo_run open_demo_ctrl 2] by metis
qed

text \<open>
  C7: no call is missed. While \<open>tid_map\<close> has room, every \<open>openat\<close> of a traced process whose entry can be allocated and whose exit
  fires in the same thread, with no exit and no recorded enter of that thread between, whose latency reaches the
  threshold and for which the ring buffer has space, is reported, whatever other threads do on other CPUs
  before, between and after.
\<close>

theorem open_call_reported:
  assumes "tr = pre @ Enter env1 args # mid @ Exit env2 ret # post"
    and "admissible (\<lambda>e s. hash_fits TID_MAP_MAX (tid_map s) (open_starts c e)) open_step tr (open_init c n)"
    and "enable c" and "open_traced c (hi32 (open_ids c env1))"
    and "open_ids c env1 \<noteq> 0" and "open_ids c env2 \<noteq> 0" and "lo32 (open_ids c env2) = lo32 (open_ids c env1)"
    and "min_delay_ns c \<le> env_ktime env2 - env_ktime env1"
    and "env_update_ok env1" and "env_reserve_ok env2"
    and "\<forall>e \<in> set mid. open_ends c e \<noteq> Some (lo32 (open_ids c env1))
           \<and> (\<forall>v. open_starts c e \<noteq> Some (lo32 (open_ids c env1), v))"
  shows "open_event_of env2 (open_entry_of env1 args (open_ids c env1)) ret
    \<in> set (rb (fold open_step tr (open_init c n)))"
  unfolding assms(1)
  by (rule open_calls.pair_reported [where v = "open_entry_of env1 args (open_ids c env1)",
        OF assms(2) [unfolded assms(1)] open_inv_init _ _ _ _ _ assms(11)])
     (use assms(3-10) in \<open>simp_all add: open_init_def\<close>)

theorem open_call_reported_witness:
  "rb (fold open_step open_demo_run (open_init open_demo_ctrl 2)) \<noteq> []"
proof -
  let ?e1 = "Enter (calm_env 0 10 7 8) \<lparr>arg_dirfd = 3, arg_path = 64, arg_flags = 2\<rparr>"
  let ?e = "Enter (calm_env 1 11 9 9) \<lparr>arg_dirfd = 3, arg_path = 64, arg_flags = 2\<rparr>"
  have "open_demo_run = [] @ ?e1 # [?e] @ Exit (calm_env 1 25 7 8) 5 # []"
    by (simp add: open_demo_run_def)
  from open_call_reported [OF this open_demo_fits]
  show ?thesis by (auto simp: open_demo_defs open_traced_def)
qed

text \<open>
  The books balance on every CPU after every sequence of firings: each completed call was
  submitted, filtered by the threshold, or dropped because the ring buffer was full. Counters
  wrap at 64 bits, and the equation is one of 64-bit words.
\<close>

lemma open_accounting:
  "list_all (\<lambda>v. completed v = submitted v + filtered_delay v + ringbuf_dropped v)
     (stats_map (fold open_step tr (open_init c n)))"
  by (simp add: list_all_iff open_run_bal)

text \<open>
  C6: no call is lost. On every run in which a thread enters \<open>openat\<close> again only after its previous
  call has left the map, the calls attempted are the calls completed, plus the calls whose
  context could not be stored, plus the calls still in flight, which are the entries of
  \<open>tid_map\<close>, never more than 10240.
\<close>

theorem open_conservation:
  assumes "admissible open_regular open_step tr (open_init c n)"
  defines "s \<equiv> fold open_step tr (open_init c n)"
  shows "sum_list (map attempted (stats_map s)) =
      sum_list (map completed (stats_map s)) + sum_list (map map_update_failed (stats_map s)) +
      of_nat (length (tid_map s)) \<and> length (tid_map s) \<le> 10240"
proof -
  have "open_quantity s = 0"
    using open_cons.run_quantity [OF assms(1) open_inv_init]
    by (simp add: s_def open_quantity_def open_init_def open_flow_def open_zero_def
        sum_list_replicate)
  moreover have "open_inv c s"
    using open_cons.run_inv [OF assms(1) open_inv_init] by (simp add: s_def)
  ultimately show ?thesis
    by (simp add: open_quantity_def open_flow_def [abs_def] sum_list_map_diff open_inv_def
        map_wf_def TID_MAP_MAX_def algebra_simps sum_list_addf)
qed

theorem open_conservation_witness:
  "admissible open_regular open_step open_demo_run (open_init open_demo_ctrl 2) \<and>
   (let s = fold open_step open_demo_run (open_init open_demo_ctrl 2) in
    sum_list (map attempted (stats_map s)) =
      sum_list (map completed (stats_map s)) + sum_list (map map_update_failed (stats_map s)) +
      of_nat (length (tid_map s)))"
proof -
  have a: "admissible open_regular open_step open_demo_run (open_init open_demo_ctrl 2)"
    by (simp add: open_demo_defs)
  then show ?thesis using open_conservation [OF a] by (simp add: Let_def)
qed

text \<open>
  C20: the summary printed at exit is true. After any run, when the panel appears it was made from
  the copies of all CPUs: each of its twelve counters is the sum over the CPUs, they balance as in the kernel, the
  average is the total time over the completed calls, no CPU saw a longer call than
  the maximum shown, and the process shown with a nonzero maximum is that of the CPU that saw it.
\<close>

theorem open_panel_true:
  assumes "open_print_stats (int n) True (Some (stats_map (fold open_step tr (open_init c n)))) = Some p"
  defines "vs \<equiv> take n (stats_map (fold open_step tr (open_init c n)))"
  shows "(\<forall>f \<in> {attempted, completed, submitted, failed, filtered_pid, filtered_delay, ringbuf_dropped,
        map_update_failed, lookup_missed, path_read_failed, path_truncated, total_ns}.
      f (panel_stats p) = sum_list (map f vs)) \<and>
    completed (panel_stats p) = submitted (panel_stats p) + filtered_delay (panel_stats p) +
      ringbuf_dropped (panel_stats p) \<and>
    (completed (panel_stats p) \<noteq> 0 \<longrightarrow>
      panel_avg p = Some (sum_list (map total_ns vs) div sum_list (map completed vs))) \<and>
    (\<forall>v \<in> set vs. max_ns v \<le> max_ns (panel_stats p)) \<and>
    (max_ns (panel_stats p) \<noteq> 0 \<longrightarrow>
      (\<exists>v \<in> set vs. max_ns (panel_stats p) = max_ns v \<and> max_pid (panel_stats p) = max_pid v \<and>
        max_comm (panel_stats p) = max_comm v))"
proof -
  let ?m = "foldl open_merge open_zero vs"
  have p: "panel_stats p = ?m"
    "panel_avg p = (if completed ?m \<noteq> 0 then Some (total_ns ?m div completed ?m) else None)"
    using assms(1) by (auto simp: open_print_stats_def vs_def Let_def split: if_splits)
  have b: "\<forall>v \<in> set vs. completed v = submitted v + filtered_delay v + ringbuf_dropped v"
    using open_run_bal by (auto simp: vs_def dest!: in_set_takeD)
  note sums = open_rep.report_counter [of completed] open_rep.report_counter [of submitted]
    open_rep.report_counter [of filtered_delay] open_rep.report_counter [of ringbuf_dropped]
    open_rep.report_counter [of total_ns]
  show ?thesis unfolding p
    by (rule conjI, intro ballI open_rep.report_counter, assumption)
      (use sums open_sum_bal [OF b] open_rep.report_mx_ge [of _ vs open_zero] open_rep.report_source [of vs] in auto)
qed

theorem open_panel_true_witness:
  "\<exists>p. open_print_stats (int 2) True
      (Some (stats_map (fold open_step open_demo_run (open_init open_demo_ctrl 2)))) = Some p \<and>
    completed (panel_stats p) = submitted (panel_stats p) + filtered_delay (panel_stats p) +
      ringbuf_dropped (panel_stats p)"
proof -
  have "open_print_stats (int 2) True
      (Some (stats_map (fold open_step open_demo_run (open_init open_demo_ctrl 2)))) \<noteq> None"
    by (simp add: open_demo_defs open_print_stats_def open_merge_def)
  then show ?thesis using open_panel_true [of 2 open_demo_run open_demo_ctrl] by blast
qed

end
