(* ===== verification/FdTable.thy ===== *)
theory FdTable
  imports Prelude
begin

section \<open>The file descriptor table\<close>

text \<open>
  The kernel memory that \<^verbatim>\<open>fs/read\<close> and \<^verbatim>\<open>fs/write\<close> walk to name a file descriptor, as an
  argument: each field a function of the address it is read at, 0 the null pointer.
  \<open>fm_slot a i\<close> is the pointer stored at index \<open>i\<close> of the array at \<open>a\<close>, \<open>None\<close> when
  reading it fails; \<open>fm_str a\<close> the C string at \<open>a\<close>.
\<close>

record fdmem =
  fm_task :: u64
  fm_files :: "u64 \<Rightarrow> u64"
  fm_fdt :: "u64 \<Rightarrow> u64"
  fm_max_fds :: "u64 \<Rightarrow> u32"
  fm_fd :: "u64 \<Rightarrow> u64"
  fm_slot :: "u64 \<Rightarrow> nat \<Rightarrow> u64 option"
  fm_dentry :: "u64 \<Rightarrow> u64"
  fm_d_name :: "u64 \<Rightarrow> u64 \<times> u32"
  fm_str :: "u64 \<Rightarrow> cstr option"

text \<open>A table of four descriptors in which descriptor 3 is open on a file called \<open>log\<close>.\<close>

definition demo_fdmem :: fdmem where
  "demo_fdmem =
     \<lparr>fm_task = 1, fm_files = \<lambda>_. 2, fm_fdt = \<lambda>_. 3, fm_max_fds = \<lambda>_. 4, fm_fd = \<lambda>_. 5,
      fm_slot = \<lambda>_ i. Some (if i = 3 then 6 else 0), fm_dentry = \<lambda>_. 7,
      fm_d_name = \<lambda>_. (8, 3), fm_str = \<lambda>_. Some ''log''\<rparr>"

end
