(* ===== verification/FsRead.thy ===== *)
theory FsRead
  imports CallSpec PidNs FdTable RunLoop Logger
begin

section \<open>fs/read: latency of read\<close>

text \<open>
  \<^verbatim>\<open>fs/read\<close>: \<open>read_entry\<close> names the descriptor and stores the call under the thread's global id,
  \<open>read_exit\<close> takes it back, counts, filters by latency and reports. The tool's own calls are
  left out, so that its printing does not feed itself. The user side merges the
  per-CPU statistics (\<open>read_merge\<close>, \<open>read_print_stats\<close>).
\<close>

definition FS_READ_PATH_SIZE :: nat where
  "FS_READ_PATH_SIZE = 256"

record Read_ctrl =
  enable :: bool
  min_delay_ns :: u64
  target_pid :: s32
  self_pid :: s32
  pid_ns_dev :: u64
  pid_ns_ino :: u64

record Read_event =
  ev_pid :: s32
  ev_tid :: s32
  ev_fd :: s32
  ev_requested_count :: u64
  ev_bytes_read :: s64
  ev_timestamp_ns :: u64
  ev_latency_ns :: u64
  ev_path_name :: cstr
  ev_comm :: cstr

record Read_stats =
  attempted :: u64
  completed :: u64
  submitted :: u64
  failed :: u64
  filtered_pid :: u64
  filtered_self :: u64
  filtered_delay :: u64
  ringbuf_dropped :: u64
  map_update_failed :: u64
  lookup_missed :: u64
  path_lookup_failed :: u64
  total_ns :: u64
  max_ns :: u64
  max_pid :: s32
  max_comm :: cstr

record read_entry_data =
  en_enter_ts :: u64
  en_requested_count :: u64
  en_pid :: s32
  en_tid :: s32
  en_fd :: s32
  en_comm :: cstr
  en_path_name :: cstr

text \<open>The maps of the module; \<open>inflight_reads\<close> is a HASH of 10240 entries.\<close>

record Read_state =
  ctrl_map :: "Read_ctrl option"
  stats_map :: "Read_stats list"
  inflight_reads :: "(u32, read_entry_data) bmap"
  rb :: "Read_event list"

definition INFLIGHT_READS_MAX :: nat where
  "INFLIGHT_READS_MAX = 10240"

text \<open>\<open>ctx->args[0]\<close> and \<open>ctx->args[2]\<close> of the enter tracepoint.\<close>

record read_args =
  arg_fd :: u64
  arg_count :: u64

definition read_count :: "bpf_env \<Rightarrow> (Read_stats \<Rightarrow> Read_stats) \<Rightarrow> Read_state \<Rightarrow> Read_state" where
  "read_count env f s = s\<lparr>stats_map := percpu_upd (env_cpu env) f (stats_map s)\<rparr>"

text \<open>The return value (0 or -1) and the contents of \<open>out\<close>.\<close>

definition read_fill_name_from_fd :: "fdmem \<Rightarrow> s32 \<Rightarrow> int \<Rightarrow> int \<times> cstr" where
  "read_fill_name_from_fd fm fd_num out_sz =
     (if out_sz \<le> 0 then (- 1, [])
      else if sint fd_num < 0 then (- 1, [])
      else let task = fm_task fm in
      if task = 0 then (- 1, [])
      else let files = fm_files fm task in
      if files = 0 then (- 1, [])
      else let fdt = fm_fdt fm files in
      if fdt = 0 then (- 1, [])
      else let max_fds = fm_max_fds fm fdt in
      if max_fds \<le> fd_num then (- 1, [])
      else let fd_array = fm_fd fm fdt in
      if fd_array = 0 then (- 1, [])
      else (case fm_slot fm fd_array (unat fd_num) of
        None \<Rightarrow> (- 1, [])
      | Some filp \<Rightarrow>
          if filp = 0 then (- 1, [])
          else let dentry = fm_dentry fm filp in
          if dentry = 0 then (- 1, [])
          else let (name, len) = fm_d_name fm dentry in
          if name = 0 \<or> len = 0 then (- 1, [])
          else let (n, out) = probe_read_str (nat out_sz) (fm_str fm name) in
            (if n > 0 then 0 else - 1, out)))"

text \<open>The \<open>read_entry_data\<close> the enter handler fills in for a thread.\<close>

definition read_entry_of :: "bpf_env \<Rightarrow> fdmem \<Rightarrow> read_args \<Rightarrow> u64 \<Rightarrow> read_entry_data" where
  "read_entry_of env fm args visible_pid_tgid =
     \<lparr>en_enter_ts = env_ktime env, en_requested_count = arg_count args,
      en_pid = hi32 visible_pid_tgid, en_tid = lo32 visible_pid_tgid,
      en_fd = ucast (arg_fd args), en_comm = env_comm env,
      en_path_name = snd (read_fill_name_from_fd fm (ucast (arg_fd args)) (int FS_READ_PATH_SIZE))\<rparr>"

definition read_entry :: "bpf_env \<Rightarrow> fdmem \<Rightarrow> read_args \<Rightarrow> Read_state \<Rightarrow> Read_state" where
  "read_entry env fm args s =
     (case ctrl_map s of None \<Rightarrow> s
      | Some ctrl \<Rightarrow>
        if \<not> enable ctrl then s
        else let visible_pid_tgid = app_current_pid_tgid_ns env (pid_ns_dev ctrl) (pid_ns_ino ctrl) in
        if visible_pid_tgid = 0 then s
        else let pid = hi32 visible_pid_tgid in
        if self_pid ctrl \<noteq> 0 \<and> self_pid ctrl = pid
        then read_count env (\<lambda>c. c\<lparr>filtered_self := filtered_self c + 1\<rparr>) s
        else if target_pid ctrl \<noteq> 0 \<and> target_pid ctrl \<noteq> pid
        then read_count env (\<lambda>c. c\<lparr>filtered_pid := filtered_pid c + 1\<rparr>) s
        else let
          s1 = read_count env (\<lambda>c. c\<lparr>attempted := attempted c + 1\<rparr>) s;
          entry = read_entry_of env fm args visible_pid_tgid;
          s2 = (if fst (read_fill_name_from_fd fm (en_fd entry) (int FS_READ_PATH_SIZE)) \<noteq> 0
                then read_count env (\<lambda>c. c\<lparr>path_lookup_failed := path_lookup_failed c + 1\<rparr>) s1
                else s1);
          global_tid = lo32 (env_pid_tgid env)
        in (case hash_update INFLIGHT_READS_MAX (env_update_ok env) global_tid entry
                   (inflight_reads s2) of
              None \<Rightarrow> read_count env (\<lambda>c. c\<lparr>map_update_failed := map_update_failed c + 1\<rparr>) s2
            | Some m \<Rightarrow> s2\<lparr>inflight_reads := m\<rparr>))"

text \<open>The statistics block of the exit handler, and the event it assembles.\<close>

definition read_exit_stats :: "read_entry_data \<Rightarrow> u64 \<Rightarrow> s64 \<Rightarrow> Read_stats \<Rightarrow> Read_stats" where
  "read_exit_stats entry latency_ns ret c0 = (let
     c1 = c0\<lparr>completed := completed c0 + 1\<rparr>;
     c2 = c1\<lparr>total_ns := total_ns c1 + latency_ns\<rparr>;
     c3 = (if sint ret < 0 then c2\<lparr>failed := failed c2 + 1\<rparr> else c2)
     in if latency_ns > max_ns c3
        then c3\<lparr>max_ns := latency_ns, max_pid := en_pid entry, max_comm := en_comm entry\<rparr>
        else c3)"

definition read_event_of :: "bpf_env \<Rightarrow> read_entry_data \<Rightarrow> s64 \<Rightarrow> Read_event" where
  "read_event_of env entry ret =
     \<lparr>ev_pid = en_pid entry, ev_tid = en_tid entry, ev_fd = en_fd entry,
      ev_requested_count = en_requested_count entry, ev_bytes_read = ret,
      ev_timestamp_ns = env_ktime env, ev_latency_ns = env_ktime env - en_enter_ts entry,
      ev_path_name = en_path_name entry, ev_comm = en_comm entry\<rparr>"

definition read_drop_tid :: "u32 \<Rightarrow> Read_state \<Rightarrow> Read_state" where
  "read_drop_tid tid s = s\<lparr>inflight_reads := bpf_delete tid (inflight_reads s)\<rparr>"

definition read_exit :: "bpf_env \<Rightarrow> s64 \<Rightarrow> Read_state \<Rightarrow> Read_state" where
  "read_exit env ret s =
     (let global_tid = lo32 (env_pid_tgid env) in
      case map_of (inflight_reads s) global_tid of
        None \<Rightarrow>
          (case ctrl_map s of None \<Rightarrow> s
           | Some ctrl \<Rightarrow>
             if \<not> enable ctrl then s
             else let visible_pid_tgid =
                app_current_pid_tgid_ns env (pid_ns_dev ctrl) (pid_ns_ino ctrl) in
             if visible_pid_tgid \<noteq> 0 \<and> hi32 visible_pid_tgid \<noteq> self_pid ctrl \<and>
                (target_pid ctrl = 0 \<or> target_pid ctrl = hi32 visible_pid_tgid)
             then read_count env (\<lambda>c. c\<lparr>lookup_missed := lookup_missed c + 1\<rparr>) s
             else s)
      | Some entry \<Rightarrow>
          (case ctrl_map s of None \<Rightarrow> read_drop_tid global_tid s
           | Some ctrl \<Rightarrow>
             if \<not> enable ctrl then read_drop_tid global_tid s
             else let
               latency_ns = env_ktime env - en_enter_ts entry;
               s1 = read_count env (read_exit_stats entry latency_ns ret) s
             in if min_delay_ns ctrl \<noteq> 0 \<and> latency_ns < min_delay_ns ctrl
             then read_drop_tid global_tid
                    (read_count env (\<lambda>c. c\<lparr>filtered_delay := filtered_delay c + 1\<rparr>) s1)
             else if \<not> env_reserve_ok env
             then read_drop_tid global_tid
                    (read_count env (\<lambda>c. c\<lparr>ringbuf_dropped := ringbuf_dropped c + 1\<rparr>) s1)
             else let
               s2 = s1\<lparr>rb := rb s1 @ [read_event_of env entry ret]\<rparr>;
               s3 = read_count env (\<lambda>c. c\<lparr>submitted := submitted c + 1\<rparr>) s2
             in read_drop_tid global_tid s3))"

text \<open>A firing of one of the two probes.\<close>

datatype read_firing = Enter bpf_env fdmem read_args | Exit bpf_env s64

fun read_step :: "read_firing \<Rightarrow> Read_state \<Rightarrow> Read_state" where
  "read_step (Enter env fm args) s = read_entry env fm args s"
| "read_step (Exit env ret) s = read_exit env ret s"

subsection \<open>The summary at exit\<close>

definition read_zero :: Read_stats where
  "read_zero = \<lparr>attempted = 0, completed = 0, submitted = 0, failed = 0, filtered_pid = 0,
     filtered_self = 0, filtered_delay = 0, ringbuf_dropped = 0, map_update_failed = 0,
     lookup_missed = 0, path_lookup_failed = 0, total_ns = 0, max_ns = 0, max_pid = 0,
     max_comm = ''''\<rparr>"

definition read_merge :: "Read_stats \<Rightarrow> Read_stats \<Rightarrow> Read_stats" where
  "read_merge tot value = (let
     t1 = tot\<lparr>attempted := attempted tot + attempted value,
            completed := completed tot + completed value,
            submitted := submitted tot + submitted value,
            failed := failed tot + failed value,
            filtered_pid := filtered_pid tot + filtered_pid value,
            filtered_self := filtered_self tot + filtered_self value,
            filtered_delay := filtered_delay tot + filtered_delay value,
            ringbuf_dropped := ringbuf_dropped tot + ringbuf_dropped value,
            map_update_failed := map_update_failed tot + map_update_failed value,
            lookup_missed := lookup_missed tot + lookup_missed value,
            path_lookup_failed := path_lookup_failed tot + path_lookup_failed value,
            total_ns := total_ns tot + total_ns value\<rparr>
     in if max_ns value > max_ns t1
        then t1\<lparr>max_ns := max_ns value, max_pid := max_pid value, max_comm := max_comm value\<rparr>
        else t1)"

text \<open>The panel: the merged statistics, and the average when some call completed.\<close>

record Read_panel =
  panel_stats :: Read_stats
  panel_avg :: "u64 option"

definition read_print_stats ::
  "int \<Rightarrow> bool \<Rightarrow> Read_stats list option \<Rightarrow> Read_panel option" where
  "read_print_stats ncpus alloc_ok values =
     (if ncpus \<le> 0 \<or> \<not> alloc_ok then None
      else case values of None \<Rightarrow> None
      | Some vs \<Rightarrow>
        let tot = foldl read_merge read_zero (take (nat ncpus) vs) in
        if attempted tot = 0 \<and> filtered_pid tot = 0 then None
        else Some \<lparr>panel_stats = tot,
          panel_avg = (if completed tot \<noteq> 0 then Some (total_ns tot div completed tot)
                       else None)\<rparr>)"

subsection \<open>The run function\<close>

text \<open>
  The configuration \<open>read_run\<close> builds from its arguments, and \<open>read_run\<close> itself over the calls it makes.
\<close>

definition read_ctrl_of :: "bool \<Rightarrow> s32 \<Rightarrow> u64 \<Rightarrow> s32 \<Rightarrow> u64 \<Rightarrow> u64 \<Rightarrow> Read_ctrl" where
  "read_ctrl_of en pid delay self dev ino =
     \<lparr>enable = en, min_delay_ns = delay, target_pid = pid, self_pid = self, pid_ns_dev = dev, pid_ns_ino = ino\<rparr>"

definition read_run ::
    "s32 \<Rightarrow> bool \<Rightarrow> s32 \<Rightarrow> u64 \<Rightarrow> run_env \<Rightarrow> (int \<times> Read_ctrl action list) option" where
  "read_run timeout en pid delay e =
     run_module (\<lambda>_. 1) (\<lambda>err. err \<noteq> 0) neg_or_zero (read_ctrl_of en pid delay (re_getpid e)) timeout e"

subsection \<open>The line of an event\<close>

text \<open>
  \<open>handle_event\<close>: a record shorter than the structure is reported on \<^verbatim>\<open>stderr\<close>. \<^verbatim>\<open>strerror\<close> is an argument,
  its texts depend on the locale.
\<close>

definition READ_EVENT_SIZE :: nat where
  "READ_EVENT_SIZE = 320"

definition read_handle_event :: "(int \<Rightarrow> string) \<Rightarrow> nat \<Rightarrow> wall \<Rightarrow> Read_event \<Rightarrow> out_call list" where
  "read_handle_event strerror data_sz now event =
     (if data_sz < READ_EVENT_SIZE
      then eprintf (''read ''
        @ utf8 [0xE4, 0xBA, 0x8B, 0xE4, 0xBB, 0xB6, 0xE9, 0x95, 0xBF, 0xE5, 0xBA, 0xA6, 0xE5, 0xBC, 0x82, 0xE5, 0xB8, 0xB8]
        @ '': '' @ decimal data_sz @ '' < '' @ decimal READ_EVENT_SIZE @ endl)
      else log_output_lock
        @ LOG now (''PID='' @ ljust 6 (fmt_d (ev_pid event)) @ '' TID='' @ ljust 6 (fmt_d (ev_tid event))
            @ '' FD='' @ ljust 4 (fmt_d (ev_fd event)) @ '' REQ='' @ ljust 8 (fmt_u (ev_requested_count event))
            @ '' READ='' @ ljust 8 (fmt_d (ev_bytes_read event)) @ '' '' @ ljust 16 (ev_comm event) @ '' ''
            @ (if ev_path_name event \<noteq> [] then ev_path_name event else ''(unknown)'') @ '' | '')
        @ (if sint (ev_bytes_read event) < 0
           then printf (''ERR='' @ strerror (sint (ucast (- ev_bytes_read event) :: s32)) @ '' | '') else [])
        @ log_col_ns (ev_latency_ns event) 10000 100000
        @ printf endl
        @ log_output_unlock)"

section \<open>Lemmas\<close>

interpretation read_runner: quiet_runner "\<lambda>err. err \<noteq> 0" neg_or_zero "\<lambda>_. 1"
  by unfold_locales (simp_all add: neg_or_zero_simps)

text \<open>The ids of the thread a firing is for, and what a firing opens, closes and reports.\<close>

definition read_ids :: "Read_ctrl \<Rightarrow> bpf_env \<Rightarrow> u64" where
  "read_ids c env = app_current_pid_tgid_ns env (pid_ns_dev c) (pid_ns_ino c)"

definition read_traced :: "Read_ctrl \<Rightarrow> s32 \<Rightarrow> bool" where
  "read_traced c pid \<longleftrightarrow> (self_pid c = 0 \<or> pid \<noteq> self_pid c) \<and> (target_pid c = 0 \<or> pid = target_pid c)"

fun read_starts :: "Read_ctrl \<Rightarrow> read_firing \<Rightarrow> (u32 \<times> read_entry_data) option" where
  "read_starts c (Enter env fm args) =
     (if enable c \<and> read_ids c env \<noteq> 0 \<and> read_traced c (hi32 (read_ids c env)) \<and> env_update_ok env
      then Some (lo32 (env_pid_tgid env), read_entry_of env fm args (read_ids c env)) else None)"
| "read_starts c (Exit env ret) = None"

fun read_closes :: "read_firing \<Rightarrow> u32 \<Rightarrow> bool" where
  "read_closes (Enter env fm args) k = False"
| "read_closes (Exit env ret) k = (k = lo32 (env_pid_tgid env))"

fun read_reports :: "Read_ctrl \<Rightarrow> read_firing \<Rightarrow> u32 \<Rightarrow> read_entry_data \<Rightarrow> Read_event option" where
  "read_reports c (Enter env fm args) k v = None"
| "read_reports c (Exit env ret) k v =
     (if enable c \<and> k = lo32 (env_pid_tgid env) \<and>
         (min_delay_ns c = 0 \<or> min_delay_ns c \<le> env_ktime env - en_enter_ts v) \<and> env_reserve_ok env
      then Some (read_event_of env v ret) else None)"

definition read_inv :: "Read_ctrl \<Rightarrow> Read_state \<Rightarrow> bool" where
  "read_inv c s \<longleftrightarrow> ctrl_map s = Some c \<and> map_wf INFLIGHT_READS_MAX (inflight_reads s) \<and>
     (enable c \<or> inflight_reads s = []) \<and> map_all (\<lambda>k v. read_traced c (en_pid v)) (inflight_reads s)"

definition read_init :: "Read_ctrl \<Rightarrow> nat \<Rightarrow> Read_state" where
  "read_init c ncpus =
     \<lparr>ctrl_map = Some c, stats_map = replicate ncpus read_zero, inflight_reads = [], rb = []\<rparr>"

lemma read_count_simps [simp]:
  "ctrl_map (read_count env f s) = ctrl_map s"
  "inflight_reads (read_count env f s) = inflight_reads s"
  "rb (read_count env f s) = rb s"
  "stats_map (read_count env f s) = percpu_upd (env_cpu env) f (stats_map s)"
  by (simp_all add: read_count_def)

lemma read_drop_tid_simps [simp]:
  "ctrl_map (read_drop_tid k s) = ctrl_map s"
  "inflight_reads (read_drop_tid k s) = bpf_delete k (inflight_reads s)"
  "rb (read_drop_tid k s) = rb s"
  "stats_map (read_drop_tid k s) = stats_map s"
  by (simp_all add: read_drop_tid_def)

lemma read_entry_of_simps [simp]:
  "en_pid (read_entry_of env fm args p) = hi32 p"
  "en_tid (read_entry_of env fm args p) = lo32 p"
  "en_enter_ts (read_entry_of env fm args p) = env_ktime env"
  by (simp_all add: read_entry_of_def)

lemma read_exit_stats_simps [simp]:
  "completed (read_exit_stats v l r c) = completed c + 1"
  "attempted (read_exit_stats v l r c) = attempted c"
  "submitted (read_exit_stats v l r c) = submitted c"
  "filtered_delay (read_exit_stats v l r c) = filtered_delay c"
  "ringbuf_dropped (read_exit_stats v l r c) = ringbuf_dropped c"
  "map_update_failed (read_exit_stats v l r c) = map_update_failed c"
  by (simp_all add: read_exit_stats_def Let_def)

lemmas read_handler_defs = read_entry_def read_exit_def Let_def read_ids_def [symmetric]

text \<open>What one firing does to the control block, the map and the ring buffer.\<close>

lemma read_entry_ctrl [simp]: "ctrl_map (read_entry env fm args s) = ctrl_map s"
  by (auto simp: read_handler_defs split: option.split)

lemma read_exit_ctrl [simp]: "ctrl_map (read_exit env ret s) = ctrl_map s"
  by (auto simp: read_handler_defs split: option.split)

lemma read_entry_tab:
  assumes "ctrl_map s = Some c"
  shows "inflight_reads (read_entry env fm args s) =
    (case read_starts c (Enter env fm args) of None \<Rightarrow> inflight_reads s
     | Some (k, v) \<Rightarrow>
         map_or_same (hash_update INFLIGHT_READS_MAX True k v (inflight_reads s)) (inflight_reads s))"
  by (cases "env_update_ok env")
    (auto simp: assms read_handler_defs read_traced_def split: option.split)

lemma read_exit_tab:
  "inflight_reads (read_exit env ret s) = bpf_delete (lo32 (env_pid_tgid env)) (inflight_reads s)"
  by (cases "map_of (inflight_reads s) (lo32 (env_pid_tgid env))")
    (simp_all add: read_handler_defs split: option.split)

lemma read_entry_rb: "rb (read_entry env fm args s) = rb s"
  by (simp add: read_handler_defs split: option.split)

lemma read_exit_rb:
  assumes "ctrl_map s = Some c"
  shows "rb (read_exit env ret s) = rb s @
    reported (read_reports c (Exit env ret) (lo32 (env_pid_tgid env))) (inflight_reads s)
      (lo32 (env_pid_tgid env))"
  by (cases "map_of (inflight_reads s) (lo32 (env_pid_tgid env))")
    (auto simp: assms read_handler_defs)

lemma read_step_inv: "read_inv c s \<Longrightarrow> read_inv c (read_step e s)"
  by (cases e)
    (auto simp: read_inv_def read_entry_tab read_exit_tab hash.map_or_same_wf hash.upd_all
      delete_map_wf map_all_delete split: option.split)

lemma read_inv_init: "read_inv c (read_init c n)"
  by (simp add: read_inv_def read_init_def)

lemma read_step_tab:
  assumes "read_inv c s" and "map_of (inflight_reads (read_step e s)) k = Some v"
  shows "read_starts c e = Some (k, v) \<or>
    (map_of (inflight_reads s) k = Some v \<and> \<not> read_closes e k \<and>
     (\<forall>v'. read_starts c e \<noteq> Some (k, v')))"
proof (cases e)
  case (Enter env fm args)
  then show ?thesis
    using assms hash.upd_opened [of INFLIGHT_READS_MAX "inflight_reads s" True _ _ k v]
    by (auto simp: read_inv_def read_entry_tab hash_update_None split: if_splits)
next
  case (Exit env ret)
  then show ?thesis using assms by (auto simp: read_inv_def read_exit_tab split: if_splits)
qed

lemma read_step_rb:
  assumes "read_inv c s" and "x \<in> set (rb (read_step e s))"
  shows "x \<in> set (rb s) \<or>
    (\<exists>k v. map_of (inflight_reads s) k = Some v \<and> read_reports c e k v = Some x)"
proof (cases e)
  case (Exit env ret)
  then show ?thesis using assms
    by (simp add: read_inv_def read_exit_rb in_reported del: read_reports.simps) blast
qed (use assms in \<open>simp add: read_entry_rb\<close>)

interpretation read_pair: paired_monitor read_step "\<lambda>_ _. True" "read_inv c" inflight_reads rb
  "read_starts c" read_closes "read_reports c" for c
  by unfold_locales (use read_step_inv read_step_tab read_step_rb in blast)+

text \<open>The balance of the counters of one CPU.\<close>

definition read_bal :: "Read_stats \<Rightarrow> u64" where
  "read_bal c = completed c - submitted c - filtered_delay c - ringbuf_dropped c"

lemma read_entry_bal: "map read_bal (stats_map (read_entry env fm args s)) = map read_bal (stats_map s)"
  by (auto simp: read_handler_defs read_bal_def intro!: map_percpu_upd split: option.split)

lemma read_exit_bal: "map read_bal (stats_map (read_exit env ret s)) = map read_bal (stats_map s)"
  by (auto simp: read_handler_defs read_bal_def intro!: map_percpu_upd split: option.split)

interpretation read_mon: balanced_monitor read_step "\<lambda>_ _. True" "read_inv c" stats_map read_bal for c
proof unfold_locales
  fix s e show "map read_bal (stats_map (read_step e s)) = map read_bal (stats_map s)"
    by (cases e) (simp_all add: read_entry_bal read_exit_bal)
qed

text \<open>
  Calls in flight. A firing is regular when its CPU is one of the possible CPUs and an enter
  does not come from a thread that is already inside the call.
\<close>

fun read_regular :: "read_firing \<Rightarrow> Read_state \<Rightarrow> bool" where
  "read_regular (Enter env fm args) s = (env_cpu env < length (stats_map s) \<and>
     map_of (inflight_reads s) (lo32 (env_pid_tgid env)) = None)"
| "read_regular (Exit env ret) s = (env_cpu env < length (stats_map s))"

definition read_flow :: "Read_stats \<Rightarrow> u64" where
  "read_flow c = attempted c - completed c - map_update_failed c"

definition read_quantity :: "Read_state \<Rightarrow> u64" where
  "read_quantity s = sum_list (map read_flow (stats_map s)) - of_nat (length (inflight_reads s))"

lemma read_entry_quantity:
  assumes "read_inv c s" and "read_regular (Enter env fm args) s"
  shows "read_quantity (read_entry env fm args s) = read_quantity s"
proof -
  let ?u = "hash_update INFLIGHT_READS_MAX (env_update_ok env) (lo32 (env_pid_tgid env))
    (read_entry_of env fm args (read_ids c env)) (inflight_reads s)"
  have l: "length m' = Suc (length (inflight_reads s))" if "?u = Some m'" for m'
    using hash.upd_size [OF _ that] assms by (simp add: read_inv_def)
  show ?thesis using assms l
    by (cases ?u) (auto simp: read_inv_def read_handler_defs read_quantity_def read_flow_def
        sum_percpu_rules algebra_simps)
qed

lemma read_exit_quantity:
  assumes "read_inv c s" and "read_regular (Exit env ret) s"
  shows "read_quantity (read_exit env ret s) = read_quantity s"
proof (cases "map_of (inflight_reads s) (lo32 (env_pid_tgid env))")
  case None
  then show ?thesis using assms
    by (auto simp: read_inv_def read_handler_defs read_quantity_def read_flow_def sum_percpu_rules)
next
  case (Some v)
  have l: "length (inflight_reads s) =
      Suc (length (bpf_delete (lo32 (env_pid_tgid env)) (inflight_reads s)))"
    using length_delete_present [of "inflight_reads s" "lo32 (env_pid_tgid env)"] assms Some
    by (simp add: read_inv_def map_wf_def)
  show ?thesis using assms Some
    by (auto simp: read_inv_def read_handler_defs read_quantity_def read_flow_def
        sum_percpu_rules algebra_simps l)
qed

interpretation read_cons: conserved_monitor read_step read_regular "read_inv c" read_quantity for c
proof unfold_locales
  fix s e assume "read_inv c s" "read_regular e s"
  then show "read_quantity (read_step e s) = read_quantity s"
    by (cases e) (simp_all add: read_entry_quantity read_exit_quantity)
qed (simp add: read_step_inv)

interpretation read_rep: percpu_report read_zero read_merge
  "{attempted, completed, submitted, failed, filtered_pid, filtered_self, filtered_delay,
    ringbuf_dropped, map_update_failed, lookup_missed, path_lookup_failed, total_ns}"
  max_ns "\<lambda>c. (max_pid c, max_comm c)"
  by unfold_locales (auto simp: read_zero_def read_merge_def Let_def max_def)

lemma read_init_bal: "\<forall>v \<in> set (stats_map (read_init c n)). read_bal v = 0"
  by (auto simp: read_init_def read_bal_def read_zero_def)

lemma read_run_bal:
  assumes "v \<in> set (stats_map (fold read_step tr (read_init c n)))"
  shows "completed v = submitted v + filtered_delay v + ringbuf_dropped v"
  using read_mon.run_bal_zero [OF admissible_True read_inv_init read_init_bal assms]
  by (simp add: read_bal_def algebra_simps)

text \<open>The merge inherits the balance of the copies.\<close>

lemma read_merge_bal:
  assumes "\<forall>v \<in> set vs. completed v = submitted v + filtered_delay v + ringbuf_dropped v"
  defines "t \<equiv> foldl read_merge read_zero vs"
  shows "completed t = submitted t + filtered_delay t + ringbuf_dropped t"
proof -
  have "sum_list (map completed vs) = sum_list (map submitted vs) +
      sum_list (map filtered_delay vs) + sum_list (map ringbuf_dropped vs)"
    using assms(1) by (induction vs) (auto simp: algebra_simps)
  then show ?thesis by (simp add: t_def read_rep.report_counter)
qed

definition read_demo_ctrl :: Read_ctrl where
  "read_demo_ctrl = \<lparr>enable = True, min_delay_ns = 3, target_pid = 0, self_pid = 9, pid_ns_dev = 1,
     pid_ns_ino = 4\<rparr>"

definition read_demo_run :: "read_firing list" where
  "read_demo_run =
     [Enter (calm_env 0 10 7 8) demo_fdmem \<lparr>arg_fd = 3, arg_count = 100\<rparr>,
      Enter (calm_env 1 11 9 9) demo_fdmem \<lparr>arg_fd = 3, arg_count = 100\<rparr>,
      Exit (calm_env 1 25 7 8) 50]"

lemmas read_demo_defs = read_demo_ctrl_def read_demo_run_def read_init_def read_handler_defs
  read_ids_def read_count_def read_drop_tid_def percpu_upd_def read_entry_of_def probe_read_str_def
  FS_READ_PATH_SIZE_def INFLIGHT_READS_MAX_def hash_update_def bpf_delete_def read_event_of_def
  read_exit_stats_def read_zero_def read_fill_name_from_fd_def demo_fdmem_def

lemma read_demo_rb: "rb (fold read_step read_demo_run (read_init read_demo_ctrl 2)) =
  [\<lparr>ev_pid = 7, ev_tid = 8, ev_fd = 3, ev_requested_count = 100, ev_bytes_read = 50,
    ev_timestamp_ns = 25, ev_latency_ns = 15, ev_path_name = ''log'', ev_comm = ''demo''\<rparr>]"
  by (simp add: read_demo_defs)

interpretation read_lines: whole_printer "\<lambda>(sz, now, e). read_handle_event strerror sz now e"
  "\<lambda>(sz, now, e). printable (ev_comm e) \<and> printable (ev_path_name e)
     \<and> printable (strerror (sint (ucast (- ev_bytes_read e) :: s32)))" for strerror
  by unfold_locales (auto simp: read_handle_event_def line_simps split: if_splits)

text \<open>The key of the call a firing ends; with room in the map the module reports exactly the calls of the specification.\<close>

fun read_ends :: "read_firing \<Rightarrow> u32 option" where
  "read_ends (Enter env fm args) = None"
| "read_ends (Exit env ret) = Some (lo32 (env_pid_tgid env))"

lemma read_step_calls:
  assumes "read_inv c s" and "hash_fits INFLIGHT_READS_MAX (inflight_reads s) (read_starts c e)"
  shows "(map_of (inflight_reads (read_step e s)), rb (read_step e s)) =
    call_step (read_starts c) read_ends (read_reports c) e (map_of (inflight_reads s), rb s)"
  using assms
  by (cases e) (auto simp: read_inv_def read_entry_tab read_entry_rb read_exit_tab read_exit_rb
      hash_fits_update call_step_def reported_def split: option.split)

interpretation read_calls: call_monitor read_step
  "\<lambda>e s. hash_fits INFLIGHT_READS_MAX (inflight_reads s) (read_starts c e)"
  "read_inv c" inflight_reads rb "read_starts c" read_ends "read_reports c" for c
  by unfold_locales (simp_all add: read_step_inv read_step_calls)

text \<open>Every event passed the filters of the configuration.\<close>

lemma read_filtered:
  assumes "x \<in> set (rb (fold read_step tr (read_init c n)))"
  shows "enable c \<and> min_delay_ns c \<le> ev_latency_ns x \<and> (target_pid c = 0 \<or> ev_pid x = target_pid c)"
  using assms
  by (rule read_pair.reported_all [OF _ admissible_True read_inv_init])
     (auto simp: read_init_def read_event_of_def read_traced_def elim!: read_starts.elims read_reports.elims split: if_splits)

section \<open>Properties\<close>

text \<open>
  Every event user space receives is the report of one \<open>read\<close> call: an enter and a later exit of
  the same kernel thread, with no exit and no recorded enter of that thread between them. The
  latency is the difference of the clock readings and at least the threshold, the byte count is
  the call's return value, and the call is never one of the tool's own and always of
  the target process when one is set.
\<close>

lemma read_reported_call:
  assumes "x \<in> set (rb (fold read_step tr (read_init c n)))"
  shows "\<exists>pre env1 fm args mid env2 ret post.
    tr = pre @ Enter env1 fm args # mid @ Exit env2 ret # post \<and>
    lo32 (env_pid_tgid env1) = lo32 (env_pid_tgid env2) \<and>
    x = read_event_of env2 (read_entry_of env1 fm args (read_ids c env1)) ret \<and>
    ev_latency_ns x = env_ktime env2 - env_ktime env1 \<and>
    min_delay_ns c \<le> ev_latency_ns x \<and> ev_bytes_read x = ret \<and>
    enable c \<and> (target_pid c = 0 \<or> ev_pid x = target_pid c) \<and>
    (self_pid c = 0 \<or> ev_pid x \<noteq> self_pid c) \<and>
    (\<forall>e \<in> set mid. \<not> read_closes e (lo32 (env_pid_tgid env1)) \<and>
       (\<forall>v. read_starts c e \<noteq> Some (lo32 (env_pid_tgid env1), v)))"
proof -
  obtain pre e1 mid e2 post k v where t: "tr = pre @ e1 # mid @ e2 # post"
    and s: "read_starts c e1 = Some (k, v)" and r: "read_reports c e2 k v = Some x"
    and m: "\<forall>e \<in> set mid. \<not> read_closes e k \<and> (\<forall>v'. read_starts c e \<noteq> Some (k, v'))"
    using read_pair.reported_pair [OF admissible_True read_inv_init _ _ assms]
    by (auto simp: read_init_def)
  obtain env1 fm args where e1: "e1 = Enter env1 fm args" using s by (cases e1) auto
  obtain env2 ret where e2: "e2 = Exit env2 ret" using r by (cases e2) auto
  have v: "v = read_entry_of env1 fm args (read_ids c env1)" "k = lo32 (env_pid_tgid env1)"
    "read_traced c (en_pid v)"
    using s e1 by (auto split: if_splits)
  have x: "x = read_event_of env2 v ret" "k = lo32 (env_pid_tgid env2)" "enable c"
    "min_delay_ns c = 0 \<or> min_delay_ns c \<le> env_ktime env2 - en_enter_ts v"
    using r e2 by (auto split: if_splits)
  have f: "ev_latency_ns x = env_ktime env2 - env_ktime env1" "ev_pid x = en_pid v" "ev_bytes_read x = ret"
    using v x by (simp_all add: read_event_of_def)
  have p: "tr = pre @ Enter env1 fm args # mid @ Exit env2 ret # post" using t e1 e2 by simp
  have d: "min_delay_ns c \<le> ev_latency_ns x" using x(4) v(1) f(1) by auto
  have q: "(target_pid c = 0 \<or> ev_pid x = target_pid c) \<and> (self_pid c = 0 \<or> ev_pid x \<noteq> self_pid c)"
    using v(3) f(2) by (simp add: read_traced_def)
  show ?thesis
    by (intro exI conjI, rule p) (use v x f d q m in simp_all)
qed

text \<open>
  The accounting of a run. On every CPU each completed call was submitted, filtered by the
  threshold or dropped; and when no thread enters again before its previous call has left
  the map, the calls attempted are the calls completed, plus those whose context could not be
  stored, plus the at most 10240 still in flight.
\<close>

lemma read_accounting:
  assumes "admissible read_regular read_step tr (read_init c n)"
  defines "s \<equiv> fold read_step tr (read_init c n)"
  shows "list_all (\<lambda>v. completed v = submitted v + filtered_delay v + ringbuf_dropped v) (stats_map s) \<and>
    sum_list (map attempted (stats_map s)) =
      sum_list (map completed (stats_map s)) + sum_list (map map_update_failed (stats_map s)) +
      of_nat (length (inflight_reads s)) \<and> length (inflight_reads s) \<le> 10240"
proof -
  have "read_quantity s = 0"
    using read_cons.run_quantity [OF assms(1) read_inv_init]
    by (simp add: s_def read_quantity_def read_init_def read_flow_def read_zero_def sum_list_replicate)
  moreover have "read_inv c s"
    using read_cons.run_inv [OF assms(1) read_inv_init] by (simp add: s_def)
  ultimately show ?thesis
    using read_run_bal
    by (simp add: read_quantity_def read_flow_def [abs_def] sum_list_map_diff read_inv_def list_all_iff
        map_wf_def INFLIGHT_READS_MAX_def algebra_simps sum_list_addf s_def)
qed

text \<open>
  A descriptor is named exactly when every step of the kernel walk succeeds, and the name is then a
  prefix of the file's name that fits the buffer with its terminator; a negative descriptor
  and one beyond the table never touch the descriptor array.
\<close>

lemma read_fill_name_result:
  "(fst (read_fill_name_from_fd fm fd n) = 0 \<or> fst (read_fill_name_from_fd fm fd n) = - 1) \<and>
   (fst (read_fill_name_from_fd fm fd n) = 0 \<longleftrightarrow>
     (\<exists>filp str. 0 < n \<and> 0 \<le> sint fd \<and> fm_task fm \<noteq> 0 \<and> fm_files fm (fm_task fm) \<noteq> 0 \<and>
       fm_fdt fm (fm_files fm (fm_task fm)) \<noteq> 0 \<and>
       fd < fm_max_fds fm (fm_fdt fm (fm_files fm (fm_task fm))) \<and>
       fm_fd fm (fm_fdt fm (fm_files fm (fm_task fm))) \<noteq> 0 \<and>
       fm_slot fm (fm_fd fm (fm_fdt fm (fm_files fm (fm_task fm)))) (unat fd) = Some filp \<and>
       filp \<noteq> 0 \<and> fm_dentry fm filp \<noteq> 0 \<and> fst (fm_d_name fm (fm_dentry fm filp)) \<noteq> 0 \<and>
       snd (fm_d_name fm (fm_dentry fm filp)) \<noteq> 0 \<and>
       fm_str fm (fst (fm_d_name fm (fm_dentry fm filp))) = Some str \<and>
       snd (read_fill_name_from_fd fm fd n) = take (nat n - 1) str))"
  by (auto simp: read_fill_name_from_fd_def Let_def probe_read_str_def not_le not_less
      split: option.split prod.split)

text \<open>
  The summary printed at exit adds up. After any run, when the panel appears its completed calls
  are its submitted, filtered and dropped ones, the average is the total time over the completed
  calls, and a nonzero maximum is shown with the process and name of a CPU that saw it, no CPU
  having seen a longer call.
\<close>

lemma read_panel_true:
  assumes "read_print_stats (int n) True (Some (stats_map (fold read_step tr (read_init c n)))) = Some p"
  defines "vs \<equiv> take n (stats_map (fold read_step tr (read_init c n)))"
  shows "completed (panel_stats p) = submitted (panel_stats p) + filtered_delay (panel_stats p) +
      ringbuf_dropped (panel_stats p) \<and>
    (completed (panel_stats p) \<noteq> 0 \<longrightarrow>
      panel_avg p = Some (sum_list (map total_ns vs) div sum_list (map completed vs))) \<and>
    (\<forall>v \<in> set vs. max_ns v \<le> max_ns (panel_stats p)) \<and>
    (max_ns (panel_stats p) \<noteq> 0 \<longrightarrow>
      (\<exists>v \<in> set vs. max_ns (panel_stats p) = max_ns v \<and> max_pid (panel_stats p) = max_pid v \<and>
        max_comm (panel_stats p) = max_comm v))"
proof -
  let ?m = "foldl read_merge read_zero vs"
  have p: "panel_stats p = ?m"
    "panel_avg p = (if completed ?m \<noteq> 0 then Some (total_ns ?m div completed ?m) else None)"
    using assms(1) by (auto simp: read_print_stats_def vs_def Let_def split: if_splits)
  have b: "\<forall>v \<in> set vs. completed v = submitted v + filtered_delay v + ringbuf_dropped v"
    using read_run_bal by (auto simp: vs_def dest!: in_set_takeD)
  show ?thesis unfolding p
    using read_merge_bal [OF b] read_rep.report_counter [of completed]
      read_rep.report_counter [of total_ns] read_rep.report_mx_ge [of _ vs read_zero]
      read_rep.report_source [of vs] by auto
qed

theorem read_panel_true_witness:
  "\<exists>p. read_print_stats (int 2) True
      (Some (stats_map (fold read_step read_demo_run (read_init read_demo_ctrl 2)))) = Some p \<and>
    completed (panel_stats p) = submitted (panel_stats p) + filtered_delay (panel_stats p) +
      ringbuf_dropped (panel_stats p)"
proof -
  have "read_print_stats (int 2) True
      (Some (stats_map (fold read_step read_demo_run (read_init read_demo_ctrl 2)))) \<noteq> None"
    by (simp add: read_demo_defs read_print_stats_def read_merge_def)
  then show ?thesis using read_panel_true [of 2 read_demo_run read_demo_ctrl] by blast
qed

end
