(* ===== verification/FsWrite.thy ===== *)
theory FsWrite
  imports CallSpec PidNs FdTable RunLoop Logger
begin

section \<open>fs/write: latency of write\<close>

text \<open>
  \<^verbatim>\<open>fs/write\<close>: \<open>write_entry\<close> names the descriptor and stores the call under the thread's global id,
  \<open>write_exit\<close> takes it back, counts, filters by latency and reports. The tool's own calls are
  left out, so that its printing does not feed itself. The user side merges the
  per-CPU statistics (\<open>write_merge\<close>, \<open>write_print_stats\<close>).
\<close>

definition FS_WRITE_PATH_SIZE :: nat where
  "FS_WRITE_PATH_SIZE = 256"

record Write_ctrl =
  enable :: bool
  min_delay_ns :: u64
  target_pid :: s32
  self_pid :: s32
  pid_ns_dev :: u64
  pid_ns_ino :: u64

record Write_event =
  ev_pid :: s32
  ev_tid :: s32
  ev_fd :: s32
  ev_requested_count :: u64
  ev_bytes_written :: s64
  ev_timestamp_ns :: u64
  ev_latency_ns :: u64
  ev_path_name :: cstr
  ev_comm :: cstr

record Write_stats =
  attempted :: u64
  completed :: u64
  submitted :: u64
  failed :: u64
  filtered_pid :: u64
  filtered_self :: u64
  filtered_delay :: u64
  ringbuf_dropped :: u64
  map_update_failed :: u64
  lookup_missed :: u64
  path_lookup_failed :: u64
  total_ns :: u64
  max_ns :: u64
  max_pid :: s32
  max_comm :: cstr

record write_entry_data =
  en_enter_ts :: u64
  en_requested_count :: u64
  en_pid :: s32
  en_tid :: s32
  en_fd :: s32
  en_comm :: cstr
  en_path_name :: cstr

text \<open>The maps of the module; \<open>inflight_writes\<close> is a HASH of 10240 entries.\<close>

record Write_state =
  ctrl_map :: "Write_ctrl option"
  stats_map :: "Write_stats list"
  inflight_writes :: "(u32, write_entry_data) bmap"
  rb :: "Write_event list"

definition INFLIGHT_WRITES_MAX :: nat where
  "INFLIGHT_WRITES_MAX = 10240"

text \<open>\<open>ctx->args[0]\<close> and \<open>ctx->args[2]\<close> of the enter tracepoint.\<close>

record write_args =
  arg_fd :: u64
  arg_count :: u64

definition write_count :: "bpf_env \<Rightarrow> (Write_stats \<Rightarrow> Write_stats) \<Rightarrow> Write_state \<Rightarrow> Write_state" where
  "write_count env f s = s\<lparr>stats_map := percpu_upd (env_cpu env) f (stats_map s)\<rparr>"

text \<open>The return value (0 or -1) and the contents of \<open>out\<close>.\<close>

definition write_fill_name_from_fd :: "fdmem \<Rightarrow> s32 \<Rightarrow> int \<Rightarrow> int \<times> cstr" where
  "write_fill_name_from_fd fm fd_num out_sz =
     (if out_sz \<le> 0 then (- 1, [])
      else if sint fd_num < 0 then (- 1, [])
      else let task = fm_task fm in
      if task = 0 then (- 1, [])
      else let files = fm_files fm task in
      if files = 0 then (- 1, [])
      else let fdt = fm_fdt fm files in
      if fdt = 0 then (- 1, [])
      else let max_fds = fm_max_fds fm fdt in
      if max_fds \<le> fd_num then (- 1, [])
      else let fd_array = fm_fd fm fdt in
      if fd_array = 0 then (- 1, [])
      else (case fm_slot fm fd_array (unat fd_num) of
        None \<Rightarrow> (- 1, [])
      | Some filp \<Rightarrow>
          if filp = 0 then (- 1, [])
          else let dentry = fm_dentry fm filp in
          if dentry = 0 then (- 1, [])
          else let (name, len) = fm_d_name fm dentry in
          if name = 0 \<or> len = 0 then (- 1, [])
          else let (n, out) = probe_read_str (nat out_sz) (fm_str fm name) in
            (if n > 0 then 0 else - 1, out)))"

text \<open>The \<open>write_entry_data\<close> the enter handler fills in for a thread.\<close>

definition write_entry_of :: "bpf_env \<Rightarrow> fdmem \<Rightarrow> write_args \<Rightarrow> u64 \<Rightarrow> write_entry_data" where
  "write_entry_of env fm args visible_pid_tgid =
     \<lparr>en_enter_ts = env_ktime env, en_requested_count = arg_count args,
      en_pid = hi32 visible_pid_tgid, en_tid = lo32 visible_pid_tgid,
      en_fd = ucast (arg_fd args), en_comm = env_comm env,
      en_path_name = snd (write_fill_name_from_fd fm (ucast (arg_fd args)) (int FS_WRITE_PATH_SIZE))\<rparr>"

definition write_entry :: "bpf_env \<Rightarrow> fdmem \<Rightarrow> write_args \<Rightarrow> Write_state \<Rightarrow> Write_state" where
  "write_entry env fm args s =
     (case ctrl_map s of None \<Rightarrow> s
      | Some ctrl \<Rightarrow>
        if \<not> enable ctrl then s
        else let visible_pid_tgid = app_current_pid_tgid_ns env (pid_ns_dev ctrl) (pid_ns_ino ctrl) in
        if visible_pid_tgid = 0 then s
        else let pid = hi32 visible_pid_tgid in
        if self_pid ctrl \<noteq> 0 \<and> self_pid ctrl = pid
        then write_count env (\<lambda>c. c\<lparr>filtered_self := filtered_self c + 1\<rparr>) s
        else if target_pid ctrl \<noteq> 0 \<and> target_pid ctrl \<noteq> pid
        then write_count env (\<lambda>c. c\<lparr>filtered_pid := filtered_pid c + 1\<rparr>) s
        else let
          s1 = write_count env (\<lambda>c. c\<lparr>attempted := attempted c + 1\<rparr>) s;
          entry = write_entry_of env fm args visible_pid_tgid;
          s2 = (if fst (write_fill_name_from_fd fm (en_fd entry) (int FS_WRITE_PATH_SIZE)) \<noteq> 0
                then write_count env (\<lambda>c. c\<lparr>path_lookup_failed := path_lookup_failed c + 1\<rparr>) s1
                else s1);
          global_tid = lo32 (env_pid_tgid env)
        in (case hash_update INFLIGHT_WRITES_MAX (env_update_ok env) global_tid entry
                   (inflight_writes s2) of
              None \<Rightarrow> write_count env (\<lambda>c. c\<lparr>map_update_failed := map_update_failed c + 1\<rparr>) s2
            | Some m \<Rightarrow> s2\<lparr>inflight_writes := m\<rparr>))"

text \<open>The statistics block of the exit handler, and the event it assembles.\<close>

definition write_exit_stats :: "write_entry_data \<Rightarrow> u64 \<Rightarrow> s64 \<Rightarrow> Write_stats \<Rightarrow> Write_stats" where
  "write_exit_stats entry latency_ns ret c0 = (let
     c1 = c0\<lparr>completed := completed c0 + 1\<rparr>;
     c2 = c1\<lparr>total_ns := total_ns c1 + latency_ns\<rparr>;
     c3 = (if sint ret < 0 then c2\<lparr>failed := failed c2 + 1\<rparr> else c2)
     in if latency_ns > max_ns c3
        then c3\<lparr>max_ns := latency_ns, max_pid := en_pid entry, max_comm := en_comm entry\<rparr>
        else c3)"

definition write_event_of :: "bpf_env \<Rightarrow> write_entry_data \<Rightarrow> s64 \<Rightarrow> Write_event" where
  "write_event_of env entry ret =
     \<lparr>ev_pid = en_pid entry, ev_tid = en_tid entry, ev_fd = en_fd entry,
      ev_requested_count = en_requested_count entry, ev_bytes_written = ret,
      ev_timestamp_ns = env_ktime env, ev_latency_ns = env_ktime env - en_enter_ts entry,
      ev_path_name = en_path_name entry, ev_comm = en_comm entry\<rparr>"

definition write_drop_tid :: "u32 \<Rightarrow> Write_state \<Rightarrow> Write_state" where
  "write_drop_tid tid s = s\<lparr>inflight_writes := bpf_delete tid (inflight_writes s)\<rparr>"

definition write_exit :: "bpf_env \<Rightarrow> s64 \<Rightarrow> Write_state \<Rightarrow> Write_state" where
  "write_exit env ret s =
     (let global_tid = lo32 (env_pid_tgid env) in
      case map_of (inflight_writes s) global_tid of
        None \<Rightarrow>
          (case ctrl_map s of None \<Rightarrow> s
           | Some ctrl \<Rightarrow>
             if \<not> enable ctrl then s
             else let visible_pid_tgid =
                app_current_pid_tgid_ns env (pid_ns_dev ctrl) (pid_ns_ino ctrl) in
             if visible_pid_tgid \<noteq> 0 \<and> hi32 visible_pid_tgid \<noteq> self_pid ctrl \<and>
                (target_pid ctrl = 0 \<or> target_pid ctrl = hi32 visible_pid_tgid)
             then write_count env (\<lambda>c. c\<lparr>lookup_missed := lookup_missed c + 1\<rparr>) s
             else s)
      | Some entry \<Rightarrow>
          (case ctrl_map s of None \<Rightarrow> write_drop_tid global_tid s
           | Some ctrl \<Rightarrow>
             if \<not> enable ctrl then write_drop_tid global_tid s
             else let
               latency_ns = env_ktime env - en_enter_ts entry;
               s1 = write_count env (write_exit_stats entry latency_ns ret) s
             in if min_delay_ns ctrl \<noteq> 0 \<and> latency_ns < min_delay_ns ctrl
             then write_drop_tid global_tid
                    (write_count env (\<lambda>c. c\<lparr>filtered_delay := filtered_delay c + 1\<rparr>) s1)
             else if \<not> env_reserve_ok env
             then write_drop_tid global_tid
                    (write_count env (\<lambda>c. c\<lparr>ringbuf_dropped := ringbuf_dropped c + 1\<rparr>) s1)
             else let
               s2 = s1\<lparr>rb := rb s1 @ [write_event_of env entry ret]\<rparr>;
               s3 = write_count env (\<lambda>c. c\<lparr>submitted := submitted c + 1\<rparr>) s2
             in write_drop_tid global_tid s3))"

text \<open>A firing of one of the two probes.\<close>

datatype write_firing = Enter bpf_env fdmem write_args | Exit bpf_env s64

fun write_step :: "write_firing \<Rightarrow> Write_state \<Rightarrow> Write_state" where
  "write_step (Enter env fm args) s = write_entry env fm args s"
| "write_step (Exit env ret) s = write_exit env ret s"

subsection \<open>The summary at exit\<close>

definition write_zero :: Write_stats where
  "write_zero = \<lparr>attempted = 0, completed = 0, submitted = 0, failed = 0, filtered_pid = 0,
     filtered_self = 0, filtered_delay = 0, ringbuf_dropped = 0, map_update_failed = 0,
     lookup_missed = 0, path_lookup_failed = 0, total_ns = 0, max_ns = 0, max_pid = 0,
     max_comm = ''''\<rparr>"

definition write_merge :: "Write_stats \<Rightarrow> Write_stats \<Rightarrow> Write_stats" where
  "write_merge tot value = (let
     t1 = tot\<lparr>attempted := attempted tot + attempted value,
            completed := completed tot + completed value,
            submitted := submitted tot + submitted value,
            failed := failed tot + failed value,
            filtered_pid := filtered_pid tot + filtered_pid value,
            filtered_self := filtered_self tot + filtered_self value,
            filtered_delay := filtered_delay tot + filtered_delay value,
            ringbuf_dropped := ringbuf_dropped tot + ringbuf_dropped value,
            map_update_failed := map_update_failed tot + map_update_failed value,
            lookup_missed := lookup_missed tot + lookup_missed value,
            path_lookup_failed := path_lookup_failed tot + path_lookup_failed value,
            total_ns := total_ns tot + total_ns value\<rparr>
     in if max_ns value > max_ns t1
        then t1\<lparr>max_ns := max_ns value, max_pid := max_pid value, max_comm := max_comm value\<rparr>
        else t1)"

text \<open>The panel: the merged statistics, and the average when some call completed.\<close>

record Write_panel =
  panel_stats :: Write_stats
  panel_avg :: "u64 option"

definition write_print_stats ::
  "int \<Rightarrow> bool \<Rightarrow> Write_stats list option \<Rightarrow> Write_panel option" where
  "write_print_stats ncpus alloc_ok values =
     (if ncpus \<le> 0 \<or> \<not> alloc_ok then None
      else case values of None \<Rightarrow> None
      | Some vs \<Rightarrow>
        let tot = foldl write_merge write_zero (take (nat ncpus) vs) in
        if attempted tot = 0 \<and> filtered_pid tot = 0 then None
        else Some \<lparr>panel_stats = tot,
          panel_avg = (if completed tot \<noteq> 0 then Some (total_ns tot div completed tot)
                       else None)\<rparr>)"

subsection \<open>The run function\<close>

text \<open>
  The configuration \<open>write_run\<close> builds from its arguments, and \<open>write_run\<close> itself over the calls it makes.
\<close>

definition write_ctrl_of :: "bool \<Rightarrow> s32 \<Rightarrow> u64 \<Rightarrow> s32 \<Rightarrow> u64 \<Rightarrow> u64 \<Rightarrow> Write_ctrl" where
  "write_ctrl_of en pid delay self dev ino =
     \<lparr>enable = en, min_delay_ns = delay, target_pid = pid, self_pid = self, pid_ns_dev = dev, pid_ns_ino = ino\<rparr>"

definition write_run ::
    "s32 \<Rightarrow> bool \<Rightarrow> s32 \<Rightarrow> u64 \<Rightarrow> run_env \<Rightarrow> (int \<times> Write_ctrl action list) option" where
  "write_run timeout en pid delay e =
     run_module (\<lambda>_. 1) (\<lambda>err. err \<noteq> 0) neg_or_zero (write_ctrl_of en pid delay (re_getpid e)) timeout e"

subsection \<open>The line of an event\<close>

text \<open>
  \<open>handle_event\<close>: a record shorter than the structure is reported on \<^verbatim>\<open>stderr\<close>. \<^verbatim>\<open>strerror\<close> is an argument,
  its texts depend on the locale.
\<close>

definition WRITE_EVENT_SIZE :: nat where
  "WRITE_EVENT_SIZE = 320"

definition write_handle_event :: "(int \<Rightarrow> string) \<Rightarrow> nat \<Rightarrow> wall \<Rightarrow> Write_event \<Rightarrow> out_call list" where
  "write_handle_event strerror data_sz now event =
     (if data_sz < WRITE_EVENT_SIZE
      then eprintf (''write ''
        @ utf8 [0xE4, 0xBA, 0x8B, 0xE4, 0xBB, 0xB6, 0xE9, 0x95, 0xBF, 0xE5, 0xBA, 0xA6, 0xE5, 0xBC, 0x82, 0xE5, 0xB8, 0xB8]
        @ '': '' @ decimal data_sz @ '' < '' @ decimal WRITE_EVENT_SIZE @ endl)
      else log_output_lock
        @ LOG now (''PID='' @ ljust 6 (fmt_d (ev_pid event)) @ '' TID='' @ ljust 6 (fmt_d (ev_tid event))
            @ '' FD='' @ ljust 4 (fmt_d (ev_fd event)) @ '' REQ='' @ ljust 8 (fmt_u (ev_requested_count event))
            @ '' WROTE='' @ ljust 8 (fmt_d (ev_bytes_written event)) @ '' '' @ ljust 16 (ev_comm event) @ '' ''
            @ (if ev_path_name event \<noteq> [] then ev_path_name event else ''(unknown)'') @ '' | '')
        @ (if sint (ev_bytes_written event) < 0
           then printf (''ERR='' @ strerror (sint (ucast (- ev_bytes_written event) :: s32)) @ '' | '') else [])
        @ log_col_ns (ev_latency_ns event) 10000 100000
        @ printf endl
        @ log_output_unlock)"

section \<open>Lemmas\<close>

interpretation write_runner: quiet_runner "\<lambda>err. err \<noteq> 0" neg_or_zero "\<lambda>_. 1"
  by unfold_locales (simp_all add: neg_or_zero_simps)

text \<open>The ids of the thread a firing is for, and what a firing opens, closes and reports.\<close>

definition write_ids :: "Write_ctrl \<Rightarrow> bpf_env \<Rightarrow> u64" where
  "write_ids c env = app_current_pid_tgid_ns env (pid_ns_dev c) (pid_ns_ino c)"

definition write_traced :: "Write_ctrl \<Rightarrow> s32 \<Rightarrow> bool" where
  "write_traced c pid \<longleftrightarrow> (self_pid c = 0 \<or> pid \<noteq> self_pid c) \<and> (target_pid c = 0 \<or> pid = target_pid c)"

fun write_starts :: "Write_ctrl \<Rightarrow> write_firing \<Rightarrow> (u32 \<times> write_entry_data) option" where
  "write_starts c (Enter env fm args) =
     (if enable c \<and> write_ids c env \<noteq> 0 \<and> write_traced c (hi32 (write_ids c env)) \<and> env_update_ok env
      then Some (lo32 (env_pid_tgid env), write_entry_of env fm args (write_ids c env)) else None)"
| "write_starts c (Exit env ret) = None"

fun write_closes :: "write_firing \<Rightarrow> u32 \<Rightarrow> bool" where
  "write_closes (Enter env fm args) k = False"
| "write_closes (Exit env ret) k = (k = lo32 (env_pid_tgid env))"

fun write_reports :: "Write_ctrl \<Rightarrow> write_firing \<Rightarrow> u32 \<Rightarrow> write_entry_data \<Rightarrow> Write_event option" where
  "write_reports c (Enter env fm args) k v = None"
| "write_reports c (Exit env ret) k v =
     (if enable c \<and> k = lo32 (env_pid_tgid env) \<and>
         (min_delay_ns c = 0 \<or> min_delay_ns c \<le> env_ktime env - en_enter_ts v) \<and> env_reserve_ok env
      then Some (write_event_of env v ret) else None)"

definition write_inv :: "Write_ctrl \<Rightarrow> Write_state \<Rightarrow> bool" where
  "write_inv c s \<longleftrightarrow> ctrl_map s = Some c \<and> map_wf INFLIGHT_WRITES_MAX (inflight_writes s) \<and>
     (enable c \<or> inflight_writes s = []) \<and> map_all (\<lambda>k v. write_traced c (en_pid v)) (inflight_writes s)"

definition write_init :: "Write_ctrl \<Rightarrow> nat \<Rightarrow> Write_state" where
  "write_init c ncpus =
     \<lparr>ctrl_map = Some c, stats_map = replicate ncpus write_zero, inflight_writes = [], rb = []\<rparr>"

lemma write_count_simps [simp]:
  "ctrl_map (write_count env f s) = ctrl_map s"
  "inflight_writes (write_count env f s) = inflight_writes s"
  "rb (write_count env f s) = rb s"
  "stats_map (write_count env f s) = percpu_upd (env_cpu env) f (stats_map s)"
  by (simp_all add: write_count_def)

lemma write_drop_tid_simps [simp]:
  "ctrl_map (write_drop_tid k s) = ctrl_map s"
  "inflight_writes (write_drop_tid k s) = bpf_delete k (inflight_writes s)"
  "rb (write_drop_tid k s) = rb s"
  "stats_map (write_drop_tid k s) = stats_map s"
  by (simp_all add: write_drop_tid_def)

lemma write_entry_of_simps [simp]:
  "en_pid (write_entry_of env fm args p) = hi32 p"
  "en_tid (write_entry_of env fm args p) = lo32 p"
  "en_enter_ts (write_entry_of env fm args p) = env_ktime env"
  by (simp_all add: write_entry_of_def)

lemma write_exit_stats_simps [simp]:
  "completed (write_exit_stats v l r c) = completed c + 1"
  "attempted (write_exit_stats v l r c) = attempted c"
  "submitted (write_exit_stats v l r c) = submitted c"
  "filtered_delay (write_exit_stats v l r c) = filtered_delay c"
  "ringbuf_dropped (write_exit_stats v l r c) = ringbuf_dropped c"
  "map_update_failed (write_exit_stats v l r c) = map_update_failed c"
  by (simp_all add: write_exit_stats_def Let_def)

lemmas write_handler_defs = write_entry_def write_exit_def Let_def write_ids_def [symmetric]

text \<open>What one firing does to the control block, the map and the ring buffer.\<close>

lemma write_entry_ctrl [simp]: "ctrl_map (write_entry env fm args s) = ctrl_map s"
  by (auto simp: write_handler_defs split: option.split)

lemma write_exit_ctrl [simp]: "ctrl_map (write_exit env ret s) = ctrl_map s"
  by (auto simp: write_handler_defs split: option.split)

lemma write_entry_tab:
  assumes "ctrl_map s = Some c"
  shows "inflight_writes (write_entry env fm args s) =
    (case write_starts c (Enter env fm args) of None \<Rightarrow> inflight_writes s
     | Some (k, v) \<Rightarrow>
         map_or_same (hash_update INFLIGHT_WRITES_MAX True k v (inflight_writes s)) (inflight_writes s))"
  by (cases "env_update_ok env")
    (auto simp: assms write_handler_defs write_traced_def split: option.split)

lemma write_exit_tab:
  "inflight_writes (write_exit env ret s) = bpf_delete (lo32 (env_pid_tgid env)) (inflight_writes s)"
  by (cases "map_of (inflight_writes s) (lo32 (env_pid_tgid env))")
    (simp_all add: write_handler_defs split: option.split)

lemma write_entry_rb: "rb (write_entry env fm args s) = rb s"
  by (simp add: write_handler_defs split: option.split)

lemma write_exit_rb:
  assumes "ctrl_map s = Some c"
  shows "rb (write_exit env ret s) = rb s @
    reported (write_reports c (Exit env ret) (lo32 (env_pid_tgid env))) (inflight_writes s)
      (lo32 (env_pid_tgid env))"
  by (cases "map_of (inflight_writes s) (lo32 (env_pid_tgid env))")
    (auto simp: assms write_handler_defs)

lemma write_step_inv: "write_inv c s \<Longrightarrow> write_inv c (write_step e s)"
  by (cases e)
    (auto simp: write_inv_def write_entry_tab write_exit_tab hash.map_or_same_wf hash.upd_all
      delete_map_wf map_all_delete split: option.split)

lemma write_inv_init: "write_inv c (write_init c n)"
  by (simp add: write_inv_def write_init_def)

lemma write_step_tab:
  assumes "write_inv c s" and "map_of (inflight_writes (write_step e s)) k = Some v"
  shows "write_starts c e = Some (k, v) \<or>
    (map_of (inflight_writes s) k = Some v \<and> \<not> write_closes e k \<and>
     (\<forall>v'. write_starts c e \<noteq> Some (k, v')))"
proof (cases e)
  case (Enter env fm args)
  then show ?thesis
    using assms hash.upd_opened [of INFLIGHT_WRITES_MAX "inflight_writes s" True _ _ k v]
    by (auto simp: write_inv_def write_entry_tab hash_update_None split: if_splits)
next
  case (Exit env ret)
  then show ?thesis using assms by (auto simp: write_inv_def write_exit_tab split: if_splits)
qed

lemma write_step_rb:
  assumes "write_inv c s" and "x \<in> set (rb (write_step e s))"
  shows "x \<in> set (rb s) \<or>
    (\<exists>k v. map_of (inflight_writes s) k = Some v \<and> write_reports c e k v = Some x)"
proof (cases e)
  case (Exit env ret)
  then show ?thesis using assms
    by (simp add: write_inv_def write_exit_rb in_reported del: write_reports.simps) blast
qed (use assms in \<open>simp add: write_entry_rb\<close>)

interpretation write_pair: paired_monitor write_step "\<lambda>_ _. True" "write_inv c" inflight_writes rb
  "write_starts c" write_closes "write_reports c" for c
  by unfold_locales (use write_step_inv write_step_tab write_step_rb in blast)+

text \<open>The balance of the counters of one CPU.\<close>

definition write_bal :: "Write_stats \<Rightarrow> u64" where
  "write_bal c = completed c - submitted c - filtered_delay c - ringbuf_dropped c"

lemma write_entry_bal: "map write_bal (stats_map (write_entry env fm args s)) = map write_bal (stats_map s)"
  by (auto simp: write_handler_defs write_bal_def intro!: map_percpu_upd split: option.split)

lemma write_exit_bal: "map write_bal (stats_map (write_exit env ret s)) = map write_bal (stats_map s)"
  by (auto simp: write_handler_defs write_bal_def intro!: map_percpu_upd split: option.split)

interpretation write_mon: balanced_monitor write_step "\<lambda>_ _. True" "write_inv c" stats_map write_bal for c
proof unfold_locales
  fix s e show "map write_bal (stats_map (write_step e s)) = map write_bal (stats_map s)"
    by (cases e) (simp_all add: write_entry_bal write_exit_bal)
qed

text \<open>
  Calls in flight. A firing is regular when its CPU is one of the possible CPUs and an enter
  does not come from a thread that is already inside the call.
\<close>

fun write_regular :: "write_firing \<Rightarrow> Write_state \<Rightarrow> bool" where
  "write_regular (Enter env fm args) s = (env_cpu env < length (stats_map s) \<and>
     map_of (inflight_writes s) (lo32 (env_pid_tgid env)) = None)"
| "write_regular (Exit env ret) s = (env_cpu env < length (stats_map s))"

definition write_flow :: "Write_stats \<Rightarrow> u64" where
  "write_flow c = attempted c - completed c - map_update_failed c"

definition write_quantity :: "Write_state \<Rightarrow> u64" where
  "write_quantity s = sum_list (map write_flow (stats_map s)) - of_nat (length (inflight_writes s))"

lemma write_entry_quantity:
  assumes "write_inv c s" and "write_regular (Enter env fm args) s"
  shows "write_quantity (write_entry env fm args s) = write_quantity s"
proof -
  let ?u = "hash_update INFLIGHT_WRITES_MAX (env_update_ok env) (lo32 (env_pid_tgid env))
    (write_entry_of env fm args (write_ids c env)) (inflight_writes s)"
  have l: "length m' = Suc (length (inflight_writes s))" if "?u = Some m'" for m'
    using hash.upd_size [OF _ that] assms by (simp add: write_inv_def)
  show ?thesis using assms l
    by (cases ?u) (auto simp: write_inv_def write_handler_defs write_quantity_def write_flow_def
        sum_percpu_rules algebra_simps)
qed

lemma write_exit_quantity:
  assumes "write_inv c s" and "write_regular (Exit env ret) s"
  shows "write_quantity (write_exit env ret s) = write_quantity s"
proof (cases "map_of (inflight_writes s) (lo32 (env_pid_tgid env))")
  case None
  then show ?thesis using assms
    by (auto simp: write_inv_def write_handler_defs write_quantity_def write_flow_def sum_percpu_rules)
next
  case (Some v)
  have l: "length (inflight_writes s) =
      Suc (length (bpf_delete (lo32 (env_pid_tgid env)) (inflight_writes s)))"
    using length_delete_present [of "inflight_writes s" "lo32 (env_pid_tgid env)"] assms Some
    by (simp add: write_inv_def map_wf_def)
  show ?thesis using assms Some
    by (auto simp: write_inv_def write_handler_defs write_quantity_def write_flow_def
        sum_percpu_rules algebra_simps l)
qed

interpretation write_cons: conserved_monitor write_step write_regular "write_inv c" write_quantity for c
proof unfold_locales
  fix s e assume "write_inv c s" "write_regular e s"
  then show "write_quantity (write_step e s) = write_quantity s"
    by (cases e) (simp_all add: write_entry_quantity write_exit_quantity)
qed (simp add: write_step_inv)

interpretation write_rep: percpu_report write_zero write_merge
  "{attempted, completed, submitted, failed, filtered_pid, filtered_self, filtered_delay,
    ringbuf_dropped, map_update_failed, lookup_missed, path_lookup_failed, total_ns}"
  max_ns "\<lambda>c. (max_pid c, max_comm c)"
  by unfold_locales (auto simp: write_zero_def write_merge_def Let_def max_def)

lemma write_init_bal: "\<forall>v \<in> set (stats_map (write_init c n)). write_bal v = 0"
  by (auto simp: write_init_def write_bal_def write_zero_def)

lemma write_run_bal:
  assumes "v \<in> set (stats_map (fold write_step tr (write_init c n)))"
  shows "completed v = submitted v + filtered_delay v + ringbuf_dropped v"
  using write_mon.run_bal_zero [OF admissible_True write_inv_init write_init_bal assms]
  by (simp add: write_bal_def algebra_simps)

text \<open>The merge inherits the balance of the copies.\<close>

lemma write_merge_bal:
  assumes "\<forall>v \<in> set vs. completed v = submitted v + filtered_delay v + ringbuf_dropped v"
  defines "t \<equiv> foldl write_merge write_zero vs"
  shows "completed t = submitted t + filtered_delay t + ringbuf_dropped t"
proof -
  have "sum_list (map completed vs) = sum_list (map submitted vs) +
      sum_list (map filtered_delay vs) + sum_list (map ringbuf_dropped vs)"
    using assms(1) by (induction vs) (auto simp: algebra_simps)
  then show ?thesis by (simp add: t_def write_rep.report_counter)
qed

definition write_demo_ctrl :: Write_ctrl where
  "write_demo_ctrl = \<lparr>enable = True, min_delay_ns = 3, target_pid = 0, self_pid = 9, pid_ns_dev = 1,
     pid_ns_ino = 4\<rparr>"

definition write_demo_run :: "write_firing list" where
  "write_demo_run =
     [Enter (calm_env 0 10 7 8) demo_fdmem \<lparr>arg_fd = 3, arg_count = 100\<rparr>,
      Enter (calm_env 1 11 9 9) demo_fdmem \<lparr>arg_fd = 3, arg_count = 100\<rparr>,
      Exit (calm_env 1 25 7 8) 50]"

lemmas write_demo_defs = write_demo_ctrl_def write_demo_run_def write_init_def write_handler_defs
  write_ids_def write_count_def write_drop_tid_def percpu_upd_def write_entry_of_def probe_read_str_def
  FS_WRITE_PATH_SIZE_def INFLIGHT_WRITES_MAX_def hash_update_def bpf_delete_def write_event_of_def
  write_exit_stats_def write_zero_def write_fill_name_from_fd_def demo_fdmem_def

lemma write_demo_rb: "rb (fold write_step write_demo_run (write_init write_demo_ctrl 2)) =
  [\<lparr>ev_pid = 7, ev_tid = 8, ev_fd = 3, ev_requested_count = 100, ev_bytes_written = 50,
    ev_timestamp_ns = 25, ev_latency_ns = 15, ev_path_name = ''log'', ev_comm = ''demo''\<rparr>]"
  by (simp add: write_demo_defs)

interpretation write_lines: whole_printer "\<lambda>(sz, now, e). write_handle_event strerror sz now e"
  "\<lambda>(sz, now, e). printable (ev_comm e) \<and> printable (ev_path_name e)
     \<and> printable (strerror (sint (ucast (- ev_bytes_written e) :: s32)))" for strerror
  by unfold_locales (auto simp: write_handle_event_def line_simps split: if_splits)

text \<open>The key of the call a firing ends; with room in the map the module reports exactly the calls of the specification.\<close>

fun write_ends :: "write_firing \<Rightarrow> u32 option" where
  "write_ends (Enter env fm args) = None"
| "write_ends (Exit env ret) = Some (lo32 (env_pid_tgid env))"

lemma write_step_calls:
  assumes "write_inv c s" and "hash_fits INFLIGHT_WRITES_MAX (inflight_writes s) (write_starts c e)"
  shows "(map_of (inflight_writes (write_step e s)), rb (write_step e s)) =
    call_step (write_starts c) write_ends (write_reports c) e (map_of (inflight_writes s), rb s)"
  using assms
  by (cases e) (auto simp: write_inv_def write_entry_tab write_entry_rb write_exit_tab write_exit_rb
      hash_fits_update call_step_def reported_def split: option.split)

interpretation write_calls: call_monitor write_step
  "\<lambda>e s. hash_fits INFLIGHT_WRITES_MAX (inflight_writes s) (write_starts c e)"
  "write_inv c" inflight_writes rb "write_starts c" write_ends "write_reports c" for c
  by unfold_locales (simp_all add: write_step_inv write_step_calls)

text \<open>Every event passed the filters of the configuration.\<close>

lemma write_filtered:
  assumes "x \<in> set (rb (fold write_step tr (write_init c n)))"
  shows "enable c \<and> min_delay_ns c \<le> ev_latency_ns x \<and> (target_pid c = 0 \<or> ev_pid x = target_pid c)"
  using assms
  by (rule write_pair.reported_all [OF _ admissible_True write_inv_init])
     (auto simp: write_init_def write_event_of_def write_traced_def elim!: write_starts.elims write_reports.elims split: if_splits)

section \<open>Properties\<close>

text \<open>
  Every event user space receives is the report of one \<open>write\<close> call: an enter and a later exit of
  the same kernel thread, with no exit and no recorded enter of that thread between them. The
  latency is the difference of the clock readings and at least the threshold, the byte count is
  the call's return value, and the call is never one of the tool's own and always of
  the target process when one is set.
\<close>

lemma write_reported_call:
  assumes "x \<in> set (rb (fold write_step tr (write_init c n)))"
  shows "\<exists>pre env1 fm args mid env2 ret post.
    tr = pre @ Enter env1 fm args # mid @ Exit env2 ret # post \<and>
    lo32 (env_pid_tgid env1) = lo32 (env_pid_tgid env2) \<and>
    x = write_event_of env2 (write_entry_of env1 fm args (write_ids c env1)) ret \<and>
    ev_latency_ns x = env_ktime env2 - env_ktime env1 \<and>
    min_delay_ns c \<le> ev_latency_ns x \<and> ev_bytes_written x = ret \<and>
    enable c \<and> (target_pid c = 0 \<or> ev_pid x = target_pid c) \<and>
    (self_pid c = 0 \<or> ev_pid x \<noteq> self_pid c) \<and>
    (\<forall>e \<in> set mid. \<not> write_closes e (lo32 (env_pid_tgid env1)) \<and>
       (\<forall>v. write_starts c e \<noteq> Some (lo32 (env_pid_tgid env1), v)))"
proof -
  obtain pre e1 mid e2 post k v where t: "tr = pre @ e1 # mid @ e2 # post"
    and s: "write_starts c e1 = Some (k, v)" and r: "write_reports c e2 k v = Some x"
    and m: "\<forall>e \<in> set mid. \<not> write_closes e k \<and> (\<forall>v'. write_starts c e \<noteq> Some (k, v'))"
    using write_pair.reported_pair [OF admissible_True write_inv_init _ _ assms]
    by (auto simp: write_init_def)
  obtain env1 fm args where e1: "e1 = Enter env1 fm args" using s by (cases e1) auto
  obtain env2 ret where e2: "e2 = Exit env2 ret" using r by (cases e2) auto
  have v: "v = write_entry_of env1 fm args (write_ids c env1)" "k = lo32 (env_pid_tgid env1)"
    "write_traced c (en_pid v)"
    using s e1 by (auto split: if_splits)
  have x: "x = write_event_of env2 v ret" "k = lo32 (env_pid_tgid env2)" "enable c"
    "min_delay_ns c = 0 \<or> min_delay_ns c \<le> env_ktime env2 - en_enter_ts v"
    using r e2 by (auto split: if_splits)
  have f: "ev_latency_ns x = env_ktime env2 - env_ktime env1" "ev_pid x = en_pid v" "ev_bytes_written x = ret"
    using v x by (simp_all add: write_event_of_def)
  have p: "tr = pre @ Enter env1 fm args # mid @ Exit env2 ret # post" using t e1 e2 by simp
  have d: "min_delay_ns c \<le> ev_latency_ns x" using x(4) v(1) f(1) by auto
  have q: "(target_pid c = 0 \<or> ev_pid x = target_pid c) \<and> (self_pid c = 0 \<or> ev_pid x \<noteq> self_pid c)"
    using v(3) f(2) by (simp add: write_traced_def)
  show ?thesis
    by (intro exI conjI, rule p) (use v x f d q m in simp_all)
qed

text \<open>
  the accounting of a run. On every CPU each completed call was submitted, filtered by the
  threshold or dropped; and when no thread enters again before its previous call has left
  the map, the calls attempted are the calls completed, plus those whose context could not be
  stored, plus the at most 10240 still in flight.
\<close>

lemma write_accounting:
  assumes "admissible write_regular write_step tr (write_init c n)"
  defines "s \<equiv> fold write_step tr (write_init c n)"
  shows "list_all (\<lambda>v. completed v = submitted v + filtered_delay v + ringbuf_dropped v) (stats_map s) \<and>
    sum_list (map attempted (stats_map s)) =
      sum_list (map completed (stats_map s)) + sum_list (map map_update_failed (stats_map s)) +
      of_nat (length (inflight_writes s)) \<and> length (inflight_writes s) \<le> 10240"
proof -
  have "write_quantity s = 0"
    using write_cons.run_quantity [OF assms(1) write_inv_init]
    by (simp add: s_def write_quantity_def write_init_def write_flow_def write_zero_def sum_list_replicate)
  moreover have "write_inv c s"
    using write_cons.run_inv [OF assms(1) write_inv_init] by (simp add: s_def)
  ultimately show ?thesis
    using write_run_bal
    by (simp add: write_quantity_def write_flow_def [abs_def] sum_list_map_diff write_inv_def list_all_iff
        map_wf_def INFLIGHT_WRITES_MAX_def algebra_simps sum_list_addf s_def)
qed

text \<open>
  A descriptor is named exactly when every step of the kernel walk succeeds, and the name is then a
  prefix of the file's name that fits the buffer with its terminator; a negative descriptor
  and one beyond the table never touch the descriptor array.
\<close>

lemma write_fill_name_result:
  "(fst (write_fill_name_from_fd fm fd n) = 0 \<or> fst (write_fill_name_from_fd fm fd n) = - 1) \<and>
   (fst (write_fill_name_from_fd fm fd n) = 0 \<longleftrightarrow>
     (\<exists>filp str. 0 < n \<and> 0 \<le> sint fd \<and> fm_task fm \<noteq> 0 \<and> fm_files fm (fm_task fm) \<noteq> 0 \<and>
       fm_fdt fm (fm_files fm (fm_task fm)) \<noteq> 0 \<and>
       fd < fm_max_fds fm (fm_fdt fm (fm_files fm (fm_task fm))) \<and>
       fm_fd fm (fm_fdt fm (fm_files fm (fm_task fm))) \<noteq> 0 \<and>
       fm_slot fm (fm_fd fm (fm_fdt fm (fm_files fm (fm_task fm)))) (unat fd) = Some filp \<and>
       filp \<noteq> 0 \<and> fm_dentry fm filp \<noteq> 0 \<and> fst (fm_d_name fm (fm_dentry fm filp)) \<noteq> 0 \<and>
       snd (fm_d_name fm (fm_dentry fm filp)) \<noteq> 0 \<and>
       fm_str fm (fst (fm_d_name fm (fm_dentry fm filp))) = Some str \<and>
       snd (write_fill_name_from_fd fm fd n) = take (nat n - 1) str))"
  by (auto simp: write_fill_name_from_fd_def Let_def probe_read_str_def not_le not_less
      split: option.split prod.split)

text \<open>
  the summary printed at exit adds up. After any run, when the panel appears its completed calls
  are its submitted, filtered and dropped ones, the average is the total time over the completed
  calls, and a nonzero maximum is shown with the process and name of a CPU that saw it, no CPU
  having seen a longer call.
\<close>

lemma write_panel_true:
  assumes "write_print_stats (int n) True (Some (stats_map (fold write_step tr (write_init c n)))) = Some p"
  defines "vs \<equiv> take n (stats_map (fold write_step tr (write_init c n)))"
  shows "completed (panel_stats p) = submitted (panel_stats p) + filtered_delay (panel_stats p) +
      ringbuf_dropped (panel_stats p) \<and>
    (completed (panel_stats p) \<noteq> 0 \<longrightarrow>
      panel_avg p = Some (sum_list (map total_ns vs) div sum_list (map completed vs))) \<and>
    (\<forall>v \<in> set vs. max_ns v \<le> max_ns (panel_stats p)) \<and>
    (max_ns (panel_stats p) \<noteq> 0 \<longrightarrow>
      (\<exists>v \<in> set vs. max_ns (panel_stats p) = max_ns v \<and> max_pid (panel_stats p) = max_pid v \<and>
        max_comm (panel_stats p) = max_comm v))"
proof -
  let ?m = "foldl write_merge write_zero vs"
  have p: "panel_stats p = ?m"
    "panel_avg p = (if completed ?m \<noteq> 0 then Some (total_ns ?m div completed ?m) else None)"
    using assms(1) by (auto simp: write_print_stats_def vs_def Let_def split: if_splits)
  have b: "\<forall>v \<in> set vs. completed v = submitted v + filtered_delay v + ringbuf_dropped v"
    using write_run_bal by (auto simp: vs_def dest!: in_set_takeD)
  show ?thesis unfolding p
    using write_merge_bal [OF b] write_rep.report_counter [of completed]
      write_rep.report_counter [of total_ns] write_rep.report_mx_ge [of _ vs write_zero]
      write_rep.report_source [of vs] by auto
qed

end
