(* ===== verification/StatRace.thy ===== *)
theory StatRace
  imports Prelude
begin

section \<open>Statistics shared by all CPUs\<close>

text \<open>
  Three modules keep one record of statistics for all CPUs in an array map and update it with plain
  C statements: \<open>st->count++\<close> is a load and a store, and \<open>if (d > st->max_ns) st->max_ns = d\<close> a load, a test and a
  store. Probes on two CPUs can interleave between these accesses. Here an update is the list of its accesses, with the register
  of its CPU, and CPUs take turns access by access.
\<close>

datatype 'c access = Read_field "'c \<Rightarrow> u64" | Write_field "u64 \<Rightarrow> 'c \<Rightarrow> 'c" | Skip_unless "u64 \<Rightarrow> bool"

type_synonym 'c update = "u64 \<times> 'c access list"

fun do_access :: "'c access \<Rightarrow> 'c update \<Rightarrow> 'c \<Rightarrow> 'c update \<times> 'c" where
  "do_access (Read_field g) (r, p) c = ((g c, p), c)"
| "do_access (Write_field f) (r, p) c = ((r, p), f r c)"
| "do_access (Skip_unless q) (r, p) c = ((r, if q r then p else []), c)"

inductive stat_step :: "'c update list \<times> 'c \<Rightarrow> 'c update list \<times> 'c \<Rightarrow> bool" where
  access: "i < length us \<Longrightarrow> us ! i = (r, a # p) \<Longrightarrow> do_access a (r, p) c = (u, c') \<Longrightarrow>
    stat_step (us, c) (us[i := u], c')"

inductive stat_reaches :: "'c update list \<times> 'c \<Rightarrow> 'c update list \<times> 'c \<Rightarrow> bool" where
  refl: "stat_reaches s s"
| step: "stat_reaches s t \<Longrightarrow> stat_step t u \<Longrightarrow> stat_reaches s u"

inductive_cases stat_stepE: "stat_step s t"

definition all_idle :: "'c update list \<Rightarrow> bool" where
  "all_idle us \<longleftrightarrow> list_all (\<lambda>u. snd u = []) us"

text \<open>An update that nobody interrupts, and an interleaving given by the CPUs in turn.\<close>

fun run_alone :: "u64 \<Rightarrow> 'c access list \<Rightarrow> 'c \<Rightarrow> 'c" where
  "run_alone r [] c = c"
| "run_alone r (Read_field g # p) c = run_alone (g c) p c"
| "run_alone r (Write_field f # p) c = run_alone r p (f r c)"
| "run_alone r (Skip_unless q # p) c = (if q r then run_alone r p c else c)"

fun run_turns :: "nat list \<Rightarrow> 'c update list \<times> 'c \<Rightarrow> 'c update list \<times> 'c" where
  "run_turns [] s = s"
| "run_turns (i # is) (us, c) =
     (if i < length us
      then (case us ! i of (r, []) \<Rightarrow> run_turns is (us, c)
            | (r, a # p) \<Rightarrow> (case do_access a (r, p) c of (u, c') \<Rightarrow> run_turns is (us[i := u], c')))
      else run_turns is (us, c))"

section \<open>Lemmas\<close>

lemma stat_reaches_trans: "stat_reaches t u \<Longrightarrow> stat_reaches s t \<Longrightarrow> stat_reaches s u"
  by (induction rule: stat_reaches.induct) (auto intro: stat_reaches.intros)

lemma run_turns_reaches: "stat_reaches s (run_turns is s)"
proof (induction "is" s rule: run_turns.induct)
  case (2 i "is" us c)
  show ?case
  proof (cases "i < length us")
    case True
    obtain r p where u: "us ! i = (r, p)" by (cases "us ! i")
    show ?thesis
    proof (cases p)
      case Nil
      then show ?thesis using 2(1) True u by simp
    next
      case (Cons a q)
      obtain u' c' where d: "do_access a (r, q) c = (u', c')" by (cases "do_access a (r, q) c")
      have "stat_step (us, c) (us[i := u'], c')" using True u Cons d by (auto intro: stat_step.access)
      then have "stat_reaches (us, c) (us[i := u'], c')" by (rule stat_reaches.step [OF stat_reaches.refl])
      moreover have "stat_reaches (us[i := u'], c') (run_turns is (us[i := u'], c'))"
        using 2(2) [OF True] u Cons d by simp
      ultimately show ?thesis using True u Cons d stat_reaches_trans by simp
    qed
  qed (use 2(3) in simp)
qed (simp add: stat_reaches.refl)

text \<open>A CPU that runs its update without interruption has the effect of the update as one step.\<close>

lemma alone_reaches:
  "i < length us \<Longrightarrow> us ! i = (r, p) \<Longrightarrow> \<exists>r'. stat_reaches (us, c) (us[i := (r', [])], run_alone r p c)"
proof (induction r p c arbitrary: us rule: run_alone.induct)
  case (1 r c)
  then have "us[i := (r, [])] = us" by (metis list_update_id)
  then show ?case using stat_reaches.refl [of "(us, c)"] by (intro exI [of _ r]) simp
next
  case (2 r g p c)
  let ?us = "us[i := (g c, p)]"
  have "stat_step (us, c) (?us, c)" using 2(2,3) stat_step.access [of i us r "Read_field g" p c] by simp
  moreover obtain r' where "stat_reaches (?us, c) (?us[i := (r', [])], run_alone (g c) p c)"
    using 2(1) [of ?us] 2(2) by auto
  ultimately show ?case using stat_reaches_trans stat_reaches.step [OF stat_reaches.refl] by fastforce
next
  case (3 r f p c)
  let ?us = "us[i := (r, p)]"
  have "stat_step (us, c) (?us, f r c)" using 3(2,3) stat_step.access [of i us r "Write_field f" p c] by simp
  moreover obtain r' where "stat_reaches (?us, f r c) (?us[i := (r', [])], run_alone r p (f r c))"
    using 3(1) [of ?us] 3(2) by auto
  ultimately show ?case using stat_reaches_trans stat_reaches.step [OF stat_reaches.refl] by fastforce
next
  case (4 r q p c)
  let ?us = "us[i := (r, if q r then p else [])]"
  have s: "stat_step (us, c) (?us, c)" using 4(2,3) stat_step.access [of i us r "Skip_unless q" p c] by simp
  show ?case
  proof (cases "q r")
    case True
    then obtain r' where "stat_reaches (?us, c) (?us[i := (r', [])], run_alone r p c)"
      using 4(1) [of ?us] 4(2) by auto
    then show ?thesis using True s stat_reaches_trans stat_reaches.step [OF stat_reaches.refl] by fastforce
  next
    case False
    then show ?thesis using s stat_reaches.step [OF stat_reaches.refl] by fastforce
  qed
qed

subsection \<open>What is left of the counters under any interleaving\<close>

text \<open>
  An update \<open>acc x\<close> for an event \<open>x\<close> begins with the increment of the counter; the later stores leave the counter
  alone.
\<close>

locale racy_summary =
  fixes acc :: "'x \<Rightarrow> 'c access list" and cnt :: "'c \<Rightarrow> u64"
    and inc :: "u64 \<Rightarrow> 'c \<Rightarrow> 'c" and others :: "'x \<Rightarrow> 'c access list"
  assumes acc_shape: "acc x = Read_field cnt # Write_field inc # others x"
    and inc_cnt: "cnt (inc r c) = r + 1"
    and others_cnt: "Write_field f \<in> set (others x) \<Longrightarrow> cnt (f r c) = cnt c"
begin

text \<open>The CPUs that have stored the counter, and where an update stands.\<close>

definition counted :: "'x list \<Rightarrow> 'c update list \<Rightarrow> nat set" where
  "counted xs us = {i. i < length xs \<and> length (snd (us ! i)) \<le> length (others (xs ! i))}"

definition stands :: "nat \<Rightarrow> 'x \<Rightarrow> 'c update \<Rightarrow> bool" where
  "stands k x u \<longleftrightarrow> snd u = acc x \<or> (snd u = Write_field inc # others x \<and> unat (fst u) \<le> k)
     \<or> (\<exists>d. snd u = drop d (others x))"

definition race_inv :: "'x list \<Rightarrow> 'c update list \<times> 'c \<Rightarrow> bool" where
  "race_inv xs s \<longleftrightarrow> (case s of (us, c) \<Rightarrow> length us = length xs
     \<and> (\<forall>i < length xs. stands (card (counted xs us)) (xs ! i) (us ! i))
     \<and> unat (cnt c) \<le> card (counted xs us) \<and> (counted xs us \<noteq> {} \<longrightarrow> 0 < unat (cnt c)))"

lemma counted_finite: "finite (counted xs us)"
  by (simp add: counted_def)

lemma counted_bound: "card (counted xs us) \<le> length xs"
  using card_mono [of "{..<length xs}" "counted xs us"] by (auto simp: counted_def)

lemma stands_mono: "stands k x u \<Longrightarrow> k \<le> k' \<Longrightarrow> stands k' x u"
  by (auto simp: stands_def)

lemma counted_update:
  assumes "length us = length xs" and "i < length xs"
  shows "counted xs (us[i := u]) =
    (if length (snd u) \<le> length (others (xs ! i)) then insert i (counted xs us) else counted xs us - {i})"
  using assms by (auto simp: counted_def nth_list_update split: if_splits)

lemma inv_start:
  assumes "cnt c = 0"
  shows "race_inv xs (map (\<lambda>x. (0, acc x)) xs, c)"
proof -
  have "counted xs (map (\<lambda>x. (0, acc x)) xs) = {}" by (auto simp: counted_def acc_shape)
  then show ?thesis using assms by (simp add: race_inv_def stands_def)
qed

lemma inv_moved:
  assumes inv: "race_inv xs (us, c)" and i: "i < length xs"
    and same: "counted xs (us[i := u]) = counted xs us" and st: "stands (card (counted xs us)) (xs ! i) u"
    and cnt: "cnt c' = cnt c"
  shows "race_inv xs (us[i := u], c')"
  using inv i st unfolding race_inv_def by (auto simp: same cnt nth_list_update)

lemma inv_counts:
  assumes inv: "race_inv xs (us, c)" and i: "i < length xs" and u: "us ! i = (r, Write_field inc # others (xs ! i))"
    and small: "length xs < 2 ^ 64"
  shows "race_inv xs (us[i := (r, others (xs ! i))], inc r c)"
proof -
  let ?k = "card (counted xs us)"
  have len: "length us = length xs" using inv by (simp add: race_inv_def)
  have new: "i \<notin> counted xs us" using u by (simp add: counted_def)
  have up: "counted xs (us[i := (r, others (xs ! i))]) = insert i (counted xs us)"
    using counted_update [OF len i] by simp
  have k: "card (insert i (counted xs us)) = Suc ?k" using new counted_finite by simp
  have "stands ?k (xs ! i) (us ! i)" using inv i by (simp add: race_inv_def)
  then have "unat r \<le> ?k" using u by (auto simp: stands_def acc_shape dest: arg_cong [where f = length])
  moreover have "Suc ?k \<le> length xs" using counted_bound [of xs "us[i := (r, others (xs ! i))]"] k up by simp
  ultimately have "Suc (unat r) < 2 ^ 64" using small by linarith
  then have r: "unat (cnt (inc r c)) = Suc (unat r)"
    using unat_of_nat_small [of "Suc (unat r)"] by (simp add: inc_cnt add.commute)
  have "stands (Suc ?k) (xs ! j) (us[i := (r, others (xs ! i))] ! j)" if "j < length xs" for j
  proof (cases "j = i")
    case True
    then show ?thesis using that len by (auto simp: stands_def intro: exI [of _ 0])
  next
    case False
    then show ?thesis using that inv stands_mono [of ?k _ _ "Suc ?k"] by (simp add: race_inv_def)
  qed
  then show ?thesis
    using inv \<open>unat r \<le> ?k\<close> r unfolding race_inv_def by (simp add: up k)
qed

lemma inv_step:
  assumes "race_inv xs s" and "stat_step s t" and "length xs < 2 ^ 64"
  shows "race_inv xs t"
  using assms(2)
proof (cases rule: stat_step.cases)
  case (access i us r a p c u c')
  have inv: "race_inv xs (us, c)" using assms(1) access by simp
  have len: "length us = length xs" using inv by (simp add: race_inv_def)
  have i: "i < length xs" using access len by simp
  have st: "stands (card (counted xs us)) (xs ! i) (r, a # p)"
    using inv i access(4) by (auto simp: race_inv_def dest!: spec [of _ i])
  have k: "unat (cnt c) \<le> card (counted xs us)" using inv by (simp add: race_inv_def)
  from st consider (start) "a = Read_field cnt" "p = Write_field inc # others (xs ! i)"
    | (store) "a = Write_field inc" "p = others (xs ! i)" "unat r \<le> card (counted xs us)"
    | (other) d where "a # p = drop d (others (xs ! i))"
    by (auto simp: stands_def acc_shape)
  then show ?thesis
  proof cases
    case start
    have "i \<notin> counted xs us" using access start by (simp add: counted_def)
    then show ?thesis
      using access start inv_moved [OF inv i, of u c'] counted_update [OF len i, of u] k by (auto simp: stands_def)
  next
    case store
    then show ?thesis using access inv_counts [OF inv i _ assms(3)] by auto
  next
    case (other d)
    have p: "p = drop (Suc d) (others (xs ! i))" using other by (metis drop_Suc list.sel(3) tl_drop)
    have a: "a \<in> set (others (xs ! i))" using other by (metis in_set_dropD list.set_intros(1))
    have le: "length (a # p) \<le> length (others (xs ! i))" using other by (metis diff_le_self length_drop)
    have "i \<in> counted xs us" using access i le by (simp add: counted_def)
    moreover have "snd u = p \<or> snd u = []" using access by (cases a) (auto split: if_splits)
    then have "stands (card (counted xs us)) (xs ! i) u" "length (snd u) \<le> length (others (xs ! i))"
      using p le by (auto simp: stands_def intro: exI [of _ "length (others (xs ! i))"])
    moreover have "cnt c' = cnt c"
    proof (cases a)
      case (Write_field f)
      then have "c' = f r c" using access(5) by simp
      then show ?thesis using Write_field a others_cnt [of f] by blast
    qed (use access(5) in auto)
    ultimately show ?thesis
      using access inv_moved [OF inv i, of u c'] counted_update [OF len i, of u] by (auto simp: insert_absorb)
  qed
qed

text \<open>
  When all CPUs are done, the counter is at least one and at most the number of events.
\<close>

lemma race_bounds:
  assumes "stat_reaches s0 (us, c)" and "s0 = (map (\<lambda>x. (0, acc x)) xs, c0)" and "cnt c0 = 0"
    and "length xs < 2 ^ 64" and "all_idle us"
  shows "unat (cnt c) \<le> length xs \<and> (xs \<noteq> [] \<longrightarrow> 0 < unat (cnt c))"
proof -
  have "race_inv xs t" if "stat_reaches s0 t" for t
    using that assms(2)
    by (induction rule: stat_reaches.induct) (auto simp: inv_start assms(3) intro: inv_step [OF _ _ assms(4)])
  then have inv: "race_inv xs (us, c)" using assms(1) by blast
  then have "counted xs us = {..<length xs}"
    using assms(5) by (auto simp: race_inv_def counted_def all_idle_def list_all_length)
  then show ?thesis using inv by (auto simp: race_inv_def lessThan_empty_iff)
qed

end

text \<open>
  The maximum: after accesses \<open>before x\<close> that leave it alone, the update reads the maximum, goes on only if the value of the event is larger,
  stores that value, and ends with accesses \<open>after x\<close> that leave the maximum alone again. The maximum may go down, for the value read
  may be old when the store is made, but it never goes back to 0, and no update ends before the maximum is some value.
\<close>

locale racy_maximum =
  fixes acc :: "'x \<Rightarrow> 'c access list" and mx :: "'c \<Rightarrow> u64" and val :: "'x \<Rightarrow> u64"
    and before :: "'x \<Rightarrow> 'c access list" and setm :: "'x \<Rightarrow> u64 \<Rightarrow> 'c \<Rightarrow> 'c" and after :: "'x \<Rightarrow> 'c access list"
  assumes acc_max: "acc x = before x @ Read_field mx # Skip_unless (\<lambda>r. r < val x) # Write_field (setm x) # after x"
    and setm_mx: "mx (setm x r c) = val x"
    and before_straight: "Skip_unless q \<notin> set (before x)"
    and keeps_mx: "Write_field f \<in> set (before x) \<union> set (after x) \<Longrightarrow> mx (f r c) = mx c"
begin

definition max_place :: "u64 \<Rightarrow> 'x \<Rightarrow> 'c update \<Rightarrow> bool" where
  "max_place m x u \<longleftrightarrow>
     (\<exists>d. snd u = drop d (before x) @ Read_field mx # Skip_unless (\<lambda>r. r < val x) # Write_field (setm x) # after x)
     \<or> (snd u = Skip_unless (\<lambda>r. r < val x) # Write_field (setm x) # after x \<and> (m = 0 \<longrightarrow> fst u = 0))
     \<or> (snd u = Write_field (setm x) # after x \<and> 0 < val x)
     \<or> ((\<exists>d. snd u = drop d (after x)) \<and> (m = 0 \<longrightarrow> val x = 0))"

definition max_inv :: "'x list \<Rightarrow> 'c update list \<times> 'c \<Rightarrow> bool" where
  "max_inv xs s \<longleftrightarrow> length (fst s) = length xs
     \<and> (\<forall>i < length xs. max_place (mx (snd s)) (xs ! i) (fst s ! i))
     \<and> (mx (snd s) = 0 \<or> mx (snd s) \<in> val ` set xs)"

lemma max_place_mono: "max_place m x u \<Longrightarrow> (m' = 0 \<Longrightarrow> m = 0) \<Longrightarrow> max_place m' x u"
  unfolding max_place_def by blast

lemma max_start: "mx c = 0 \<Longrightarrow> max_inv xs (map (\<lambda>x. (0, acc x)) xs, c)"
  by (auto simp: max_inv_def max_place_def acc_max intro: exI [of _ 0])

lemma max_access:
  assumes "max_place (mx c) x (r, a # p)" and "do_access a (r, p) c = (u, c')"
  shows "max_place (mx c') x u \<and> (mx c' = mx c \<or> (mx c' = val x \<and> 0 < val x))"
proof -
  have drop_next: "set zs \<supseteq> {z} \<and> zs' = drop (Suc d) zs" if "z # zs' = drop d zs" for z zs' d and zs :: "'c access list"
    using that by (metis drop_Suc empty_subsetI in_set_dropD insert_subset list.sel(3) list.set_intros(1) tl_drop)
  from assms(1) consider
      (before) d where "a # p = drop d (before x) @ Read_field mx # Skip_unless (\<lambda>r. r < val x) # Write_field (setm x) # after x"
    | (test) "a = Skip_unless (\<lambda>r. r < val x)" "p = Write_field (setm x) # after x" "mx c = 0 \<longrightarrow> r = 0"
    | (store) "a = Write_field (setm x)" "p = after x" "0 < val x"
    | (after) d where "a # p = drop d (after x)" "mx c = 0 \<longrightarrow> val x = 0"
    by (auto simp: max_place_def)
  then show ?thesis
  proof cases
    case before
    show ?thesis
    proof (cases "drop d (before x)")
      case Nil
      then show ?thesis using before assms(2) by (auto simp: max_place_def)
    next
      case (Cons b bs)
      have n: "b \<in> set (before x)" "bs = drop (Suc d) (before x)" using drop_next [OF Cons [symmetric]] by auto
      have a: "a = b" "p = bs @ Read_field mx # Skip_unless (\<lambda>r. r < val x) # Write_field (setm x) # after x"
        using before Cons by auto
      have "snd u = p \<and> mx c' = mx c"
        using assms(2) n(1) a(1) before_straight [of _ x] keeps_mx [of _ x] by (cases a) auto
      then show ?thesis using a(2) n(2) unfolding max_place_def by blast
    qed
  next
    case test
    show ?thesis
    proof (cases "r < val x")
      case True
      then have "0 < val x" using le_less_trans [of 0 r] by simp
      then show ?thesis using True test assms(2) by (auto simp: max_place_def)
    next
      case False
      have "[] = drop (length (after x)) (after x)" by simp
      moreover have "mx c = 0 \<longrightarrow> val x = 0" using False test(3) by (auto simp: word_gt_0)
      moreover have "u = (r, [])" "c' = c" using False test(1) assms(2) by auto
      ultimately show ?thesis unfolding max_place_def by (metis snd_conv)
    qed
  next
    case store
    then show ?thesis using assms(2) setm_mx [of x r c] by (auto simp: max_place_def intro: exI [of _ 0])
  next
    case after
    note n = drop_next [OF after(1)]
    have "(snd u = p \<or> snd u = []) \<and> mx c' = mx c"
      using assms(2) n keeps_mx [of _ x] by (cases a) (auto split: if_splits)
    moreover have "drop (length (after x)) (after x) = []" by simp
    ultimately show ?thesis using n after(2) unfolding max_place_def by metis
  qed
qed

lemma max_step:
  assumes "max_inv xs s" and "stat_step s t"
  shows "max_inv xs t"
  using assms(2)
proof (cases rule: stat_step.cases)
  case (access i us r a p c u c')
  have len: "length us = length xs" and i: "i < length xs" and mx: "mx c = 0 \<or> mx c \<in> val ` set xs"
    and all: "\<forall>j < length xs. max_place (mx c) (xs ! j) (us ! j)"
    using assms(1) access by (auto simp: max_inv_def)
  have "max_place (mx c) (xs ! i) (r, a # p)" using all i access(4) by auto
  from max_access [OF this access(5)]
  have u: "max_place (mx c') (xs ! i) u" and m: "mx c' = mx c \<or> (mx c' = val (xs ! i) \<and> 0 < val (xs ! i))" by auto
  have "max_place (mx c') (xs ! j) (us[i := u] ! j)" if "j < length xs" for j
    using that u m all len max_place_mono [of "mx c" "xs ! j" "us ! j" "mx c'"] by (cases "j = i") auto
  moreover have "mx c' = 0 \<or> mx c' \<in> val ` set xs" using m mx i by auto
  ultimately show ?thesis using access(2) len by (simp add: max_inv_def)
qed

text \<open>When all CPUs are done, the maximum is the value of one of the events.\<close>

lemma race_max:
  assumes "stat_reaches s0 (us, c)" and "s0 = (map (\<lambda>x. (0, acc x)) xs, c0)" and "mx c0 = 0" and "all_idle us"
  shows "if xs = [] then mx c = 0 else mx c \<in> val ` set xs"
proof -
  have "max_inv xs t" if "stat_reaches s0 t" for t
    using that assms(2) by (induction rule: stat_reaches.induct) (auto simp: max_start assms(3) intro: max_step)
  then have inv: "max_inv xs (us, c)" using assms(1) by blast
  have "val x = 0" if "mx c = 0" and "x \<in> set xs" for x
  proof -
    obtain i where i: "i < length xs" "x = xs ! i" using \<open>x \<in> set xs\<close> by (auto simp: in_set_conv_nth)
    then have "max_place (mx c) x (us ! i)" "snd (us ! i) = []"
      using inv assms(4) by (auto simp: max_inv_def all_idle_def list_all_length)
    then show ?thesis using that by (auto simp: max_place_def)
  qed
  then show ?thesis using inv by (auto simp: max_inv_def) (metis list.set_intros(1) neq_Nil_conv rev_image_eqI)+
qed

end

end
