(* ===== verification/SlotMonitor.thy ===== *)
theory SlotMonitor
  imports CallSpec StatRace
begin

section \<open>Modules with one slot per CPU and one shared summary\<close>

text \<open>
  Two modules keep the call they time in a per-CPU array with a single slot: the probe at the
  start fills the slot of its CPU, the probe at the end of that CPU empties it, and a zero
  time stamp marks an empty slot. \<open>live_slots\<close> reads such an array as a table from CPUs to
  entries, so that the pairing contract of the hash-map modules applies. Three modules update
  one shared record of statistics once per submitted event; then the record is a function
  of the events.
\<close>

definition live_slots :: "('v \<Rightarrow> bool) \<Rightarrow> 'v list \<Rightarrow> (nat, 'v) bmap" where
  "live_slots used vs = filter (\<lambda>p. used (snd p)) (enumerate 0 vs)"

lemma map_of_enumerate:
  "map_of (filter (\<lambda>p. used (snd p)) (enumerate n vs)) k =
     (if n \<le> k \<and> k < n + length vs \<and> used (vs ! (k - n)) then Some (vs ! (k - n)) else None)"
proof (induction vs arbitrary: n)
  case (Cons v vs)
  have "(v # vs) ! (k - n) = (if k = n then v else vs ! (k - Suc n))" if "n \<le> k"
    using that by (auto simp: nth_Cons' Suc_diff_Suc)
  then show ?case using Cons.IH [of "Suc n"] by auto
qed simp

lemma map_of_live_slots:
  "map_of (live_slots used vs) k = (if k < length vs \<and> used (vs ! k) then Some (vs ! k) else None)"
  by (simp add: live_slots_def map_of_enumerate)

lemma map_of_live_slots_upd:
  "map_of (live_slots used (percpu_upd c f vs)) k =
     (if k = c \<and> k < length vs then if used (f (vs ! c)) then Some (f (vs ! c)) else None
      else map_of (live_slots used vs) k)"
  by (cases "k = c") (auto simp: map_of_live_slots nth_percpu_upd)

lemma live_slots_empty: "(\<And>v. v \<in> set vs \<Longrightarrow> \<not> used v) \<Longrightarrow> live_slots used vs = []"
  by (auto simp: live_slots_def filter_empty_conv in_set_enumerate_eq)

subsection \<open>Statistics that follow the events\<close>

text \<open>
  Every firing either leaves the events and the statistics alone or appends one event and
  applies \<open>upd\<close> for it.
\<close>

locale summary_monitor =
  fixes step :: "'e \<Rightarrow> 's \<Rightarrow> 's" and events :: "'s \<Rightarrow> 'x list" and stats :: "'s \<Rightarrow> 'c option"
    and upd :: "'x \<Rightarrow> 'c \<Rightarrow> 'c"
  assumes step_summary: "stats s = Some c \<Longrightarrow>
      (events (step e s) = events s \<and> stats (step e s) = Some c) \<or>
      (\<exists>x. events (step e s) = events s @ [x] \<and> stats (step e s) = Some (upd x c))"
begin

lemma run_summary:
  assumes "events s = []" and "stats s = Some c"
  shows "stats (fold step tr s) = Some (fold upd (events (fold step tr s)) c)"
proof (induction tr rule: rev_induct)
  case (snoc e tr)
  then show ?case using step_summary [of "fold step tr s" _ e] by auto
qed (simp add: assms)

end

text \<open>A record with a count, a sum, and a maximum that carries the fields of its event.\<close>

locale event_summary =
  fixes upd :: "'x \<Rightarrow> 'c \<Rightarrow> 'c" and zero :: 'c
    and cnt :: "'c \<Rightarrow> u64" and tot :: "'c \<Rightarrow> u64" and mx :: "'c \<Rightarrow> u64" and tag :: "'c \<Rightarrow> 't"
    and val :: "'x \<Rightarrow> u64" and event_tag :: "'x \<Rightarrow> 't"
  assumes zero_values: "cnt zero = 0" "tot zero = 0" "mx zero = 0"
    and upd_cnt: "cnt (upd x c) = cnt c + 1"
    and upd_tot: "tot (upd x c) = tot c + val x"
    and upd_mx: "mx (upd x c) = max (mx c) (val x)"
    and upd_tag: "tag (upd x c) = (if mx c < val x then event_tag x else tag c)"
begin

lemma summary_cnt: "cnt (fold upd xs c) = cnt c + of_nat (length xs)"
  by (induction xs arbitrary: c) (simp_all add: upd_cnt)

lemma summary_tot: "tot (fold upd xs c) = tot c + sum_list (map val xs)"
  by (induction xs arbitrary: c) (simp_all add: upd_tot add.assoc)

lemma summary_mx_ge: "mx c \<le> mx (fold upd xs c)"
  by (induction xs arbitrary: c) (simp_all, metis max.bounded_iff upd_mx)

lemma summary_mx_events: "x \<in> set xs \<Longrightarrow> val x \<le> mx (fold upd xs c)"
proof (induction xs arbitrary: c)
  case (Cons y xs)
  have "val y \<le> mx (upd y c)" by (simp add: upd_mx)
  then have "val y \<le> mx (fold upd xs (upd y c))" using summary_mx_ge order_trans by blast
  then show ?case using Cons by auto
qed simp

lemma summary_source:
  "(mx (fold upd xs c) = mx c \<and> tag (fold upd xs c) = tag c)
   \<or> (\<exists>x \<in> set xs. mx (fold upd xs c) = val x \<and> tag (fold upd xs c) = event_tag x)"
proof (induction xs arbitrary: c)
  case (Cons y xs)
  show ?case using Cons.IH [of "upd y c"] by (auto simp: upd_mx upd_tag max_def split: if_splits)
qed simp

text \<open>From an empty record: the count, the sum, and the event the maximum belongs to.\<close>

lemma summary_report:
  "cnt (fold upd xs zero) = of_nat (length xs) \<and> tot (fold upd xs zero) = sum_list (map val xs) \<and>
   (\<forall>x \<in> set xs. val x \<le> mx (fold upd xs zero)) \<and>
   (mx (fold upd xs zero) = 0 \<or>
      (\<exists>x \<in> set xs. mx (fold upd xs zero) = val x \<and> tag (fold upd xs zero) = event_tag x))"
  using summary_cnt [of xs zero] summary_tot [of xs zero] summary_source [of xs zero]
    summary_mx_events [of _ xs zero] zero_values
  by auto

lemma summary_max:
  assumes "xs \<noteq> []"
  shows "unat (mx (fold upd xs zero)) = Max (set (map (unat \<circ> val) xs))"
proof (rule Max_eqI [symmetric])
  show "unat (mx (fold upd xs zero)) \<in> set (map (unat \<circ> val) xs)"
  proof (cases "mx (fold upd xs zero) = 0")
    case True
    obtain x where x: "x \<in> set xs" using assms by (cases xs) auto
    then have "val x = 0" using summary_report [of xs] True by auto
    then show ?thesis using x True by force
  next
    case False
    then show ?thesis using summary_report [of xs] by auto
  qed
next
  fix y assume "y \<in> set (map (unat \<circ> val) xs)"
  then show "y \<le> unat (mx (fold upd xs zero))"
    using summary_report [of xs] by (auto simp: word_le_nat_alt)
qed simp

end

end
