(* ===== verification/BlockIo.thy ===== *)
theory BlockIo
  imports SlotMonitor RunLoop Logger
begin

section \<open>fs/block\_io: latency of block requests\<close>

text \<open>
  \<^verbatim>\<open>fs/block_io\<close>: \<open>trace_issue\<close> records a request under its device and first sector when it goes to
  the driver, \<open>trace_complete\<close> takes the record back, filters, reports and updates one shared
  record. The user side prints the operation as a letter and the times in microseconds.
\<close>

record BlockIo_ctrl =
  enable :: bool
  min_latency_ns :: u64
  target_pid :: s32

record BlockIo_event =
  ev_type :: u32
  ev_ts_ns :: u64
  ev_latency_ns :: u64
  ev_pid :: s32
  ev_dev :: s32
  ev_sector :: u64
  ev_nr_sectors :: u32
  ev_rwbs :: s32
  ev_bytes :: u64
  ev_comm :: cstr

record BlockIo_stats =
  issue_cnt :: u64
  complete_cnt :: u64
  total_lat_ns :: u64
  max_lat_ns :: u64

text \<open>The key of a request: device and first sector.\<close>

record io_key =
  k_dev :: s32
  k_sector :: u64

record io_start =
  io_start_ts :: u64
  io_pid :: s32
  io_rwbs :: s32
  io_bytes :: u64
  io_nr_sectors :: u32
  io_comm :: cstr

record BlockIo_state =
  io_map :: "(io_key, io_start) bmap"
  ctrl_map :: "BlockIo_ctrl option"
  stats_map :: "BlockIo_stats option"
  rb :: "BlockIo_event list"

definition IO_MAP_MAX :: nat where
  "IO_MAP_MAX = 65536"

definition BLOCK_IO_EV_COMPLETE :: u32 where
  "BLOCK_IO_EV_COMPLETE = 1"

text \<open>The fields of the two tracepoints the probes read; the operation is its first letter.\<close>

record block_rq =
  rq_dev :: u32
  rq_sector :: u64
  rq_nr_sector :: u32
  rq_rwbs :: u8

definition enc :: "u8 \<Rightarrow> s32" where
  "enc c = (if c = 82 then 1 else if c = 87 then 2 else if c = 68 then 3 else if c = 70 then 4 else 5)"

definition io_key_of :: "block_rq \<Rightarrow> io_key" where
  "io_key_of rq = \<lparr>k_dev = rq_dev rq, k_sector = rq_sector rq\<rparr>"

definition io_start_of :: "bpf_env \<Rightarrow> block_rq \<Rightarrow> io_start" where
  "io_start_of env rq =
     \<lparr>io_start_ts = env_ktime env, io_pid = hi32 (env_pid_tgid env),
      io_rwbs = scast (rq_rwbs rq), io_bytes = ucast (rq_nr_sector rq) * 512,
      io_nr_sectors = rq_nr_sector rq, io_comm = env_comm env\<rparr>"

definition trace_issue :: "bpf_env \<Rightarrow> block_rq \<Rightarrow> BlockIo_state \<Rightarrow> BlockIo_state" where
  "trace_issue env rq s =
     (case ctrl_map s of None \<Rightarrow> s
      | Some c \<Rightarrow>
        if \<not> enable c then s
        else s\<lparr>io_map := map_or_same
                 (hash_update IO_MAP_MAX (env_update_ok env) (io_key_of rq) (io_start_of env rq) (io_map s))
                 (io_map s)\<rparr>)"

definition block_event_of :: "bpf_env \<Rightarrow> io_key \<Rightarrow> io_start \<Rightarrow> BlockIo_event" where
  "block_event_of env k v =
     \<lparr>ev_type = BLOCK_IO_EV_COMPLETE, ev_ts_ns = env_ktime env,
      ev_latency_ns = env_ktime env - io_start_ts v, ev_pid = io_pid v, ev_dev = k_dev k,
      ev_sector = k_sector k, ev_nr_sectors = io_nr_sectors v, ev_rwbs = enc (ucast (io_rwbs v)),
      ev_bytes = io_bytes v, ev_comm = io_comm v\<rparr>"

definition block_stats_upd :: "BlockIo_event \<Rightarrow> BlockIo_stats \<Rightarrow> BlockIo_stats" where
  "block_stats_upd e st0 = (let
     st1 = st0\<lparr>complete_cnt := complete_cnt st0 + 1\<rparr>;
     st2 = st1\<lparr>total_lat_ns := total_lat_ns st1 + ev_latency_ns e\<rparr>
     in if ev_latency_ns e > max_lat_ns st2 then st2\<lparr>max_lat_ns := ev_latency_ns e\<rparr> else st2)"

definition block_zero :: BlockIo_stats where
  "block_zero = \<lparr>issue_cnt = 0, complete_cnt = 0, total_lat_ns = 0, max_lat_ns = 0\<rparr>"

definition block_drop :: "io_key \<Rightarrow> BlockIo_state \<Rightarrow> BlockIo_state" where
  "block_drop k s = s\<lparr>io_map := bpf_delete k (io_map s)\<rparr>"

definition trace_complete :: "bpf_env \<Rightarrow> block_rq \<Rightarrow> BlockIo_state \<Rightarrow> BlockIo_state" where
  "trace_complete env rq s =
     (case ctrl_map s of None \<Rightarrow> s
      | Some c \<Rightarrow>
        if \<not> enable c then s
        else let k = io_key_of rq in
        (case map_of (io_map s) k of None \<Rightarrow> s
        | Some v \<Rightarrow> let lat = env_ktime env - io_start_ts v in
            if target_pid c \<noteq> 0 \<and> io_pid v \<noteq> target_pid c then block_drop k s
            else if min_latency_ns c \<noteq> 0 \<and> lat < min_latency_ns c then block_drop k s
            else if \<not> env_reserve_ok env then block_drop k s
            else let
              e = block_event_of env k v;
              s1 = s\<lparr>rb := rb s @ [e]\<rparr>;
              st0 = (case stats_map s1 of
                       None \<Rightarrow> if env_update_ok env then Some block_zero else None
                     | Some st \<Rightarrow> Some st);
              s2 = s1\<lparr>stats_map := map_option (block_stats_upd e) st0\<rparr>
            in block_drop k s2))"

datatype block_firing = Issue bpf_env block_rq | Complete bpf_env block_rq

fun block_step :: "block_firing \<Rightarrow> BlockIo_state \<Rightarrow> BlockIo_state" where
  "block_step (Issue env rq) s = trace_issue env rq s"
| "block_step (Complete env rq) s = trace_complete env rq s"

subsection \<open>The user side\<close>

text \<open>The panel: completed requests, average and maximum in microseconds.\<close>

definition block_print_stats :: "BlockIo_stats option \<Rightarrow> (u64 \<times> u64 \<times> u64) option" where
  "block_print_stats r =
     (case r of None \<Rightarrow> None
      | Some s \<Rightarrow>
        if complete_cnt s = 0 then None
        else Some (complete_cnt s, total_lat_ns s div (complete_cnt s * 1000), max_lat_ns s div 1000))"

definition rwbs_str :: "s32 \<Rightarrow> string" where
  "rwbs_str r = (if r = 1 then ''R'' else if r = 2 then ''W'' else if r = 3 then ''D''
     else if r = 4 then ''F'' else ''?'')"

definition block_io_ctrl_of :: "bool \<Rightarrow> s32 \<Rightarrow> u64 \<Rightarrow> BlockIo_ctrl" where
  "block_io_ctrl_of en pid delay = \<lparr>enable = en, min_latency_ns = delay, target_pid = pid\<rparr>"

definition block_io_run ::
    "s32 \<Rightarrow> bool \<Rightarrow> s32 \<Rightarrow> u64 \<Rightarrow> run_env \<Rightarrow> (int \<times> BlockIo_ctrl action list) option" where
  "block_io_run timeout en pid delay e =
     run_loaded (\<lambda>err. err < 0) neg_or_zero (block_io_ctrl_of en pid delay) timeout e"

subsection \<open>The line of an event\<close>

text \<open>\<open>handle_event\<close>; this module does not take the lock.\<close>

definition block_handle_event :: "wall \<Rightarrow> BlockIo_event \<Rightarrow> out_call list" where
  "block_handle_event now e =
     LOG now (''DEV='' @ ljust 4 (fmt_d (ev_dev e)) @ '' PID='' @ ljust 6 (fmt_d (ev_pid e)) @ '' ''
       @ ljust 16 (ev_comm e) @ '' SECT='' @ ljust 8 (fmt_u (ev_sector e)) @ '' CNT='' @ ljust 4 (fmt_u (ev_nr_sectors e))
       @ '' '' @ rwbs_str (ev_rwbs e) @ '' '' @ ljust 6 (fmt_u (ev_bytes e)) @ '' B | '')
     @ log_col_us (ev_latency_ns e div 1000) 100 1000
     @ printf endl"

subsection \<open>The update of the statistics, access by access\<close>

text \<open>\<open>block_rest\<close> is what follows the increment of the counter.\<close>

definition block_inc :: "u64 \<Rightarrow> BlockIo_stats \<Rightarrow> BlockIo_stats" where
  "block_inc r st = st\<lparr>complete_cnt := r + 1\<rparr>"

definition block_rest :: "BlockIo_event \<Rightarrow> BlockIo_stats access list" where
  "block_rest e =
    [Read_field total_lat_ns, Write_field (\<lambda>r st. st\<lparr>total_lat_ns := r + ev_latency_ns e\<rparr>),
     Read_field max_lat_ns, Skip_unless (\<lambda>r. ev_latency_ns e > r), Write_field (\<lambda>r st. st\<lparr>max_lat_ns := ev_latency_ns e\<rparr>)]"

definition block_accesses :: "BlockIo_event \<Rightarrow> BlockIo_stats access list" where
  "block_accesses e = Read_field complete_cnt # Write_field block_inc # block_rest e"

section \<open>Lemmas\<close>

text \<open>Uninterrupted, the accesses are the update the handler makes.\<close>

lemma block_alone: "run_alone r (block_accesses e) st = block_stats_upd e st"
  by (simp add: block_accesses_def block_inc_def block_rest_def block_stats_upd_def Let_def)

interpretation block_race: racy_summary block_accesses complete_cnt block_inc block_rest
  by unfold_locales (auto simp: block_accesses_def block_inc_def block_rest_def)

interpretation block_max: racy_maximum block_accesses max_lat_ns ev_latency_ns "\<lambda>e. take 4 (block_accesses e)"
  "\<lambda>e r st. st\<lparr>max_lat_ns := ev_latency_ns e\<rparr>" "\<lambda>e. drop 7 (block_accesses e)"
  by unfold_locales (auto simp: block_accesses_def block_inc_def block_rest_def eval_nat_numeral)

interpretation block_io_runner: quiet_loaded "\<lambda>err. err < 0" neg_or_zero
  by unfold_locales (simp_all add: neg_or_zero_simps)

definition block_inv :: "BlockIo_ctrl \<Rightarrow> BlockIo_state \<Rightarrow> bool" where
  "block_inv c s \<longleftrightarrow> ctrl_map s = Some c \<and> map_wf IO_MAP_MAX (io_map s)"

definition block_init :: "BlockIo_ctrl \<Rightarrow> BlockIo_state" where
  "block_init c = \<lparr>io_map = [], ctrl_map = Some c, stats_map = Some block_zero, rb = []\<rparr>"

fun block_starts :: "BlockIo_ctrl \<Rightarrow> block_firing \<Rightarrow> (io_key \<times> io_start) option" where
  "block_starts c (Issue env rq) =
     (if enable c \<and> env_update_ok env then Some (io_key_of rq, io_start_of env rq) else None)"
| "block_starts c (Complete env rq) = None"

fun block_closes :: "BlockIo_ctrl \<Rightarrow> block_firing \<Rightarrow> io_key \<Rightarrow> bool" where
  "block_closes c (Issue env rq) k \<longleftrightarrow> False"
| "block_closes c (Complete env rq) k \<longleftrightarrow> enable c \<and> k = io_key_of rq"

fun block_reports :: "BlockIo_ctrl \<Rightarrow> block_firing \<Rightarrow> io_key \<Rightarrow> io_start \<Rightarrow> BlockIo_event option" where
  "block_reports c (Issue env rq) k v = None"
| "block_reports c (Complete env rq) k v =
     (if enable c \<and> k = io_key_of rq \<and> (target_pid c = 0 \<or> io_pid v = target_pid c) \<and>
         (min_latency_ns c = 0 \<or> min_latency_ns c \<le> env_ktime env - io_start_ts v) \<and> env_reserve_ok env
      then Some (block_event_of env k v) else None)"

lemma block_drop_simps [simp]:
  "ctrl_map (block_drop k s) = ctrl_map s" "io_map (block_drop k s) = bpf_delete k (io_map s)"
  "rb (block_drop k s) = rb s" "stats_map (block_drop k s) = stats_map s"
  by (simp_all add: block_drop_def)

lemma issue_ctrl [simp]: "ctrl_map (trace_issue env rq s) = ctrl_map s"
  by (simp add: trace_issue_def split: option.split)

lemma complete_ctrl [simp]: "ctrl_map (trace_complete env rq s) = ctrl_map s"
  by (simp add: trace_complete_def Let_def split: option.split)

lemma issue_tab:
  assumes "ctrl_map s = Some c"
  shows "io_map (trace_issue env rq s) =
    (case block_starts c (Issue env rq) of None \<Rightarrow> io_map s
     | Some (k, v) \<Rightarrow> map_or_same (hash_update IO_MAP_MAX True k v (io_map s)) (io_map s))"
  by (cases "env_update_ok env") (simp_all add: assms trace_issue_def)

lemma complete_tab:
  assumes "ctrl_map s = Some c"
  shows "io_map (trace_complete env rq s) =
    (if enable c then bpf_delete (io_key_of rq) (io_map s) else io_map s)"
  by (cases "map_of (io_map s) (io_key_of rq)") (simp_all add: assms trace_complete_def Let_def)

lemma issue_rb: "rb (trace_issue env rq s) = rb s"
  by (simp add: trace_issue_def split: option.split)

lemma complete_rb:
  assumes "ctrl_map s = Some c"
  shows "rb (trace_complete env rq s) = rb s @
    reported (block_reports c (Complete env rq) (io_key_of rq)) (io_map s) (io_key_of rq)"
  by (cases "map_of (io_map s) (io_key_of rq)") (auto simp: assms trace_complete_def Let_def)

lemma block_step_inv: "block_inv c s \<Longrightarrow> block_inv c (block_step e s)"
  by (cases e)
    (auto simp: block_inv_def issue_tab complete_tab hash.map_or_same_wf delete_map_wf split: option.split)

lemma block_step_tab:
  assumes "block_inv c s" and "map_of (io_map (block_step e s)) k = Some v"
  shows "block_starts c e = Some (k, v) \<or>
    (map_of (io_map s) k = Some v \<and> \<not> block_closes c e k \<and> (\<forall>v'. block_starts c e \<noteq> Some (k, v')))"
proof (cases e)
  case (Issue env rq)
  then show ?thesis using assms hash.upd_opened [of IO_MAP_MAX "io_map s" True _ _ k v]
    by (auto simp: block_inv_def issue_tab hash_update_None split: if_splits)
next
  case (Complete env rq)
  then show ?thesis using assms by (auto simp: block_inv_def complete_tab split: if_splits)
qed

lemma block_step_rb:
  assumes "block_inv c s" and "x \<in> set (rb (block_step e s))"
  shows "x \<in> set (rb s) \<or> (\<exists>k v. map_of (io_map s) k = Some v \<and> block_reports c e k v = Some x)"
proof (cases e)
  case (Complete env rq)
  then show ?thesis using assms
    by (simp add: block_inv_def complete_rb in_reported del: block_reports.simps) blast
qed (use assms in \<open>simp add: issue_rb\<close>)

interpretation block_pair: paired_monitor block_step "\<lambda>_ _. True" "block_inv c" io_map rb
  "block_starts c" "block_closes c" "block_reports c" for c
  by unfold_locales (use block_step_inv block_step_tab block_step_rb in blast)+

lemma block_inv_init: "block_inv c (block_init c)"
  by (simp add: block_inv_def block_init_def)

lemma block_init_simps [simp]:
  "io_map (block_init c) = []" "rb (block_init c) = []" "stats_map (block_init c) = Some block_zero"
  by (simp_all add: block_init_def)

interpretation block_sum: summary_monitor block_step rb stats_map block_stats_upd
proof unfold_locales
  fix s :: BlockIo_state and c e
  assume "stats_map s = Some c"
  then show "(rb (block_step e s) = rb s \<and> stats_map (block_step e s) = Some c) \<or>
      (\<exists>x. rb (block_step e s) = rb s @ [x] \<and> stats_map (block_step e s) = Some (block_stats_upd x c))"
    by (cases e) (auto simp: trace_issue_def trace_complete_def Let_def split: option.split)
qed

interpretation block_rec: event_summary block_stats_upd block_zero complete_cnt total_lat_ns max_lat_ns
  "\<lambda>_. ()" ev_latency_ns "\<lambda>_. ()"
  by unfold_locales (auto simp: block_zero_def block_stats_upd_def Let_def max_def)

text \<open>The letter the user sees is the first letter of the kernel's operation string.\<close>

definition rwbs_letter :: "u8 \<Rightarrow> string" where
  "rwbs_letter b = (if b \<in> {82, 87, 68, 70} then [char_of (unat b)] else ''?'')"

lemma rwbs_round_trip:
  "rwbs_str (enc (ucast (io_rwbs (io_start_of env rq)))) = rwbs_letter (rq_rwbs rq)"
proof -
  have "(ucast (scast w :: s32) :: u8) = w" for w :: u8
    by (rule bit_word_eqI) (simp add: bit_simps)
  then have b: "(ucast (io_rwbs (io_start_of env rq)) :: u8) = rq_rwbs rq"
    by (simp add: io_start_of_def)
  have "char_of (82 :: nat) = CHR ''R''" "char_of (87 :: nat) = CHR ''W''" "char_of (68 :: nat) = CHR ''D''"
    "char_of (70 :: nat) = CHR ''F''"
    by code_simp+
  then show ?thesis
    unfolding b by (auto simp: enc_def rwbs_str_def rwbs_letter_def)
qed

definition block_demo_ctrl :: BlockIo_ctrl where
  "block_demo_ctrl = \<lparr>enable = True, min_latency_ns = 3, target_pid = 7\<rparr>"

definition demo_rq :: "u64 \<Rightarrow> u8 \<Rightarrow> block_rq" where
  "demo_rq sec c = \<lparr>rq_dev = 8, rq_sector = sec, rq_nr_sector = 4, rq_rwbs = c\<rparr>"

definition block_demo_run :: "block_firing list" where
  "block_demo_run =
     [Issue (calm_env 0 10 7 8) (demo_rq 100 87), Issue (calm_env 1 11 9 9) (demo_rq 200 82),
      Complete (calm_env 1 5010 0 0) (demo_rq 100 87), Complete (calm_env 0 6000 0 0) (demo_rq 200 82)]"

lemmas block_demo_defs = block_demo_ctrl_def block_demo_run_def demo_rq_def block_init_def trace_issue_def
  trace_complete_def io_key_of_def io_start_of_def IO_MAP_MAX_def hash_update_def bpf_delete_def
  block_event_of_def block_drop_def block_stats_upd_def block_zero_def Let_def

lemma block_demo_rb:
  "map (\<lambda>e. (ev_sector e, ev_pid e, ev_bytes e, ev_latency_ns e))
     (rb (fold block_step block_demo_run (block_init block_demo_ctrl))) = [(100, 7, 2048, 5000)]"
  by (simp add: block_demo_defs)

lemma printable_rwbs [simp]: "printable (rwbs_str r)"
  by (simp add: rwbs_str_def)

interpretation block_lines: line_printer "\<lambda>(now, e). block_handle_event now e" "\<lambda>(now, e). printable (ev_comm e)"
  by unfold_locales (auto simp: block_handle_event_def line_simps split: if_splits)

text \<open>The key of the call a firing ends; with room in the map the module reports exactly the calls of the specification.\<close>

fun block_ends :: "BlockIo_ctrl \<Rightarrow> block_firing \<Rightarrow> io_key option" where
  "block_ends c (Issue env rq) = None"
| "block_ends c (Complete env rq) = (if enable c then Some (io_key_of rq) else None)"

lemma block_step_calls:
  assumes "block_inv c s" and "hash_fits IO_MAP_MAX (io_map s) (block_starts c e)"
  shows "(map_of (io_map (block_step e s)), rb (block_step e s)) =
    call_step (block_starts c) (block_ends c) (block_reports c) e (map_of (io_map s), rb s)"
  using assms
  by (cases e) (auto simp: block_inv_def issue_tab issue_rb complete_tab complete_rb
      hash_fits_update call_step_def reported_def split: option.split)

interpretation block_calls: call_monitor block_step "\<lambda>e s. hash_fits IO_MAP_MAX (io_map s) (block_starts c e)"
  "block_inv c" io_map rb "block_starts c" "block_ends c" "block_reports c" for c
  by unfold_locales (simp_all add: block_step_inv block_step_calls)

text \<open>Every event passed the filters of the configuration.\<close>

lemma block_filtered:
  assumes "x \<in> set (rb (fold block_step tr (block_init c)))"
  shows "enable c \<and> min_latency_ns c \<le> ev_latency_ns x \<and> (target_pid c = 0 \<or> ev_pid x = target_pid c)"
  using assms
  by (rule block_pair.reported_all [OF _ admissible_True block_inv_init])
     (auto simp: block_init_def block_event_of_def elim!: block_starts.elims block_reports.elims split: if_splits)

definition demo_io :: "u64 \<Rightarrow> BlockIo_event" where
  "demo_io lat = \<lparr>ev_type = BLOCK_IO_EV_COMPLETE, ev_ts_ns = 9, ev_latency_ns = lat, ev_pid = 7,
     ev_dev = 8, ev_sector = 100, ev_nr_sectors = 8, ev_rwbs = 0, ev_bytes = 4096,
     ev_comm = ''dd''\<rparr>"

section \<open>Properties\<close>

text \<open>
  C22: every event reported pairs a completion with the last recorded issue of the same
  device and sector, with no completion and no recorded issue of it between; process, name,
  size and operation are those of the issue (the printed letter is the kernel's, or a question
  mark), the bytes are 512 per sector, the latency is the time between the two, and the filters
  hold.
\<close>

theorem block_reported_request:
  assumes "x \<in> set (rb (fold block_step tr (block_init c)))"
  shows "\<exists>pre env1 rq1 mid env2 rq2 post.
    tr = pre @ Issue env1 rq1 # mid @ Complete env2 rq2 # post \<and>
    io_key_of rq1 = io_key_of rq2 \<and> \<lparr>k_dev = ev_dev x, k_sector = ev_sector x\<rparr> = io_key_of rq1 \<and>
    ev_pid x = hi32 (env_pid_tgid env1) \<and> ev_comm x = env_comm env1 \<and>
    ev_nr_sectors x = rq_nr_sector rq1 \<and> unat (ev_bytes x) = 512 * unat (rq_nr_sector rq1) \<and>
    rwbs_str (ev_rwbs x) = rwbs_letter (rq_rwbs rq1) \<and>
    ev_latency_ns x = env_ktime env2 - env_ktime env1 \<and> min_latency_ns c \<le> ev_latency_ns x \<and>
    target_pid c \<in> {0, ev_pid x} \<and>
    (\<forall>e \<in> set mid. \<not> block_closes c e (io_key_of rq1) \<and> (\<forall>v. block_starts c e \<noteq> Some (io_key_of rq1, v)))"
proof -
  obtain pre e1 mid e2 post k v where t: "tr = pre @ e1 # mid @ e2 # post"
    and s: "block_starts c e1 = Some (k, v)" and r: "block_reports c e2 k v = Some x"
    and m: "\<forall>e \<in> set mid. \<not> block_closes c e k \<and> (\<forall>v'. block_starts c e \<noteq> Some (k, v'))"
    using block_pair.reported_pair [OF admissible_True block_inv_init _ _ assms] by auto
  obtain env1 rq1 where e1: "e1 = Issue env1 rq1" using s by (cases e1) auto
  obtain env2 rq2 where e2: "e2 = Complete env2 rq2" using r by (cases e2) auto
  have v: "v = io_start_of env1 rq1" "k = io_key_of rq1" using s e1 by (auto split: if_splits)
  have x: "x = block_event_of env2 k v" "k = io_key_of rq2" "target_pid c = 0 \<or> io_pid v = target_pid c"
    "min_latency_ns c = 0 \<or> min_latency_ns c \<le> env_ktime env2 - io_start_ts v"
    using r e2 by (auto split: if_splits)
  have p: "tr = pre @ Issue env1 rq1 # mid @ Complete env2 rq2 # post" using t e1 e2 by simp
  have f: "\<lparr>k_dev = ev_dev x, k_sector = ev_sector x\<rparr> = k" "ev_pid x = hi32 (env_pid_tgid env1)" "ev_comm x = env_comm env1"
    "ev_nr_sectors x = rq_nr_sector rq1" "ev_bytes x = ucast (rq_nr_sector rq1) * 512"
    "ev_latency_ns x = env_ktime env2 - env_ktime env1" "io_pid v = ev_pid x"
    using x(1) v(1) by (simp_all add: block_event_of_def io_start_of_def)
  have w: "rwbs_str (ev_rwbs x) = rwbs_letter (rq_rwbs rq1)"
    using rwbs_round_trip [of env1 rq1] x(1) v(1) by (simp add: block_event_of_def)
  have u: "unat (ev_bytes x) = 512 * unat (rq_nr_sector rq1)"
    unfolding f(5) by (rule unat_sectors)
  have d: "min_latency_ns c \<le> ev_latency_ns x" using x(4) f(6) v(1) by (auto simp: io_start_of_def)
  show ?thesis
    by (intro exI conjI, rule p) (use v(2) x(2,3) f w u d m in auto)
qed

theorem block_reported_request_witness:
  "\<exists>pre env1 rq1 mid env2 rq2 post. block_demo_run = pre @ Issue env1 rq1 # mid @ Complete env2 rq2 # post \<and>
    5000 = env_ktime env2 - env_ktime env1"
proof -
  let ?r = "rb (fold block_step block_demo_run (block_init block_demo_ctrl))"
  obtain x where r: "?r = [x]" "ev_latency_ns x = 5000" using block_demo_rb by auto
  then have "x \<in> set ?r" by simp
  then show ?thesis
    using block_reported_request [of x block_demo_run block_demo_ctrl] r(2) by metis
qed

text \<open>
  The shared record is a function of the events submitted. With fewer than \<open>2^54\<close>
  events and a total below \<open>2^64\<close> ns, the panel appears exactly when there were any, counts
  them, and its average and maximum are those of their latencies in whole microseconds.
\<close>

lemma block_panel_true:
  fixes c tr
  defines "s \<equiv> fold block_step tr (block_init c)"
  assumes "length (rb s) < 2 ^ 54" and "sum_list (map (unat \<circ> ev_latency_ns) (rb s)) < 2 ^ 64"
  shows "case block_print_stats (stats_map s) of
      None \<Rightarrow> rb s = []
    | Some (k, avg, mx) \<Rightarrow> rb s \<noteq> [] \<and> unat k = length (rb s) \<and>
        unat avg = sum_list (map (unat \<circ> ev_latency_ns) (rb s)) div (length (rb s) * 1000) \<and>
        unat mx = Max (set (map (unat \<circ> ev_latency_ns) (rb s))) div 1000"
proof -
  let ?st = "fold block_stats_upd (rb s) block_zero"
  let ?ls = "map ev_latency_ns (rb s)"
  have st: "stats_map s = Some ?st" unfolding s_def by (rule block_sum.run_summary) simp_all
  have len: "length (rb s) < 2 ^ 64" "length (rb s) * 1000 < 2 ^ 64" using assms(2) by simp_all
  have cnt: "complete_cnt ?st = of_nat (length (rb s))" and tot: "total_lat_ns ?st = sum_list ?ls"
    using block_rec.summary_report [of "rb s"] by simp_all
  have k: "unat (complete_cnt ?st) = length (rb s)" using len(1) by (simp add: cnt unat_of_nat_small)
  have z: "complete_cnt ?st = 0 \<longleftrightarrow> rb s = []"
    using len(1) by (simp add: cnt of_nat_zero_iff)
  have t: "unat (total_lat_ns ?st) = sum_list (map (unat \<circ> ev_latency_ns) (rb s))"
    using unat_sum_list [of ?ls] assms(3) by (simp add: tot)
  have k1000: "unat (complete_cnt ?st * 1000) = length (rb s) * 1000"
    using len k by (simp add: unat_mult_lem [THEN iffD1])
  have m: "unat (max_lat_ns ?st) = Max (set (map (unat \<circ> ev_latency_ns) (rb s)))" if ne: "rb s \<noteq> []"
    using block_rec.summary_max [OF ne] by simp
  show ?thesis
    using z k t k1000 m
    by (auto simp: st block_print_stats_def unat_div)
qed

end
