(* ===== verification/MutexLock.thy ===== *)
theory MutexLock
  imports CallSpec PidNs RunLoop Logger
begin

section \<open>lock/mutexlock: contention of kernel mutexes\<close>

text \<open>
  \<^verbatim>\<open>lock/mutexlock\<close>: a thread that enters the slow path of a mutex is recorded with the owner of
  the moment (\<open>mutex_slowpath_entry\<close>); when it leaves it holds the lock, and the
  wait is counted and reported (\<open>mutex_slowpath_exit\<close>). The context lives in an LRU map, since
  the thread may sleep and change CPU in between. The user side merges the per-CPU statistics.
\<close>

definition MUTEX_OWNER_FLAGS :: u64 where
  "MUTEX_OWNER_FLAGS = 7"

definition TASK_COMM_LEN :: nat where
  "TASK_COMM_LEN = 16"

record Mutexlock_ctrl =
  enable :: bool
  min_delay_ns :: u64
  target_pid :: s32
  pid_ns_dev :: u64
  pid_ns_ino :: u64

record Mutexlock_event =
  ev_ptr :: u64
  ev_owner_pid :: s32
  ev_owner_tgid :: s32
  ev_contender_pid :: s32
  ev_contender_tgid :: s32
  ev_owner_prio :: s32
  ev_contender_prio :: s32
  ev_contention_ns :: u64
  ev_contender_name :: cstr
  ev_owner_name :: cstr

record Mutexlock_stats =
  attempted :: u64
  contention_count :: u64
  filtered_delay :: u64
  ringbuf_dropped :: u64
  map_update_failed :: u64
  lookup_missed :: u64
  wait_total_ns :: u64
  wait_max_ns :: u64
  max_lock_addr :: u64
  max_owner_pid :: s32
  max_contender_pid :: s32
  max_owner_name :: cstr
  max_contender_name :: cstr

record contention_data =
  cd_addr :: u64
  cd_enter_ts :: u64
  cd_owner_pid :: s32
  cd_owner_tgid :: s32
  cd_contender_pid :: s32
  cd_contender_tgid :: s32
  cd_owner_prio :: s32
  cd_contender_prio :: s32
  cd_owner_name :: cstr
  cd_contender_name :: cstr

text \<open>The maps of the module; \<open>contention_map\<close> is an LRU hash of 16384 entries.\<close>

record Mutexlock_state =
  ctrl_map :: "Mutexlock_ctrl option"
  stats_map :: "Mutexlock_stats list"
  contention_map :: "(u64, contention_data) bmap"
  rb :: "Mutexlock_event list"

definition CONTENTION_MAX :: nat where
  "CONTENTION_MAX = 16384"

definition mutex_count ::
  "bpf_env \<Rightarrow> (Mutexlock_stats \<Rightarrow> Mutexlock_stats) \<Rightarrow> Mutexlock_state \<Rightarrow> Mutexlock_state" where
  "mutex_count env f s = s\<lparr>stats_map := percpu_upd (env_cpu env) f (stats_map s)\<rparr>"

text \<open>
  The snapshot the entry handler takes; the owner fields stay zero when the owner word, less its
  three flag bits, is null.
\<close>

definition contention_of :: "Mutexlock_ctrl \<Rightarrow> bpf_env \<Rightarrow> kmem \<Rightarrow> u64 \<Rightarrow> u64 \<Rightarrow> contention_data" where
  "contention_of ctrl env km lock pid_tgid = (let
     data = \<lparr>cd_addr = lock, cd_enter_ts = env_ktime env, cd_owner_pid = 0, cd_owner_tgid = 0,
             cd_contender_pid = lo32 pid_tgid, cd_contender_tgid = hi32 pid_tgid,
             cd_owner_prio = 0, cd_contender_prio = k_prio km (k_current km),
             cd_owner_name = '''', cd_contender_name = env_comm env\<rparr>;
     owner = k_mutex_owner km lock;
     owner_task = owner AND NOT MUTEX_OWNER_FLAGS
     in if owner_task \<noteq> 0
        then data\<lparr>cd_owner_pid := app_task_tid_ns km owner_task (pid_ns_ino ctrl),
                  cd_owner_tgid := app_task_tgid_ns km owner_task (pid_ns_ino ctrl),
                  cd_owner_prio := k_prio km owner_task,
                  cd_owner_name := snd (probe_read_str TASK_COMM_LEN (k_comm km owner_task))\<rparr>
        else data)"

definition mutex_slowpath_entry ::
  "bpf_env \<Rightarrow> kmem \<Rightarrow> u64 \<Rightarrow> Mutexlock_state \<Rightarrow> Mutexlock_state" where
  "mutex_slowpath_entry env km lock s =
     (case ctrl_map s of None \<Rightarrow> s
      | Some ctrl \<Rightarrow>
        if \<not> enable ctrl then s
        else let pid_tgid = app_current_pid_tgid_ns env (pid_ns_dev ctrl) (pid_ns_ino ctrl) in
        if pid_tgid = 0 then s
        else if target_pid ctrl \<noteq> 0 \<and> hi32 pid_tgid \<noteq> target_pid ctrl then s
        else let
          s1 = mutex_count env (\<lambda>c. c\<lparr>attempted := attempted c + 1\<rparr>) s;
          data = contention_of ctrl env km lock pid_tgid
        in (case lru_update CONTENTION_MAX (env_update_ok env, env_evict env) pid_tgid data
                   (contention_map s1) of
              None \<Rightarrow> mutex_count env (\<lambda>c. c\<lparr>map_update_failed := map_update_failed c + 1\<rparr>) s1
            | Some m \<Rightarrow> s1\<lparr>contention_map := m\<rparr>))"

definition mutex_event_of :: "contention_data \<Rightarrow> u64 \<Rightarrow> Mutexlock_event" where
  "mutex_event_of data wait_ns =
     \<lparr>ev_ptr = cd_addr data, ev_owner_pid = cd_owner_pid data, ev_owner_tgid = cd_owner_tgid data,
      ev_contender_pid = cd_contender_pid data, ev_contender_tgid = cd_contender_tgid data,
      ev_owner_prio = cd_owner_prio data, ev_contender_prio = cd_contender_prio data,
      ev_contention_ns = wait_ns, ev_contender_name = cd_contender_name data,
      ev_owner_name = cd_owner_name data\<rparr>"

definition mutex_report_stats ::
  "contention_data \<Rightarrow> u64 \<Rightarrow> Mutexlock_stats \<Rightarrow> Mutexlock_stats" where
  "mutex_report_stats data wait_ns c0 = (let
     c1 = c0\<lparr>contention_count := contention_count c0 + 1\<rparr>;
     c2 = c1\<lparr>wait_total_ns := wait_total_ns c1 + wait_ns\<rparr>
     in if wait_ns > wait_max_ns c2
        then c2\<lparr>wait_max_ns := wait_ns, max_lock_addr := cd_addr data,
                max_owner_pid := cd_owner_pid data, max_contender_pid := cd_contender_pid data,
                max_owner_name := cd_owner_name data,
                max_contender_name := cd_contender_name data\<rparr>
        else c2)"

definition mutex_drop :: "u64 \<Rightarrow> Mutexlock_state \<Rightarrow> Mutexlock_state" where
  "mutex_drop k s = s\<lparr>contention_map := bpf_delete k (contention_map s)\<rparr>"

definition mutex_slowpath_exit :: "bpf_env \<Rightarrow> Mutexlock_state \<Rightarrow> Mutexlock_state" where
  "mutex_slowpath_exit env s =
     (case ctrl_map s of None \<Rightarrow> s
      | Some ctrl \<Rightarrow>
        let pid_tgid = app_current_pid_tgid_ns env (pid_ns_dev ctrl) (pid_ns_ino ctrl) in
        if pid_tgid = 0 then s
        else (case map_of (contention_map s) pid_tgid of
          None \<Rightarrow>
            if enable ctrl \<and> (target_pid ctrl = 0 \<or> target_pid ctrl = hi32 pid_tgid)
            then mutex_count env (\<lambda>c. c\<lparr>lookup_missed := lookup_missed c + 1\<rparr>) s else s
        | Some data \<Rightarrow>
            if \<not> enable ctrl \<or> (target_pid ctrl \<noteq> 0 \<and> cd_contender_tgid data \<noteq> target_pid ctrl)
            then mutex_drop pid_tgid s
            else let wait_ns = env_ktime env - cd_enter_ts data in
            if min_delay_ns ctrl \<noteq> 0 \<and> wait_ns < min_delay_ns ctrl
            then mutex_drop pid_tgid
                   (mutex_count env (\<lambda>c. c\<lparr>filtered_delay := filtered_delay c + 1\<rparr>) s)
            else if \<not> env_reserve_ok env
            then mutex_drop pid_tgid
                   (mutex_count env (\<lambda>c. c\<lparr>ringbuf_dropped := ringbuf_dropped c + 1\<rparr>) s)
            else let
              s1 = mutex_count env (mutex_report_stats data wait_ns) s;
              s2 = s1\<lparr>rb := rb s1 @ [mutex_event_of data wait_ns]\<rparr>
            in mutex_drop pid_tgid s2))"

datatype mutex_firing = Slow_enter bpf_env kmem u64 | Slow_exit bpf_env

fun mutex_step :: "mutex_firing \<Rightarrow> Mutexlock_state \<Rightarrow> Mutexlock_state" where
  "mutex_step (Slow_enter env km lock) s = mutex_slowpath_entry env km lock s"
| "mutex_step (Slow_exit env) s = mutex_slowpath_exit env s"

subsection \<open>The summary at exit\<close>

definition mutex_zero :: Mutexlock_stats where
  "mutex_zero = \<lparr>attempted = 0, contention_count = 0, filtered_delay = 0, ringbuf_dropped = 0,
     map_update_failed = 0, lookup_missed = 0, wait_total_ns = 0, wait_max_ns = 0,
     max_lock_addr = 0, max_owner_pid = 0, max_contender_pid = 0, max_owner_name = '''',
     max_contender_name = ''''\<rparr>"

definition mutex_merge :: "Mutexlock_stats \<Rightarrow> Mutexlock_stats \<Rightarrow> Mutexlock_stats" where
  "mutex_merge s v = (let
     s1 = s\<lparr>attempted := attempted s + attempted v,
            contention_count := contention_count s + contention_count v,
            filtered_delay := filtered_delay s + filtered_delay v,
            ringbuf_dropped := ringbuf_dropped s + ringbuf_dropped v,
            map_update_failed := map_update_failed s + map_update_failed v,
            lookup_missed := lookup_missed s + lookup_missed v,
            wait_total_ns := wait_total_ns s + wait_total_ns v\<rparr>
     in if wait_max_ns v > wait_max_ns s1
        then s1\<lparr>wait_max_ns := wait_max_ns v, max_lock_addr := max_lock_addr v,
                max_owner_pid := max_owner_pid v, max_contender_pid := max_contender_pid v,
                max_owner_name := max_owner_name v, max_contender_name := max_contender_name v\<rparr>
        else s1)"

text \<open>The panel: the merged statistics; the average and the slowest lock when some wait was reported.\<close>

record Mutexlock_panel =
  panel_stats :: Mutexlock_stats
  panel_avg :: "u64 option"

definition mutex_print_stats ::
  "int \<Rightarrow> bool \<Rightarrow> Mutexlock_stats list option \<Rightarrow> Mutexlock_panel option" where
  "mutex_print_stats ncpus alloc_ok values =
     (if ncpus \<le> 0 \<or> \<not> alloc_ok then None
      else case values of None \<Rightarrow> None
      | Some vs \<Rightarrow>
        let s = foldl mutex_merge mutex_zero (take (nat ncpus) vs) in
        if attempted s = 0 \<and> contention_count s = 0 then None
        else Some \<lparr>panel_stats = s,
          panel_avg = (if contention_count s \<noteq> 0
                       then Some (wait_total_ns s div contention_count s) else None)\<rparr>)"

subsection \<open>The run function\<close>

text \<open>
  The configuration \<open>mutexlock_run\<close> builds from its arguments, and \<open>mutexlock_run\<close> itself over the calls it makes.
\<close>

definition mutexlock_ctrl_of :: "bool \<Rightarrow> s32 \<Rightarrow> u64 \<Rightarrow> u64 \<Rightarrow> u64 \<Rightarrow> Mutexlock_ctrl" where
  "mutexlock_ctrl_of en pid delay dev ino =
     \<lparr>enable = en, min_delay_ns = delay, target_pid = pid, pid_ns_dev = dev, pid_ns_ino = ino\<rparr>"

definition mutexlock_run ::
    "s32 \<Rightarrow> bool \<Rightarrow> s32 \<Rightarrow> u64 \<Rightarrow> run_env \<Rightarrow> (int \<times> Mutexlock_ctrl action list) option" where
  "mutexlock_run timeout en pid delay e =
     run_module (\<lambda>_. 1) (\<lambda>err. err < 0) neg_or_zero (mutexlock_ctrl_of en pid delay) timeout e"

subsection \<open>The line of an event\<close>

text \<open>\<open>handle_event\<close>.\<close>

definition mutex_handle_event :: "wall \<Rightarrow> Mutexlock_event \<Rightarrow> out_call list" where
  "mutex_handle_event now e =
     log_output_lock
     @ LOG now (''LOCK=0x'' @ ljust 16 (fmt_x (ev_ptr e)) @ '' | OWNER: TGID='' @ ljust 6 (fmt_d (ev_owner_tgid e))
         @ '' TID='' @ ljust 6 (fmt_d (ev_owner_pid e)) @ '' '' @ ljust 16 (ev_owner_name e)
         @ '' PRIO='' @ ljust 4 (fmt_d (ev_owner_prio e)) @ '' | '' @ C_RED @ ''CONTENDER'' @ C_RESET
         @ '': TGID='' @ ljust 6 (fmt_d (ev_contender_tgid e)) @ '' TID='' @ ljust 6 (fmt_d (ev_contender_pid e))
         @ '' '' @ ljust 16 (ev_contender_name e) @ '' PRIO='' @ ljust 4 (fmt_d (ev_contender_prio e)) @ '' | WAIT: '')
     @ log_col_ns (ev_contention_ns e) 100000 1000000
     @ printf endl
     @ log_output_unlock"

section \<open>Lemmas\<close>

interpretation mutexlock_runner: quiet_runner "\<lambda>err. err < 0" neg_or_zero "\<lambda>_. 1"
  by unfold_locales (simp_all add: neg_or_zero_simps)

definition mutex_ids :: "Mutexlock_ctrl \<Rightarrow> bpf_env \<Rightarrow> u64" where
  "mutex_ids c env = app_current_pid_tgid_ns env (pid_ns_dev c) (pid_ns_ino c)"

definition mutex_traced :: "Mutexlock_ctrl \<Rightarrow> s32 \<Rightarrow> bool" where
  "mutex_traced c tgid \<longleftrightarrow> target_pid c = 0 \<or> tgid = target_pid c"

fun mutex_starts :: "Mutexlock_ctrl \<Rightarrow> mutex_firing \<Rightarrow> (u64 \<times> contention_data) option" where
  "mutex_starts c (Slow_enter env km lock) =
     (if enable c \<and> mutex_ids c env \<noteq> 0 \<and> mutex_traced c (hi32 (mutex_ids c env)) \<and> env_update_ok env
      then Some (mutex_ids c env, contention_of c env km lock (mutex_ids c env)) else None)"
| "mutex_starts c (Slow_exit env) = None"

fun mutex_closes :: "Mutexlock_ctrl \<Rightarrow> mutex_firing \<Rightarrow> u64 \<Rightarrow> bool" where
  "mutex_closes c (Slow_enter env km lock) k = False"
| "mutex_closes c (Slow_exit env) k = (mutex_ids c env \<noteq> 0 \<and> k = mutex_ids c env)"

fun mutex_reports ::
  "Mutexlock_ctrl \<Rightarrow> mutex_firing \<Rightarrow> u64 \<Rightarrow> contention_data \<Rightarrow> Mutexlock_event option" where
  "mutex_reports c (Slow_enter env km lock) k v = None"
| "mutex_reports c (Slow_exit env) k v =
     (if enable c \<and> mutex_ids c env \<noteq> 0 \<and> k = mutex_ids c env \<and> mutex_traced c (cd_contender_tgid v) \<and>
         (min_delay_ns c = 0 \<or> min_delay_ns c \<le> env_ktime env - cd_enter_ts v) \<and> env_reserve_ok env
      then Some (mutex_event_of v (env_ktime env - cd_enter_ts v)) else None)"

fun mutex_env :: "mutex_firing \<Rightarrow> bpf_env" where
  "mutex_env (Slow_enter env km lock) = env"
| "mutex_env (Slow_exit env) = env"

definition mutex_inv :: "Mutexlock_ctrl \<Rightarrow> Mutexlock_state \<Rightarrow> bool" where
  "mutex_inv c s \<longleftrightarrow> ctrl_map s = Some c \<and> map_wf CONTENTION_MAX (contention_map s)"

definition mutex_init :: "Mutexlock_ctrl \<Rightarrow> nat \<Rightarrow> Mutexlock_state" where
  "mutex_init c ncpus =
     \<lparr>ctrl_map = Some c, stats_map = replicate ncpus mutex_zero, contention_map = [], rb = []\<rparr>"

lemma mutex_count_simps [simp]:
  "ctrl_map (mutex_count env f s) = ctrl_map s"
  "contention_map (mutex_count env f s) = contention_map s"
  "rb (mutex_count env f s) = rb s"
  "stats_map (mutex_count env f s) = percpu_upd (env_cpu env) f (stats_map s)"
  by (simp_all add: mutex_count_def)

lemma mutex_drop_simps [simp]:
  "ctrl_map (mutex_drop k s) = ctrl_map s"
  "contention_map (mutex_drop k s) = bpf_delete k (contention_map s)"
  "rb (mutex_drop k s) = rb s"
  "stats_map (mutex_drop k s) = stats_map s"
  by (simp_all add: mutex_drop_def)

lemma contention_of_simps [simp]:
  "cd_addr (contention_of c env km lock p) = lock"
  "cd_enter_ts (contention_of c env km lock p) = env_ktime env"
  "cd_contender_pid (contention_of c env km lock p) = lo32 p"
  "cd_contender_tgid (contention_of c env km lock p) = hi32 p"
  by (simp_all add: contention_of_def Let_def)

lemma mutex_event_of_simps [simp]:
  "ev_ptr (mutex_event_of d w) = cd_addr d"
  "ev_contention_ns (mutex_event_of d w) = w"
  "ev_owner_pid (mutex_event_of d w) = cd_owner_pid d"
  "ev_contender_pid (mutex_event_of d w) = cd_contender_pid d"
  "ev_contender_tgid (mutex_event_of d w) = cd_contender_tgid d"
  "ev_owner_name (mutex_event_of d w) = cd_owner_name d"
  "ev_contender_name (mutex_event_of d w) = cd_contender_name d"
  by (simp_all add: mutex_event_of_def)

lemma mutex_report_stats_simps [simp]:
  "contention_count (mutex_report_stats d w c) = contention_count c + 1"
  "wait_total_ns (mutex_report_stats d w c) = wait_total_ns c + w"
  "wait_max_ns (mutex_report_stats d w c) = max (wait_max_ns c) w"
  by (auto simp: mutex_report_stats_def Let_def max_def)

lemmas mutex_handler_defs =
  mutex_slowpath_entry_def mutex_slowpath_exit_def Let_def mutex_ids_def [symmetric]

lemma mutex_entry_ctrl [simp]: "ctrl_map (mutex_slowpath_entry env km lock s) = ctrl_map s"
  by (auto simp: mutex_handler_defs split: option.split)

lemma mutex_exit_ctrl [simp]: "ctrl_map (mutex_slowpath_exit env s) = ctrl_map s"
  by (auto simp: mutex_handler_defs split: option.split)

lemma mutex_entry_tab:
  assumes "ctrl_map s = Some c"
  shows "contention_map (mutex_slowpath_entry env km lock s) =
    (case mutex_starts c (Slow_enter env km lock) of None \<Rightarrow> contention_map s
     | Some (k, v) \<Rightarrow> map_or_same (lru_update CONTENTION_MAX (True, env_evict env) k v (contention_map s))
         (contention_map s))"
  by (cases "env_update_ok env")
    (auto simp: assms mutex_handler_defs mutex_traced_def split: option.split)

lemma mutex_exit_tab:
  assumes "ctrl_map s = Some c"
  shows "contention_map (mutex_slowpath_exit env s) =
    (if mutex_ids c env = 0 then contention_map s
     else bpf_delete (mutex_ids c env) (contention_map s))"
  by (cases "map_of (contention_map s) (mutex_ids c env)")
    (simp_all add: assms mutex_handler_defs)

lemma mutex_entry_rb: "rb (mutex_slowpath_entry env km lock s) = rb s"
  by (simp add: mutex_handler_defs split: option.split)

lemma mutex_exit_rb:
  assumes "ctrl_map s = Some c"
  shows "rb (mutex_slowpath_exit env s) = rb s @
    reported (mutex_reports c (Slow_exit env) (mutex_ids c env)) (contention_map s) (mutex_ids c env)"
  by (cases "map_of (contention_map s) (mutex_ids c env)")
    (auto simp: assms mutex_handler_defs mutex_traced_def)

lemma mutex_step_inv: "mutex_inv c s \<Longrightarrow> mutex_inv c (mutex_step e s)"
  by (cases e)
    (auto simp: mutex_inv_def mutex_entry_tab mutex_exit_tab lru.map_or_same_wf delete_map_wf
      split: option.split)

lemma mutex_inv_init: "mutex_inv c (mutex_init c n)"
  by (simp add: mutex_inv_def mutex_init_def)

lemma mutex_step_tab:
  assumes "mutex_inv c s" and "map_of (contention_map (mutex_step e s)) k = Some v"
  shows "mutex_starts c e = Some (k, v) \<or>
    (map_of (contention_map s) k = Some v \<and> \<not> mutex_closes c e k \<and>
     (\<forall>v'. mutex_starts c e \<noteq> Some (k, v')))"
proof (cases e)
  case (Slow_enter env km lock)
  then show ?thesis
    using assms lru.upd_opened [of CONTENTION_MAX "contention_map s" "(True, env_evict env)" _ _ k v]
    by (auto simp: mutex_inv_def mutex_entry_tab lru_update_None CONTENTION_MAX_def split: if_splits)
next
  case (Slow_exit env)
  then show ?thesis using assms by (auto simp: mutex_inv_def mutex_exit_tab split: if_splits)
qed

lemma mutex_step_rb:
  assumes "mutex_inv c s" and "x \<in> set (rb (mutex_step e s))"
  shows "x \<in> set (rb s) \<or>
    (\<exists>k v. map_of (contention_map s) k = Some v \<and> mutex_reports c e k v = Some x)"
proof (cases e)
  case (Slow_exit env)
  then show ?thesis using assms
    by (simp add: mutex_inv_def mutex_exit_rb in_reported del: mutex_reports.simps) blast
qed (use assms in \<open>simp add: mutex_entry_rb\<close>)

interpretation mutex_pair: paired_monitor mutex_step "\<lambda>_ _. True" "mutex_inv c" contention_map rb
  "mutex_starts c" "mutex_closes c" "mutex_reports c" for c
  by unfold_locales (use mutex_step_inv mutex_step_tab mutex_step_rb in blast)+

text \<open>
  The statistics of reported waits against the events in the ring buffer: their number, the
  sum of their waits, and the longest one with what describes it.
\<close>

definition mutex_tag :: "Mutexlock_stats \<Rightarrow> u64 \<times> u64 \<times> s32 \<times> s32 \<times> cstr \<times> cstr" where
  "mutex_tag c = (wait_max_ns c, max_lock_addr c, max_owner_pid c, max_contender_pid c,
     max_owner_name c, max_contender_name c)"

definition mutex_event_tag :: "Mutexlock_event \<Rightarrow> u64 \<times> u64 \<times> s32 \<times> s32 \<times> cstr \<times> cstr" where
  "mutex_event_tag e = (ev_contention_ns e, ev_ptr e, ev_owner_pid e, ev_contender_pid e,
     ev_owner_name e, ev_contender_name e)"

definition mutex_books :: "Mutexlock_state \<Rightarrow> bool" where
  "mutex_books s \<longleftrightarrow>
     sum_list (map contention_count (stats_map s)) = of_nat (length (rb s)) \<and>
     sum_list (map wait_total_ns (stats_map s)) = sum_list (map ev_contention_ns (rb s)) \<and>
     max_books (map mutex_tag (stats_map s)) (map mutex_event_tag (rb s))"

lemma mutex_books_other:
  assumes "mutex_books s"
    and "\<And>v. contention_count (f v) = contention_count v \<and> wait_total_ns (f v) = wait_total_ns v \<and>
      mutex_tag (f v) = mutex_tag v"
  shows "mutex_books (mutex_count env f s)"
  using assms by (simp add: mutex_books_def map_percpu_upd)

lemma mutex_books_tab [simp]:
  "mutex_books (s\<lparr>contention_map := m\<rparr>) = mutex_books s"
  "mutex_books (mutex_drop k s) = mutex_books s"
  by (simp_all add: mutex_books_def)

lemma mutex_report_tag:
  "mutex_tag (mutex_report_stats d w v) = max_tag (mutex_event_tag (mutex_event_of d w)) (mutex_tag v)"
  by (simp add: mutex_report_stats_def mutex_tag_def mutex_event_tag_def max_tag_def Let_def)

lemma mutex_books_report:
  assumes "mutex_books s" and "env_cpu env < length (stats_map s)"
  shows "mutex_books (mutex_count env (mutex_report_stats d w) s\<lparr>rb := rb s @ [mutex_event_of d w]\<rparr>)"
  using assms(1,2)
    max_books_report [of "map mutex_tag (stats_map s)" "map mutex_event_tag (rb s)" "env_cpu env"
      "mutex_event_tag (mutex_event_of d w)"]
  by (simp add: mutex_books_def sum_percpu_plus1 sum_percpu_plus [where d = w]
      map_percpu_upd_comm [of mutex_tag "mutex_report_stats d w", OF mutex_report_tag])

fun mutex_regular :: "mutex_firing \<Rightarrow> Mutexlock_state \<Rightarrow> bool" where
  "mutex_regular e s = (env_cpu (mutex_env e) < length (stats_map s))"

lemma mutex_step_books:
  assumes "mutex_books s" and "mutex_regular e s"
  shows "mutex_books (mutex_step e s)"
proof (cases e)
  case (Slow_enter env km lock)
  then show ?thesis using assms
    by (auto simp: mutex_handler_defs mutex_tag_def intro!: mutex_books_other split: option.split)
next
  case (Slow_exit env)
  then show ?thesis using assms
    by (auto simp: mutex_handler_defs mutex_tag_def intro!: mutex_books_other mutex_books_report
        split: option.split)
qed

lemma mutex_step_cpus [simp]: "length (stats_map (mutex_step e s)) = length (stats_map s)"
  by (cases e) (simp_all add: mutex_handler_defs split: option.split)

lemma mutex_run_cpus: "length (stats_map (fold mutex_step tr s)) = length (stats_map s)"
  by (induction tr arbitrary: s) simp_all

interpretation mutex_stat: probe_system mutex_step mutex_regular mutex_books
  by unfold_locales (rule mutex_step_books)

lemma mutex_books_init: "mutex_books (mutex_init c n)"
  by (auto simp: mutex_books_def mutex_init_def mutex_zero_def mutex_tag_def sum_list_replicate
      intro!: max_books_Nil)

interpretation mutex_rep: percpu_report mutex_zero mutex_merge
  "{attempted, contention_count, filtered_delay, ringbuf_dropped, map_update_failed, lookup_missed,
    wait_total_ns}" wait_max_ns mutex_tag
  by unfold_locales (auto simp: mutex_zero_def mutex_merge_def mutex_tag_def Let_def max_def)

definition mutex_demo_ctrl :: Mutexlock_ctrl where
  "mutex_demo_ctrl = \<lparr>enable = True, min_delay_ns = 3, target_pid = 0, pid_ns_dev = 1, pid_ns_ino = 4\<rparr>"

definition mutex_demo_run :: "mutex_firing list" where
  "mutex_demo_run =
     [Slow_enter (calm_env 0 10 7 8) demo_kmem 512, Slow_enter (calm_env 1 11 9 9) demo_kmem 512,
      Slow_exit (calm_env 1 25 7 8), Slow_exit (calm_env 0 13 9 9)]"

lemmas mutex_demo_defs = mutex_demo_ctrl_def mutex_demo_run_def mutex_init_def mutex_handler_defs
  mutex_ids_def mutex_count_def mutex_drop_def percpu_upd_def contention_of_def probe_read_str_def
  CONTENTION_MAX_def TASK_COMM_LEN_def MUTEX_OWNER_FLAGS_def lru_update_def lru_room_def
  lru_evict_def bpf_delete_def mutex_event_of_def mutex_report_stats_def mutex_zero_def
  pack32_eq_iff

lemma mutex_demo_rb: "rb (fold mutex_step mutex_demo_run (mutex_init mutex_demo_ctrl 2)) =
  [\<lparr>ev_ptr = 512, ev_owner_pid = 2, ev_owner_tgid = 2, ev_contender_pid = 8, ev_contender_tgid = 7,
    ev_owner_prio = 120, ev_contender_prio = 120, ev_contention_ns = 15,
    ev_contender_name = ''demo'', ev_owner_name = ''task''\<rparr>]"
  by (simp add: mutex_demo_defs)

interpretation mutex_lines: whole_printer "\<lambda>(now, e). mutex_handle_event now e"
  "\<lambda>(now, e). printable (ev_owner_name e) \<and> printable (ev_contender_name e)"
  by unfold_locales (auto simp: mutex_handle_event_def line_simps split: if_splits)

text \<open>The key of the call a firing ends; as long as nothing is evicted the module reports exactly the calls of the specification.\<close>

fun mutex_ends :: "Mutexlock_ctrl \<Rightarrow> mutex_firing \<Rightarrow> u64 option" where
  "mutex_ends c (Slow_enter env km lock) = None"
| "mutex_ends c (Slow_exit env) = (if mutex_ids c env = 0 then None else Some (mutex_ids c env))"

lemma mutex_step_calls:
  assumes "mutex_inv c s" and "lru_fits CONTENTION_MAX (env_evict (mutex_env e)) (contention_map s) (mutex_starts c e)"
  shows "(map_of (contention_map (mutex_step e s)), rb (mutex_step e s)) =
    call_step (mutex_starts c) (mutex_ends c) (mutex_reports c) e (map_of (contention_map s), rb s)"
  using assms
  by (cases e) (auto simp: mutex_inv_def mutex_entry_tab mutex_entry_rb mutex_exit_tab mutex_exit_rb
      lru_fits_update call_step_def reported_def split: option.split)

interpretation mutex_calls: call_monitor mutex_step
  "\<lambda>e s. lru_fits CONTENTION_MAX (env_evict (mutex_env e)) (contention_map s) (mutex_starts c e)"
  "mutex_inv c" contention_map rb "mutex_starts c" "mutex_ends c" "mutex_reports c" for c
  by unfold_locales (simp_all add: mutex_step_inv mutex_step_calls)

text \<open>Every event passed the filters of the configuration.\<close>

lemma mutex_filtered:
  assumes "x \<in> set (rb (fold mutex_step tr (mutex_init c n)))"
  shows "enable c \<and> min_delay_ns c \<le> ev_contention_ns x \<and> (target_pid c = 0 \<or> ev_contender_tgid x = target_pid c)"
  using assms
  by (rule mutex_pair.reported_all [OF _ admissible_True mutex_inv_init])
     (auto simp: mutex_init_def mutex_traced_def elim!: mutex_starts.elims mutex_reports.elims split: if_splits)

section \<open>Properties\<close>

text \<open>
  Every contention reported is a wait of one thread for one lock: the thread entered the slow
  path of the mutex at the address shown and left the slow path later, with no other
  recorded entry and no exit of that thread between; the wait is the time between the two and
  at least the threshold. The owner shown is the task in the mutex's owner word, without its
  flag bits, at the moment of entry.
\<close>

lemma mutex_reported_wait:
  assumes "x \<in> set (rb (fold mutex_step tr (mutex_init c n)))"
  shows "\<exists>pre env1 km lock mid env2 post.
    tr = pre @ Slow_enter env1 km lock # mid @ Slow_exit env2 # post \<and>
    mutex_ids c env1 = mutex_ids c env2 \<and> mutex_ids c env1 \<noteq> 0 \<and>
    ev_ptr x = lock \<and> ev_contender_pid x = lo32 (mutex_ids c env1) \<and>
    ev_contention_ns x = env_ktime env2 - env_ktime env1 \<and> min_delay_ns c \<le> ev_contention_ns x \<and>
    (target_pid c = 0 \<or> ev_contender_tgid x = target_pid c) \<and>
    ev_owner_pid x = (if k_mutex_owner km lock AND NOT 7 = 0 then 0
      else app_task_tid_ns km (k_mutex_owner km lock AND NOT 7) (pid_ns_ino c)) \<and>
    (\<forall>e \<in> set mid. \<not> mutex_closes c e (mutex_ids c env1) \<and>
       (\<forall>v. mutex_starts c e \<noteq> Some (mutex_ids c env1, v)))"
proof -
  obtain pre e1 mid e2 post k v where t: "tr = pre @ e1 # mid @ e2 # post"
    and s: "mutex_starts c e1 = Some (k, v)" and r: "mutex_reports c e2 k v = Some x"
    and m: "\<forall>e \<in> set mid. \<not> mutex_closes c e k \<and> (\<forall>v'. mutex_starts c e \<noteq> Some (k, v'))"
    using mutex_pair.reported_pair [OF admissible_True mutex_inv_init _ _ assms]
    by (auto simp: mutex_init_def)
  obtain env1 km lock where e1: "e1 = Slow_enter env1 km lock" using s by (cases e1) auto
  obtain env2 where e2: "e2 = Slow_exit env2" using r by (cases e2) auto
  have v: "v = contention_of c env1 km lock k" "k = mutex_ids c env1" "k \<noteq> 0"
    using s e1 by (auto split: if_splits)
  have x: "x = mutex_event_of v (env_ktime env2 - cd_enter_ts v)" "k = mutex_ids c env2"
    "mutex_traced c (cd_contender_tgid v)"
    "min_delay_ns c = 0 \<or> min_delay_ns c \<le> env_ktime env2 - cd_enter_ts v"
    using r e2 by (auto split: if_splits)
  have p: "tr = pre @ Slow_enter env1 km lock # mid @ Slow_exit env2 # post" using t e1 e2 by simp
  have d: "min_delay_ns c \<le> ev_contention_ns x" using x(1,4) by auto
  have o: "ev_owner_pid x = (if k_mutex_owner km lock AND NOT 7 = 0 then 0
      else app_task_tid_ns km (k_mutex_owner km lock AND NOT 7) (pid_ns_ino c))"
    using x(1) v(1) by (simp add: contention_of_def MUTEX_OWNER_FLAGS_def Let_def)
  show ?thesis
    by (intro exI conjI, rule p) (use v x d o m in \<open>simp_all add: mutex_traced_def\<close>)
qed

text \<open>
  The summary describes exactly the events reported. When all firings are on possible CPUs and
  the panel appears, its count is the number of events in the ring buffer, the average is the
  sum of their waits over that number, no event waited longer than the maximum shown, and a
  nonzero maximum is shown with the lock, owner and contender of one of the events.
\<close>

lemma mutex_panel_true:
  assumes "admissible mutex_regular mutex_step tr (mutex_init c n)"
    and "mutex_print_stats (int n) True (Some (stats_map (fold mutex_step tr (mutex_init c n)))) = Some p"
  defines "evs \<equiv> rb (fold mutex_step tr (mutex_init c n))"
  shows "contention_count (panel_stats p) = of_nat (length evs) \<and>
    (contention_count (panel_stats p) \<noteq> 0 \<longrightarrow>
       panel_avg p = Some (sum_list (map ev_contention_ns evs) div of_nat (length evs))) \<and>
    (\<forall>e \<in> set evs. ev_contention_ns e \<le> wait_max_ns (panel_stats p)) \<and>
    (wait_max_ns (panel_stats p) \<noteq> 0 \<longrightarrow>
       (\<exists>e \<in> set evs. mutex_event_tag e = mutex_tag (panel_stats p)))"
proof -
  let ?vs = "stats_map (fold mutex_step tr (mutex_init c n))"
  let ?m = "foldl mutex_merge mutex_zero ?vs"
  have "length ?vs = n" by (simp add: mutex_run_cpus mutex_init_def)
  then have p: "panel_stats p = ?m" "panel_avg p = (if contention_count ?m \<noteq> 0
      then Some (wait_total_ns ?m div contention_count ?m) else None)"
    using assms(2) by (auto simp: mutex_print_stats_def Let_def split: if_splits)
  have b: "mutex_books (fold mutex_step tr (mutex_init c n))"
    by (rule mutex_stat.run_inv [OF assms(1) mutex_books_init])
  then have c: "contention_count ?m = of_nat (length evs)"
    "wait_total_ns ?m = sum_list (map ev_contention_ns evs)"
    by (simp_all add: mutex_books_def evs_def mutex_rep.report_counter)
  have g: "ev_contention_ns e \<le> wait_max_ns ?m" if e: "e \<in> set evs" for e
  proof -
    obtain v where "v \<in> set ?vs" "ev_contention_ns e \<le> wait_max_ns v"
      using b e by (force simp: mutex_books_def max_books_def evs_def mutex_tag_def mutex_event_tag_def)
    then show ?thesis using mutex_rep.report_mx_ge by (meson order_trans)
  qed
  have "\<exists>e \<in> set evs. mutex_event_tag e = mutex_tag ?m" if z: "wait_max_ns ?m \<noteq> 0"
  proof -
    obtain v where v: "v \<in> set ?vs" "wait_max_ns ?m = wait_max_ns v" "mutex_tag ?m = mutex_tag v"
      using mutex_rep.report_source [OF z] by blast
    then have "mutex_tag v \<in> set (map mutex_event_tag evs)"
      using b z by (auto simp: mutex_books_def max_books_def evs_def mutex_tag_def)
    then show ?thesis using v(3) by auto
  qed
  then show ?thesis using p c g by auto
qed

end
