(* ===== verification/DrSnoop.thy ===== *)
theory DrSnoop
  imports CallSpec PidNs RunLoop Logger
begin

section \<open>mem/dr\_snoop: direct reclaim latency\<close>

text \<open>
  \<^verbatim>\<open>mem/dr_snoop\<close>: how long a thread is held up reclaiming memory itself. \<open>trace_direct_reclaim_begin\<close>
  records the start in an LRU map, \<open>trace_direct_reclaim_end\<close> counts every completed reclaim, then
  filters and reports. The user side merges the statistics and formats the events.
\<close>

record DrSnoop_ctrl =
  enable :: bool
  min_delay_ns :: u64
  target_pid :: s32
  pid_ns_dev :: u64
  pid_ns_ino :: u64

record val_t =
  v_id :: u64
  v_ts :: u64
  v_name :: cstr

record data_t =
  d_id :: u64
  d_nr_reclaimed :: u64
  d_delta :: u64
  d_ts_ns :: u64
  d_name :: cstr

record DrSnoop_stats =
  attempted :: u64
  completed :: u64
  filtered_delay :: u64
  ringbuf_dropped :: u64
  map_update_failed :: u64
  lookup_missed :: u64
  total_ns :: u64
  max_ns :: u64
  total_reclaimed :: u64
  max_pid :: s32
  max_comm :: cstr

text \<open>The maps of the module; \<open>start\<close> is an LRU hash of 16384 entries.\<close>

record DrSnoop_state =
  ctrl_map :: "DrSnoop_ctrl option"
  stats_map :: "DrSnoop_stats list"
  start :: "(u64, val_t) bmap"
  rb :: "data_t list"

definition DR_START_MAX :: nat where
  "DR_START_MAX = 16384"

definition dr_count ::
  "bpf_env \<Rightarrow> (DrSnoop_stats \<Rightarrow> DrSnoop_stats) \<Rightarrow> DrSnoop_state \<Rightarrow> DrSnoop_state" where
  "dr_count env f s = s\<lparr>stats_map := percpu_upd (env_cpu env) f (stats_map s)\<rparr>"

definition dr_val_of :: "bpf_env \<Rightarrow> u64 \<Rightarrow> val_t" where
  "dr_val_of env i = \<lparr>v_id = i, v_ts = env_ktime env, v_name = env_comm env\<rparr>"

definition trace_direct_reclaim_begin :: "bpf_env \<Rightarrow> DrSnoop_state \<Rightarrow> DrSnoop_state" where
  "trace_direct_reclaim_begin env s =
     (case ctrl_map s of None \<Rightarrow> s
      | Some ctrl \<Rightarrow>
        if \<not> enable ctrl then s
        else let i = app_current_pid_tgid_ns env (pid_ns_dev ctrl) (pid_ns_ino ctrl) in
        if i = 0 then s
        else let tgid = hi32 i in
        if target_pid ctrl \<noteq> 0 \<and> target_pid ctrl \<noteq> tgid then s
        else let
          s1 = dr_count env (\<lambda>c. c\<lparr>attempted := attempted c + 1\<rparr>) s;
          val = dr_val_of env i
        in (case lru_update DR_START_MAX (env_update_ok env, env_evict env) i val (start s1) of
              None \<Rightarrow> dr_count env (\<lambda>c. c\<lparr>map_update_failed := map_update_failed c + 1\<rparr>) s1
            | Some m \<Rightarrow> s1\<lparr>start := m\<rparr>))"

text \<open>The statistics block of the end handler, and the event it assembles.\<close>

definition dr_end_stats ::
  "val_t \<Rightarrow> s32 \<Rightarrow> u64 \<Rightarrow> u64 \<Rightarrow> DrSnoop_stats \<Rightarrow> DrSnoop_stats" where
  "dr_end_stats val tgid delay_ns reclaimed c0 = (let
     c1 = c0\<lparr>completed := completed c0 + 1\<rparr>;
     c2 = c1\<lparr>total_ns := total_ns c1 + delay_ns\<rparr>;
     c3 = c2\<lparr>total_reclaimed := total_reclaimed c2 + reclaimed\<rparr>
     in if delay_ns > max_ns c3
        then c3\<lparr>max_ns := delay_ns, max_pid := tgid, max_comm := v_name val\<rparr>
        else c3)"

definition dr_event_of :: "bpf_env \<Rightarrow> val_t \<Rightarrow> u64 \<Rightarrow> data_t" where
  "dr_event_of env val reclaimed =
     \<lparr>d_id = v_id val, d_nr_reclaimed = reclaimed, d_delta = env_ktime env - v_ts val,
      d_ts_ns = env_ktime env, d_name = v_name val\<rparr>"

definition dr_drop :: "u64 \<Rightarrow> DrSnoop_state \<Rightarrow> DrSnoop_state" where
  "dr_drop k s = s\<lparr>start := bpf_delete k (start s)\<rparr>"

definition trace_direct_reclaim_end :: "bpf_env \<Rightarrow> u64 \<Rightarrow> DrSnoop_state \<Rightarrow> DrSnoop_state" where
  "trace_direct_reclaim_end env nr_reclaimed s =
     (case ctrl_map s of None \<Rightarrow> s
      | Some ctrl \<Rightarrow>
        let i = app_current_pid_tgid_ns env (pid_ns_dev ctrl) (pid_ns_ino ctrl) in
        if i = 0 then s
        else let tgid = hi32 i in
        (case map_of (start s) i of
          None \<Rightarrow>
            if enable ctrl \<and> (target_pid ctrl = 0 \<or> target_pid ctrl = tgid)
            then dr_count env (\<lambda>c. c\<lparr>lookup_missed := lookup_missed c + 1\<rparr>) s else s
        | Some val \<Rightarrow>
            if \<not> enable ctrl \<or> (target_pid ctrl \<noteq> 0 \<and> target_pid ctrl \<noteq> tgid)
            then dr_drop i s
            else let
              delay_ns = env_ktime env - v_ts val;
              s1 = dr_count env (dr_end_stats val tgid delay_ns nr_reclaimed) s
            in if min_delay_ns ctrl \<noteq> 0 \<and> delay_ns < min_delay_ns ctrl
            then dr_drop i (dr_count env (\<lambda>c. c\<lparr>filtered_delay := filtered_delay c + 1\<rparr>) s1)
            else if \<not> env_reserve_ok env
            then dr_drop i (dr_count env (\<lambda>c. c\<lparr>ringbuf_dropped := ringbuf_dropped c + 1\<rparr>) s1)
            else dr_drop i (s1\<lparr>rb := rb s1 @ [dr_event_of env val nr_reclaimed]\<rparr>)))"

datatype dr_firing = Begin bpf_env | End bpf_env u64

fun dr_step :: "dr_firing \<Rightarrow> DrSnoop_state \<Rightarrow> DrSnoop_state" where
  "dr_step (Begin env) s = trace_direct_reclaim_begin env s"
| "dr_step (End env nr) s = trace_direct_reclaim_end env nr s"

subsection \<open>The user side\<close>

definition dr_zero :: DrSnoop_stats where
  "dr_zero = \<lparr>attempted = 0, completed = 0, filtered_delay = 0, ringbuf_dropped = 0,
     map_update_failed = 0, lookup_missed = 0, total_ns = 0, max_ns = 0, total_reclaimed = 0,
     max_pid = 0, max_comm = ''''\<rparr>"

definition dr_merge :: "DrSnoop_stats \<Rightarrow> DrSnoop_stats \<Rightarrow> DrSnoop_stats" where
  "dr_merge tot v = (let
     t1 = tot\<lparr>attempted := attempted tot + attempted v,
            completed := completed tot + completed v,
            filtered_delay := filtered_delay tot + filtered_delay v,
            ringbuf_dropped := ringbuf_dropped tot + ringbuf_dropped v,
            map_update_failed := map_update_failed tot + map_update_failed v,
            lookup_missed := lookup_missed tot + lookup_missed v,
            total_ns := total_ns tot + total_ns v,
            total_reclaimed := total_reclaimed tot + total_reclaimed v\<rparr>
     in if max_ns v > max_ns t1
        then t1\<lparr>max_ns := max_ns v, max_pid := max_pid v, max_comm := max_comm v\<rparr>
        else t1)"

text \<open>The panel: the merged statistics, and the average and maximum in microseconds.\<close>

record DrSnoop_panel =
  panel_stats :: DrSnoop_stats
  panel_avg_max_us :: "(u64 \<times> u64) option"

definition dr_print_stats ::
  "int \<Rightarrow> bool \<Rightarrow> DrSnoop_stats list option \<Rightarrow> DrSnoop_panel option" where
  "dr_print_stats ncpus alloc_ok values =
     (if ncpus \<le> 0 \<or> \<not> alloc_ok then None
      else case values of None \<Rightarrow> None
      | Some vs \<Rightarrow>
        let tot = foldl dr_merge dr_zero (take (nat ncpus) vs) in
        if attempted tot = 0 \<and> completed tot = 0 then None
        else Some \<lparr>panel_stats = tot,
          panel_avg_max_us = (if completed tot \<noteq> 0
             then Some (total_ns tot div completed tot div 1000, max_ns tot div 1000)
             else None)\<rparr>)"

subsection \<open>The run function\<close>

text \<open>
  The configuration \<open>dr_snoop_run\<close> builds from its arguments, and \<open>dr_snoop_run\<close> itself over the calls it makes.
\<close>

definition dr_snoop_ctrl_of :: "bool \<Rightarrow> s32 \<Rightarrow> u64 \<Rightarrow> u64 \<Rightarrow> u64 \<Rightarrow> DrSnoop_ctrl" where
  "dr_snoop_ctrl_of en pid delay dev ino =
     \<lparr>enable = en, min_delay_ns = delay, target_pid = pid, pid_ns_dev = dev, pid_ns_ino = ino\<rparr>"

definition dr_snoop_run ::
    "s32 \<Rightarrow> bool \<Rightarrow> s32 \<Rightarrow> u64 \<Rightarrow> run_env \<Rightarrow> (int \<times> DrSnoop_ctrl action list) option" where
  "dr_snoop_run timeout en pid delay e =
     run_module (\<lambda>_. 1) (\<lambda>err. err \<noteq> 0) neg_or_self (dr_snoop_ctrl_of en pid delay) timeout e"

subsection \<open>The line of an event\<close>

text \<open>\<open>handle_event\<close>: nothing for a short record; the latency as milliseconds with three decimals.\<close>

definition DATA_T_SIZE :: nat where
  "DATA_T_SIZE = 48"

definition dr_handle_event :: "nat \<Rightarrow> wall \<Rightarrow> data_t \<Rightarrow> out_call list" where
  "dr_handle_event data_sz now event =
     (if data_sz < DATA_T_SIZE then []
      else let delay_us = d_delta event div 1000 in
        log_output_lock
        @ printf (ljust 8 (snprintf 32 (strftime_hms now)) @ '' '' @ ljust 16 (d_name event)
            @ '' PID='' @ ljust 7 (fmt_u (hi32 (d_id event))) @ '' reclaimed='' @ ljust 8 (fmt_u (d_nr_reclaimed event))
            @ '' latency='' @ fmt_u (delay_us div 1000) @ ''.'' @ zjust 3 (fmt_u (delay_us mod 1000)) @ ''ms'' @ endl)
        @ log_output_unlock)"

section \<open>Lemmas\<close>

interpretation dr_snoop_runner: module_runner "\<lambda>err. err \<noteq> 0" neg_or_self "\<lambda>_. 1"
  by unfold_locales (simp_all add: neg_or_self_simps)

definition dr_ids :: "DrSnoop_ctrl \<Rightarrow> bpf_env \<Rightarrow> u64" where
  "dr_ids c env = app_current_pid_tgid_ns env (pid_ns_dev c) (pid_ns_ino c)"

definition dr_traced :: "DrSnoop_ctrl \<Rightarrow> u64 \<Rightarrow> bool" where
  "dr_traced c i \<longleftrightarrow> target_pid c = 0 \<or> hi32 i = target_pid c"

fun dr_starts :: "DrSnoop_ctrl \<Rightarrow> dr_firing \<Rightarrow> (u64 \<times> val_t) option" where
  "dr_starts c (Begin env) =
     (if enable c \<and> dr_ids c env \<noteq> 0 \<and> dr_traced c (dr_ids c env) \<and> env_update_ok env
      then Some (dr_ids c env, dr_val_of env (dr_ids c env)) else None)"
| "dr_starts c (End env nr) = None"

fun dr_closes :: "DrSnoop_ctrl \<Rightarrow> dr_firing \<Rightarrow> u64 \<Rightarrow> bool" where
  "dr_closes c (Begin env) k = False"
| "dr_closes c (End env nr) k = (dr_ids c env \<noteq> 0 \<and> k = dr_ids c env)"

fun dr_reports :: "DrSnoop_ctrl \<Rightarrow> dr_firing \<Rightarrow> u64 \<Rightarrow> val_t \<Rightarrow> data_t option" where
  "dr_reports c (Begin env) k v = None"
| "dr_reports c (End env nr) k v =
     (if enable c \<and> dr_ids c env \<noteq> 0 \<and> k = dr_ids c env \<and> dr_traced c k \<and>
         (min_delay_ns c = 0 \<or> min_delay_ns c \<le> env_ktime env - v_ts v) \<and> env_reserve_ok env
      then Some (dr_event_of env v nr) else None)"

fun dr_env :: "dr_firing \<Rightarrow> bpf_env" where
  "dr_env (Begin env) = env"
| "dr_env (End env nr) = env"

definition dr_inv :: "DrSnoop_ctrl \<Rightarrow> DrSnoop_state \<Rightarrow> bool" where
  "dr_inv c s \<longleftrightarrow> ctrl_map s = Some c \<and> map_wf DR_START_MAX (start s)"

definition dr_init :: "DrSnoop_ctrl \<Rightarrow> nat \<Rightarrow> DrSnoop_state" where
  "dr_init c ncpus =
     \<lparr>ctrl_map = Some c, stats_map = replicate ncpus dr_zero, start = [], rb = []\<rparr>"

lemma dr_count_simps [simp]:
  "ctrl_map (dr_count env f s) = ctrl_map s"
  "start (dr_count env f s) = start s"
  "rb (dr_count env f s) = rb s"
  "stats_map (dr_count env f s) = percpu_upd (env_cpu env) f (stats_map s)"
  by (simp_all add: dr_count_def)

lemma dr_drop_simps [simp]:
  "ctrl_map (dr_drop k s) = ctrl_map s"
  "start (dr_drop k s) = bpf_delete k (start s)"
  "rb (dr_drop k s) = rb s"
  "stats_map (dr_drop k s) = stats_map s"
  by (simp_all add: dr_drop_def)

lemma dr_val_of_simps [simp]:
  "v_id (dr_val_of env i) = i" "v_ts (dr_val_of env i) = env_ktime env"
  "v_name (dr_val_of env i) = env_comm env"
  by (simp_all add: dr_val_of_def)

lemma dr_end_stats_simps [simp]:
  "completed (dr_end_stats v t d r c) = completed c + 1"
  "filtered_delay (dr_end_stats v t d r c) = filtered_delay c"
  "ringbuf_dropped (dr_end_stats v t d r c) = ringbuf_dropped c"
  "max_ns (dr_end_stats v t d r c) = max (max_ns c) d"
  by (auto simp: dr_end_stats_def Let_def max_def)

lemmas dr_handler_defs = trace_direct_reclaim_begin_def trace_direct_reclaim_end_def Let_def
  dr_ids_def [symmetric]

lemma dr_begin_ctrl [simp]: "ctrl_map (trace_direct_reclaim_begin env s) = ctrl_map s"
  by (auto simp: dr_handler_defs split: option.split)

lemma dr_end_ctrl [simp]: "ctrl_map (trace_direct_reclaim_end env nr s) = ctrl_map s"
  by (auto simp: dr_handler_defs split: option.split)

lemma dr_begin_tab:
  assumes "ctrl_map s = Some c"
  shows "start (trace_direct_reclaim_begin env s) =
    (case dr_starts c (Begin env) of None \<Rightarrow> start s
     | Some (k, v) \<Rightarrow> map_or_same (lru_update DR_START_MAX (True, env_evict env) k v (start s)) (start s))"
  by (cases "env_update_ok env")
    (auto simp: assms dr_handler_defs dr_traced_def split: option.split)

lemma dr_end_tab:
  assumes "ctrl_map s = Some c"
  shows "start (trace_direct_reclaim_end env nr s) =
    (if dr_ids c env = 0 then start s else bpf_delete (dr_ids c env) (start s))"
  by (cases "map_of (start s) (dr_ids c env)") (simp_all add: assms dr_handler_defs)

lemma dr_begin_rb: "rb (trace_direct_reclaim_begin env s) = rb s"
  by (simp add: dr_handler_defs split: option.split)

lemma dr_end_rb:
  assumes "ctrl_map s = Some c"
  shows "rb (trace_direct_reclaim_end env nr s) = rb s @
    reported (dr_reports c (End env nr) (dr_ids c env)) (start s) (dr_ids c env)"
  by (cases "map_of (start s) (dr_ids c env)")
    (auto simp: assms dr_handler_defs dr_traced_def)

lemma dr_step_inv: "dr_inv c s \<Longrightarrow> dr_inv c (dr_step e s)"
  by (cases e)
    (auto simp: dr_inv_def dr_begin_tab dr_end_tab lru.map_or_same_wf delete_map_wf
      split: option.split)

lemma dr_inv_init: "dr_inv c (dr_init c n)"
  by (simp add: dr_inv_def dr_init_def)

lemma dr_step_tab:
  assumes "dr_inv c s" and "map_of (start (dr_step e s)) k = Some v"
  shows "dr_starts c e = Some (k, v) \<or>
    (map_of (start s) k = Some v \<and> \<not> dr_closes c e k \<and> (\<forall>v'. dr_starts c e \<noteq> Some (k, v')))"
proof (cases e)
  case (Begin env)
  then show ?thesis
    using assms lru.upd_opened [of DR_START_MAX "start s" "(True, env_evict env)" _ _ k v]
    by (auto simp: dr_inv_def dr_begin_tab lru_update_None DR_START_MAX_def split: if_splits)
next
  case (End env nr)
  then show ?thesis using assms by (auto simp: dr_inv_def dr_end_tab split: if_splits)
qed

lemma dr_step_rb:
  assumes "dr_inv c s" and "x \<in> set (rb (dr_step e s))"
  shows "x \<in> set (rb s) \<or> (\<exists>k v. map_of (start s) k = Some v \<and> dr_reports c e k v = Some x)"
proof (cases e)
  case (End env nr)
  then show ?thesis using assms
    by (simp add: dr_inv_def dr_end_rb in_reported del: dr_reports.simps) blast
qed (use assms in \<open>simp add: dr_begin_rb\<close>)

interpretation dr_pair: paired_monitor dr_step "\<lambda>_ _. True" "dr_inv c" start rb
  "dr_starts c" "dr_closes c" "dr_reports c" for c
  by unfold_locales (use dr_step_inv dr_step_tab dr_step_rb in blast)+

text \<open>Completed reclaims against the events in the ring buffer.\<close>

fun dr_regular :: "dr_firing \<Rightarrow> DrSnoop_state \<Rightarrow> bool" where
  "dr_regular e s = (env_cpu (dr_env e) < length (stats_map s))"

definition dr_flow :: "DrSnoop_stats \<Rightarrow> u64" where
  "dr_flow c = completed c - filtered_delay c - ringbuf_dropped c"

definition dr_quantity :: "DrSnoop_state \<Rightarrow> u64" where
  "dr_quantity s = sum_list (map dr_flow (stats_map s)) - of_nat (length (rb s))"

lemma dr_step_quantity:
  assumes "dr_regular e s"
  shows "dr_quantity (dr_step e s) = dr_quantity s"
  using assms
  by (cases e) (auto simp: dr_handler_defs dr_quantity_def dr_flow_def sum_percpu_rules
      algebra_simps split: option.split)

interpretation dr_cons: conserved_monitor dr_step dr_regular "\<lambda>_. True" dr_quantity
  by unfold_locales (simp_all add: dr_step_quantity)

interpretation dr_rep: percpu_report dr_zero dr_merge
  "{attempted, completed, filtered_delay, ringbuf_dropped, map_update_failed, lookup_missed,
    total_ns, total_reclaimed}" max_ns "\<lambda>c. (max_pid c, max_comm c)"
  by unfold_locales (auto simp: dr_zero_def dr_merge_def Let_def max_def)

lemma dr_step_cpus [simp]: "length (stats_map (dr_step e s)) = length (stats_map s)"
  by (cases e) (simp_all add: dr_handler_defs split: option.split)

lemma dr_run_cpus: "length (stats_map (fold dr_step tr s)) = length (stats_map s)"
  by (induction tr arbitrary: s) simp_all

definition dr_demo_ctrl :: DrSnoop_ctrl where
  "dr_demo_ctrl = \<lparr>enable = True, min_delay_ns = 3, target_pid = 7, pid_ns_dev = 1, pid_ns_ino = 4\<rparr>"

definition dr_demo_run :: "dr_firing list" where
  "dr_demo_run = [Begin (calm_env 0 10 7 8), Begin (calm_env 1 11 9 9), End (calm_env 1 25 7 8) 32]"

lemmas dr_demo_defs = dr_demo_ctrl_def dr_demo_run_def dr_init_def dr_handler_defs
  dr_ids_def dr_count_def dr_drop_def percpu_upd_def dr_val_of_def DR_START_MAX_def
  lru_update_def lru_room_def lru_evict_def bpf_delete_def dr_event_of_def dr_end_stats_def
  dr_zero_def pack32_eq_iff

lemma dr_demo_rb: "rb (fold dr_step dr_demo_run (dr_init dr_demo_ctrl 2)) =
  [\<lparr>d_id = pack32 7 8, d_nr_reclaimed = 32, d_delta = 15, d_ts_ns = 25, d_name = ''demo''\<rparr>]"
  by (simp add: dr_demo_defs)

interpretation dr_lines: whole_printer "\<lambda>(sz, now, e). dr_handle_event sz now e" "\<lambda>(sz, now, e). printable (d_name e)"
  by unfold_locales (auto simp: dr_handle_event_def line_simps Let_def split: if_splits)

text \<open>The key of the call a firing ends; as long as nothing is evicted the module reports exactly the calls of the specification.\<close>

fun dr_ends :: "DrSnoop_ctrl \<Rightarrow> dr_firing \<Rightarrow> u64 option" where
  "dr_ends c (Begin env) = None"
| "dr_ends c (End env nr) = (if dr_ids c env = 0 then None else Some (dr_ids c env))"

lemma dr_step_calls:
  assumes "dr_inv c s" and "lru_fits DR_START_MAX (env_evict (dr_env e)) (start s) (dr_starts c e)"
  shows "(map_of (start (dr_step e s)), rb (dr_step e s)) =
    call_step (dr_starts c) (dr_ends c) (dr_reports c) e (map_of (start s), rb s)"
  using assms
  by (cases e) (auto simp: dr_inv_def dr_begin_tab dr_begin_rb dr_end_tab dr_end_rb
      lru_fits_update call_step_def reported_def split: option.split)

interpretation dr_calls: call_monitor dr_step
  "\<lambda>e s. lru_fits DR_START_MAX (env_evict (dr_env e)) (start s) (dr_starts c e)"
  "dr_inv c" start rb "dr_starts c" "dr_ends c" "dr_reports c" for c
  by unfold_locales (simp_all add: dr_step_inv dr_step_calls)

text \<open>Every event passed the filters of the configuration.\<close>

lemma dr_filtered:
  assumes "x \<in> set (rb (fold dr_step tr (dr_init c n)))"
  shows "enable c \<and> min_delay_ns c \<le> d_delta x \<and> (target_pid c = 0 \<or> hi32 (d_id x) = target_pid c)"
  using assms
  by (rule dr_pair.reported_all [OF _ admissible_True dr_inv_init])
     (auto simp: dr_init_def dr_event_of_def dr_traced_def elim!: dr_starts.elims dr_reports.elims split: if_splits)

section \<open>Properties\<close>

text \<open>
  Every reclaim reported is one begin and one later end of the same thread, with no end and
  no recorded begin of that thread between them; the latency is the time between the two, at
  least the threshold, the pages are those of the end event, and the process is the target
  process when one is set.
\<close>

lemma dr_reported_reclaim:
  assumes "x \<in> set (rb (fold dr_step tr (dr_init c n)))"
  shows "\<exists>pre env1 mid env2 nr post.
    tr = pre @ Begin env1 # mid @ End env2 nr # post \<and>
    dr_ids c env1 = dr_ids c env2 \<and> d_id x = dr_ids c env1 \<and> d_id x \<noteq> 0 \<and>
    d_delta x = env_ktime env2 - env_ktime env1 \<and> min_delay_ns c \<le> d_delta x \<and>
    d_nr_reclaimed x = nr \<and> d_name x = env_comm env1 \<and>
    (target_pid c = 0 \<or> hi32 (d_id x) = target_pid c) \<and>
    (\<forall>e \<in> set mid. \<not> dr_closes c e (d_id x) \<and> (\<forall>v. dr_starts c e \<noteq> Some (d_id x, v)))"
proof -
  obtain pre e1 mid e2 post k v where t: "tr = pre @ e1 # mid @ e2 # post"
    and s: "dr_starts c e1 = Some (k, v)" and r: "dr_reports c e2 k v = Some x"
    and m: "\<forall>e \<in> set mid. \<not> dr_closes c e k \<and> (\<forall>v'. dr_starts c e \<noteq> Some (k, v'))"
    using dr_pair.reported_pair [OF admissible_True dr_inv_init _ _ assms]
    by (auto simp: dr_init_def)
  obtain env1 where e1: "e1 = Begin env1" using s by (cases e1) auto
  obtain env2 nr where e2: "e2 = End env2 nr" using r by (cases e2) auto
  have v: "v = dr_val_of env1 k" "k = dr_ids c env1" "k \<noteq> 0"
    using s e1 by (auto split: if_splits)
  have x: "x = dr_event_of env2 v nr" "k = dr_ids c env2" "dr_traced c k"
    "min_delay_ns c = 0 \<or> min_delay_ns c \<le> env_ktime env2 - v_ts v"
    using r e2 by (auto split: if_splits)
  have f: "d_id x = k" "d_delta x = env_ktime env2 - env_ktime env1" "d_nr_reclaimed x = nr"
    "d_name x = env_comm env1"
    using x(1) v(1) by (simp_all add: dr_event_of_def)
  have p: "tr = pre @ Begin env1 # mid @ End env2 nr # post" using t e1 e2 by simp
  have d: "min_delay_ns c \<le> d_delta x" using x(4) f(2) v(1) by auto
  show ?thesis
    by (intro exI conjI, rule p) (use v x f d m in \<open>simp_all add: dr_traced_def\<close>)
qed

text \<open>
  The summary accounts for every completed reclaim. When all firings are on possible CPUs and
  the panel appears, the completed reclaims shown are those filtered by the threshold, those
  dropped, and the events in the ring buffer; the average and the maximum are the totals of all
  CPUs in whole microseconds.
\<close>

lemma dr_panel_true:
  assumes "admissible dr_regular dr_step tr (dr_init c n)"
    and "dr_print_stats (int n) True (Some (stats_map (fold dr_step tr (dr_init c n)))) = Some p"
  shows "completed (panel_stats p) = filtered_delay (panel_stats p) +
      ringbuf_dropped (panel_stats p) + of_nat (length (rb (fold dr_step tr (dr_init c n)))) \<and>
    (completed (panel_stats p) \<noteq> 0 \<longrightarrow> panel_avg_max_us p =
       Some (total_ns (panel_stats p) div completed (panel_stats p) div 1000,
             max_ns (panel_stats p) div 1000)) \<and>
    (\<forall>v \<in> set (stats_map (fold dr_step tr (dr_init c n))). max_ns v \<le> max_ns (panel_stats p))"
proof -
  let ?vs = "stats_map (fold dr_step tr (dr_init c n))" let ?m = "foldl dr_merge dr_zero ?vs"
  have "length ?vs = n" by (simp add: dr_run_cpus dr_init_def)
  then have p: "panel_stats p = ?m" "panel_avg_max_us p = (if completed ?m \<noteq> 0
      then Some (total_ns ?m div completed ?m div 1000, max_ns ?m div 1000) else None)"
    using assms(2) by (auto simp: dr_print_stats_def Let_def split: if_splits)
  have "dr_quantity (fold dr_step tr (dr_init c n)) = 0"
    using dr_cons.run_quantity [OF assms(1)]
    by (simp add: dr_quantity_def dr_init_def dr_flow_def dr_zero_def sum_list_replicate)
  then have "completed ?m = filtered_delay ?m + ringbuf_dropped ?m +
      of_nat (length (rb (fold dr_step tr (dr_init c n))))"
    by (simp add: dr_quantity_def dr_flow_def [abs_def] sum_list_map_diff dr_rep.report_counter
        algebra_simps sum_list_addf)
  then show ?thesis using p dr_rep.report_mx_ge [of _ ?vs dr_zero] by auto
qed

end
