(* ===== verification/Binary64.thy ===== *)
theory Binary64
  imports Complex_Main "HOL-Library.Log_Nat" Prelude
begin

section \<open>Double precision numbers\<close>

text \<open>
  The arithmetic of \<^verbatim>\<open>double\<close> that \<^verbatim>\<open>mem/slab_rate/user.c\<close> uses for its rates: conversion of a 64-bit counter and division, each
  the exact value rounded to 53 significant bits, to nearest, ties to even (binary64 of IEEE 754, evaluated in its own precision). A number is its
  rational value. The values here are not negative, and they are far from the ends of the exponent
  range (a counter is below \<open>2^64\<close>, a window is at least a nanosecond), so there is no overflow, no subnormal number and no
  NaN.
\<close>

type_synonym double = rat

text \<open>The integer \<open>k\<close> with \<open>2^k \<le> x < 2^(k+1)\<close>, for a positive \<open>x\<close>.\<close>

definition exponent2 :: "rat \<Rightarrow> int" where
  "exponent2 x = (case quotient_of x of (p, q) \<Rightarrow>
     let k = bitlen p - bitlen q in if 2 powi k \<le> x then k else k - 1)"

definition round_even :: "rat \<Rightarrow> int" where
  "round_even x = (let f = \<lfloor>x\<rfloor>; d = x - of_int f in
     if d < 1 / 2 \<or> (d = 1 / 2 \<and> even f) then f else f + 1)"

definition round53 :: "rat \<Rightarrow> double" where
  "round53 x = (if x = 0 then 0
     else let ulp = 2 powi (exponent2 x - 52) in of_int (round_even (x / ulp)) * ulp)"

definition double_of_u64 :: "u64 \<Rightarrow> double" where
  "double_of_u64 w = round53 (of_int (uint w))"

definition double_div :: "double \<Rightarrow> double \<Rightarrow> double" where
  "double_div a b = round53 (a / b)"

section \<open>Lemmas\<close>

lemma bitlen_powi: "0 < n \<Longrightarrow> 2 powi (bitlen n - 1) \<le> (of_int n :: rat) \<and> of_int n < (2 powi bitlen n :: rat)"
proof -
  assume n: "0 < n"
  have b: "2 ^ nat (bitlen n - 1) \<le> n" "n < 2 ^ nat (bitlen n)" using bitlen_bounds [OF n] by auto
  have p: "0 < bitlen n" using b(2) n by (cases "bitlen n \<le> 0") auto
  have "(2 powi (bitlen n - 1) :: rat) = of_int (2 ^ nat (bitlen n - 1))" "(2 powi bitlen n :: rat) = of_int (2 ^ nat (bitlen n))"
    using p by (simp_all add: power_int_def)
  then show ?thesis using b by (metis of_int_le_iff of_int_less_iff)
qed

lemma exponent2_bounds:
  assumes "0 < x"
  shows "2 powi exponent2 x \<le> x" "x < 2 powi (exponent2 x + 1)"
proof -
  obtain p q where pq: "quotient_of x = (p, q)" by (cases "quotient_of x")
  have q: "0 < q" using quotient_of_denom_pos [OF pq] .
  have x: "x = of_int p / of_int q" using quotient_of_div [OF pq] .
  have "0 < (of_int p :: rat)" using assms q unfolding x by (simp add: zero_less_divide_iff)
  then have p: "0 < p" by simp
  let ?k = "bitlen p - bitlen q"
  have bp: "2 powi (bitlen p - 1) \<le> (of_int p :: rat)" "(of_int p :: rat) < 2 powi bitlen p"
    and bq: "2 powi (bitlen q - 1) \<le> (of_int q :: rat)" "(of_int q :: rat) < 2 powi bitlen q"
    using bitlen_powi p q by auto
  have "2 powi (?k - 1) = (2 powi (bitlen p - 1) :: rat) / 2 powi bitlen q"
    by (simp add: power_int_diff)
  also have "\<dots> \<le> x" unfolding x using bp bq p q by (intro frac_le) auto
  finally have lo: "2 powi (?k - 1) \<le> x" .
  have "x < 2 powi bitlen p / (2 powi (bitlen q - 1) :: rat)"
    unfolding x using bp bq p q by (intro frac_less) auto
  also have "\<dots> = 2 powi (?k + 1)" by (simp add: power_int_diff power_int_add)
  finally have hi: "x < 2 powi (?k + 1)" .
  show "2 powi exponent2 x \<le> x" "x < 2 powi (exponent2 x + 1)"
    using lo hi pq by (auto simp: exponent2_def Let_def not_le)
qed

lemma round_even_of_int [simp]: "round_even (of_int n) = n"
  by (simp add: round_even_def)

lemma round_even_bounds: "\<lfloor>x\<rfloor> \<le> round_even x" "round_even x \<le> \<lfloor>x\<rfloor> + 1"
  by (simp_all add: round_even_def Let_def)

lemma round_even_mono: "x \<le> y \<Longrightarrow> round_even x \<le> round_even y"
proof -
  assume le: "x \<le> y"
  then have f: "\<lfloor>x\<rfloor> \<le> \<lfloor>y\<rfloor>" by (rule floor_mono)
  show ?thesis
  proof (cases "\<lfloor>x\<rfloor> = \<lfloor>y\<rfloor>")
    case True
    then show ?thesis using le by (auto simp: round_even_def Let_def)
  next
    case False
    then have "\<lfloor>x\<rfloor> + 1 \<le> \<lfloor>y\<rfloor>" using f by simp
    then show ?thesis using round_even_bounds [of x] round_even_bounds [of y] by linarith
  qed
qed

lemma round53_bounds:
  assumes "0 < x"
  shows "2 powi exponent2 x \<le> round53 x" "round53 x \<le> 2 powi (exponent2 x + 1)"
proof -
  let ?e = "exponent2 x" let ?u = "2 powi (?e - 52) :: rat"
  have u: "0 < ?u" by simp
  have lo: "of_int (2 ^ 52) * ?u = 2 powi ?e" and hi: "of_int (2 ^ 53) * ?u = 2 powi (?e + 1)"
    by (simp_all add: power_int_diff power_int_add)
  have "of_int (2 ^ 52) \<le> x / ?u" "x / ?u \<le> of_int (2 ^ 53)"
    using exponent2_bounds [OF assms] u unfolding pos_le_divide_eq [OF u] pos_divide_le_eq [OF u] lo hi by auto
  then have "(2 ^ 52 :: int) \<le> round_even (x / ?u)" "round_even (x / ?u) \<le> (2 ^ 53 :: int)"
    using round_even_mono round_even_of_int by metis+
  then have "of_int (2 ^ 52) * ?u \<le> of_int (round_even (x / ?u)) * ?u"
    "of_int (round_even (x / ?u)) * ?u \<le> of_int (2 ^ 53) * ?u"
    using u by (intro mult_right_mono; simp only: of_int_le_iff; simp)+
  then show "2 powi ?e \<le> round53 x" "round53 x \<le> 2 powi (?e + 1)"
    using assms unfolding lo hi by (simp_all add: round53_def Let_def)
qed

lemma round53_0 [simp]: "round53 0 = 0"
  by (simp add: round53_def)

lemma round53_nonneg: "0 \<le> x \<Longrightarrow> 0 \<le> round53 x"
  using round53_bounds(1) [of x] by (cases "x = 0") (auto simp: round53_0 intro: order_trans [rotated])

lemma round53_zero_iff [simp]: "0 \<le> x \<Longrightarrow> round53 x = 0 \<longleftrightarrow> x = 0"
proof (cases "x = 0")
  case False
  moreover assume "0 \<le> x"
  ultimately have "2 powi exponent2 x \<le> round53 x" by (intro round53_bounds(1)) simp
  moreover have "(0 :: rat) < 2 powi exponent2 x" by simp
  ultimately show ?thesis using False by linarith
qed (simp add: round53_def)

text \<open>Rounding keeps the order: in one binade because \<open>round_even\<close> does, across binades because the power of two is between.\<close>

lemma round53_mono:
  assumes "0 \<le> x" and "x \<le> y"
  shows "round53 x \<le> round53 y"
proof (cases "x = 0")
  case True
  then show ?thesis using assms round53_nonneg by (simp add: round53_0)
next
  case False
  then have x: "0 < x" and y: "0 < y" using assms by auto
  have "2 powi exponent2 x < (2 powi (exponent2 y + 1) :: rat)"
    using exponent2_bounds [OF x] exponent2_bounds [OF y] assms(2) by linarith
  then have "\<not> exponent2 y + 1 \<le> exponent2 x"
    using power_int_increasing [of "exponent2 y + 1" "exponent2 x" "2 :: rat"] by auto
  then consider "exponent2 x = exponent2 y" | "exponent2 x + 1 \<le> exponent2 y" by linarith
  then show ?thesis
  proof cases
    case 1
    have "x / 2 powi (exponent2 y - 52) \<le> y / 2 powi (exponent2 y - 52)"
      using assms(2) by (intro divide_right_mono) simp_all
    then show ?thesis
      using x y 1 by (simp add: round53_def Let_def round_even_mono mult_right_mono)
  next
    case 2
    then have "(2 powi (exponent2 x + 1) :: rat) \<le> 2 powi exponent2 y" by (intro power_int_increasing) simp_all
    then show ?thesis using round53_bounds(2) [OF x] round53_bounds(1) [OF y] by linarith
  qed
qed

lemma double_of_u64_mono: "a \<le> b \<Longrightarrow> double_of_u64 a \<le> double_of_u64 b"
  unfolding double_of_u64_def by (rule round53_mono) (simp_all only: of_int_0_le_iff of_int_le_iff word_le_def uint_ge_0)

lemma double_of_u64_nonneg [simp]: "0 \<le> double_of_u64 a"
  unfolding double_of_u64_def by (rule round53_nonneg) (simp only: of_int_0_le_iff uint_ge_0)

lemma double_of_u64_zero [simp]: "double_of_u64 a = 0 \<longleftrightarrow> a = 0"
proof -
  have "0 \<le> (of_int (uint a) :: rat)" by (simp only: of_int_0_le_iff uint_ge_0)
  then show ?thesis unfolding double_of_u64_def by (simp only: round53_zero_iff of_int_eq_0_iff uint_0_iff)
qed

lemma double_div_mono: "0 \<le> a \<Longrightarrow> a \<le> b \<Longrightarrow> 0 < c \<Longrightarrow> double_div a c \<le> double_div b c"
  by (simp add: double_div_def round53_mono divide_right_mono)

lemma double_div_pos: "0 < a \<Longrightarrow> 0 < b \<Longrightarrow> 0 < double_div a b"
  using round53_nonneg [of "a / b"] round53_zero_iff [of "a / b"] by (simp add: double_div_def less_le)

end
