(* ===== verification/SlabRate.thy ===== *)
theory SlabRate
  imports Monitor PidNs Binary64
begin

section \<open>mem/slab\_rate: slab allocations per window\<close>

text \<open>
  \<^verbatim>\<open>mem/slab_rate\<close>: four probes count successful allocations per cache or size class in a per-CPU
  hash map; nothing is deleted. The user side reads the map once per window, adds the CPUs,
  subtracts the previous reading and prints the largest differences.
\<close>

datatype SlabRate_kind = SLAB_RATE_NAMED_CACHE | SLAB_RATE_KMALLOC | SLAB_RATE_CACHE_SIZE

record SlabRate_key =
  alloc_size :: u64
  kind :: SlabRate_kind
  cache_name :: cstr

record SlabRate_ctrl =
  enable :: bool
  target_pid :: s32
  pid_ns_dev :: u64
  pid_ns_ino :: u64

record SlabRate_info =
  count :: u64
  allocated_bytes :: u64

record SlabRate_stats =
  events_seen :: u64
  alloc_failed :: u64
  filtered_pid :: u64
  map_update_failed :: u64
  name_read_failed :: u64
  size_fallback :: u64

text \<open>An entry of the per-CPU hash map has a value for every possible CPU.\<close>

record SlabRate_state =
  ctrl_map :: "SlabRate_ctrl option"
  slab_entries :: "(SlabRate_key, SlabRate_info list) bmap"
  stats_map :: "SlabRate_stats list"

definition SLAB_RATE_MAX_ENTRIES :: nat where
  "SLAB_RATE_MAX_ENTRIES = 1024"

definition CACHE_NAME_SIZE :: nat where
  "CACHE_NAME_SIZE = 48"

definition info_zero :: SlabRate_info where
  "info_zero = \<lparr>count = 0, allocated_bytes = 0\<rparr>"

definition slab_count ::
    "bpf_env \<Rightarrow> (SlabRate_stats \<Rightarrow> SlabRate_stats) \<Rightarrow> SlabRate_state \<Rightarrow> SlabRate_state" where
  "slab_count env f s = s\<lparr>stats_map := percpu_upd (env_cpu env) f (stats_map s)\<rparr>"

text \<open>\<open>pid_matches\<close>: the answer, and the state with the filtered event counted.\<close>

definition pid_matches :: "bpf_env \<Rightarrow> SlabRate_ctrl \<Rightarrow> SlabRate_state \<Rightarrow> bool \<times> SlabRate_state" where
  "pid_matches env ctrl s =
     (if target_pid ctrl = 0 then (True, s)
      else let
        pid_tgid = app_current_pid_tgid_ns env (pid_ns_dev ctrl) (pid_ns_ino ctrl);
        tgid = hi32 pid_tgid
      in if pid_tgid = 0 \<or> tgid \<noteq> target_pid ctrl
         then (False, slab_count env (\<lambda>c. c\<lparr>filtered_pid := filtered_pid c + 1\<rparr>) s)
         else (True, s))"

text \<open>
  \<open>account_alloc\<close>: find the entry, create it with zero values (\<^verbatim>\<open>BPF_NOEXIST\<close>) if it is not there,
  and add to the value of this CPU.
\<close>

definition info_add :: "u64 \<Rightarrow> SlabRate_info \<Rightarrow> SlabRate_info" where
  "info_add bytes i = i\<lparr>count := count i + 1, allocated_bytes := allocated_bytes i + bytes\<rparr>"

definition account_alloc :: "bpf_env \<Rightarrow> SlabRate_key \<Rightarrow> u64 \<Rightarrow> SlabRate_state \<Rightarrow> SlabRate_state" where
  "account_alloc env key bytes s = (let
     s1 = (if map_of (slab_entries s) key = None
           then s\<lparr>slab_entries := map_or_same
                    (hash_update_noexist SLAB_RATE_MAX_ENTRIES (env_update_ok env) key
                       (replicate (length (stats_map s)) info_zero) (slab_entries s))
                    (slab_entries s)\<rparr>
           else s)
     in (case map_of (slab_entries s1) key of
           None \<Rightarrow> slab_count env (\<lambda>c. c\<lparr>map_update_failed := map_update_failed c + 1\<rparr>) s1
         | Some vs \<Rightarrow> s1\<lparr>slab_entries :=
             AList.update key (percpu_upd (env_cpu env) (info_add bytes) vs) (slab_entries s1)\<rparr>))"

definition account_cache_size :: "bpf_env \<Rightarrow> u64 \<Rightarrow> SlabRate_state \<Rightarrow> SlabRate_state" where
  "account_cache_size env bytes s =
     account_alloc env \<lparr>alloc_size = bytes, kind = SLAB_RATE_CACHE_SIZE, cache_name = ''''\<rparr> bytes
       (slab_count env (\<lambda>c. c\<lparr>size_fallback := size_fallback c + 1\<rparr>) s)"

text \<open>
  The arguments the probes read: the pointer returned, the third and the fourth raw argument.
  \<open>slab_kernel\<close> has what the probes read of the kernel: whether its tracepoint has the field
  \<^verbatim>\<open>accounted\<close>, and size and name of a cache.
\<close>

record alloc_args =
  arg_ptr :: u64
  arg_2 :: u64
  arg_3 :: u64

record slab_kernel =
  has_accounted :: bool
  k_cache_size :: "u64 \<Rightarrow> u32"
  k_cache_name :: "u64 \<Rightarrow> cstr option"

text \<open>The common start of the four probes: count the event, stop on a failed allocation, filter.\<close>

definition slab_enter ::
    "bpf_env \<Rightarrow> u64 \<Rightarrow> (SlabRate_state \<Rightarrow> SlabRate_state) \<Rightarrow> SlabRate_state \<Rightarrow> SlabRate_state" where
  "slab_enter env ptr account s =
     (case ctrl_map s of None \<Rightarrow> s
      | Some ctrl \<Rightarrow>
        if \<not> enable ctrl then s
        else let s1 = slab_count env (\<lambda>c. c\<lparr>events_seen := events_seen c + 1\<rparr>) s in
        if ptr = 0 then slab_count env (\<lambda>c. c\<lparr>alloc_failed := alloc_failed c + 1\<rparr>) s1
        else (case pid_matches env ctrl s1 of (ok, s2) \<Rightarrow> if \<not> ok then s2 else account s2))"

definition handle_kmem_cache_alloc ::
    "slab_kernel \<Rightarrow> bpf_env \<Rightarrow> alloc_args \<Rightarrow> SlabRate_state \<Rightarrow> SlabRate_state" where
  "handle_kmem_cache_alloc kn env args = slab_enter env (arg_ptr args) (\<lambda>s.
     if \<not> has_accounted kn then account_cache_size env (arg_3 args) s
     else let
       size = ucast (k_cache_size kn (arg_2 args));
       r = probe_read_str CACHE_NAME_SIZE (k_cache_name kn (arg_2 args))
     in if fst r \<le> 1 then slab_count env (\<lambda>c. c\<lparr>name_read_failed := name_read_failed c + 1\<rparr>) s
        else account_alloc env \<lparr>alloc_size = size, kind = SLAB_RATE_NAMED_CACHE, cache_name = snd r\<rparr> size s)"

definition handle_kmem_cache_alloc_node :: "bpf_env \<Rightarrow> alloc_args \<Rightarrow> SlabRate_state \<Rightarrow> SlabRate_state" where
  "handle_kmem_cache_alloc_node env args =
     slab_enter env (arg_ptr args) (account_cache_size env (arg_3 args))"

definition kmalloc_key :: "u64 \<Rightarrow> SlabRate_key" where
  "kmalloc_key bytes = \<lparr>alloc_size = bytes, kind = SLAB_RATE_KMALLOC, cache_name = ''''\<rparr>"

definition handle_kmalloc :: "bpf_env \<Rightarrow> u64 \<Rightarrow> u64 \<Rightarrow> SlabRate_state \<Rightarrow> SlabRate_state" where
  "handle_kmalloc env ptr bytes_alloc =
     slab_enter env ptr (account_alloc env (kmalloc_key bytes_alloc) bytes_alloc)"

definition handle_kmalloc_node :: "bpf_env \<Rightarrow> alloc_args \<Rightarrow> SlabRate_state \<Rightarrow> SlabRate_state" where
  "handle_kmalloc_node env args =
     slab_enter env (arg_ptr args) (account_alloc env (kmalloc_key (arg_3 args)) (arg_3 args))"

datatype slab_firing =
    Cache_alloc bpf_env alloc_args
  | Cache_alloc_node bpf_env alloc_args
  | Kmalloc bpf_env u64 u64
  | Kmalloc_node bpf_env alloc_args

fun slab_step :: "slab_kernel \<Rightarrow> slab_firing \<Rightarrow> SlabRate_state \<Rightarrow> SlabRate_state" where
  "slab_step kn (Cache_alloc env args) s = handle_kmem_cache_alloc kn env args s"
| "slab_step kn (Cache_alloc_node env args) s = handle_kmem_cache_alloc_node env args s"
| "slab_step kn (Kmalloc env ptr bytes) s = handle_kmalloc env ptr bytes s"
| "slab_step kn (Kmalloc_node env args) s = handle_kmalloc_node env args s"

subsection \<open>The user side\<close>

record slab_sample =
  sm_key :: SlabRate_key
  sm_total :: SlabRate_info

record slab_row =
  row_key :: SlabRate_key
  count_delta :: u64
  bytes_delta :: u64
  allocs_per_sec :: double
  bytes_per_sec :: double

definition OUTPUT_ROWS :: nat where
  "OUTPUT_ROWS = 20"

definition ENOENT :: int where
  "ENOENT = 2"

definition E2BIG :: int where
  "E2BIG = 7"

definition info_merge :: "SlabRate_info \<Rightarrow> SlabRate_info \<Rightarrow> SlabRate_info" where
  "info_merge t v = t\<lparr>count := count t + count v, allocated_bytes := allocated_bytes t + allocated_bytes v\<rparr>"

definition find_previous :: "slab_sample list \<Rightarrow> SlabRate_key \<Rightarrow> SlabRate_info option" where
  "find_previous previous key = map_option sm_total (find (\<lambda>p. sm_key p = key) previous)"

text \<open>
  \<open>collect_samples\<close>: \<open>keys\<close> is what \<^verbatim>\<open>bpf_map_get_next_key\<close> delivers, \<open>last_errno\<close> the \<open>errno\<close> that ends
  the walk, and \<open>lookup\<close> the values of a key for all CPUs, or \<open>errno\<close>.
\<close>

fun collect_samples ::
    "SlabRate_key list \<Rightarrow> int \<Rightarrow> (SlabRate_key \<Rightarrow> int + SlabRate_info list) \<Rightarrow> nat \<Rightarrow> slab_sample list
     \<Rightarrow> int + slab_sample list" where
  "collect_samples [] last_errno lookup ncpus samples =
     (if last_errno \<noteq> ENOENT then Inl (- last_errno) else Inr samples)"
| "collect_samples (key # keys) last_errno lookup ncpus samples =
     (case lookup key of
        Inr vs \<Rightarrow> let tot = foldl info_merge info_zero (take ncpus vs) in
          if SLAB_RATE_MAX_ENTRIES \<le> length samples then Inl (- E2BIG)
          else collect_samples keys last_errno lookup ncpus (samples @ [\<lparr>sm_key = key, sm_total = tot\<rparr>])
      | Inl e \<Rightarrow>
          if e \<noteq> ENOENT then Inl (- e) else collect_samples keys last_errno lookup ncpus samples)"

text \<open>The row of one sample; none when nothing was allocated or the count went back.\<close>

definition row_of :: "slab_sample list \<Rightarrow> double \<Rightarrow> slab_sample \<Rightarrow> slab_row option" where
  "row_of previous seconds cur = (let
     old = find_previous previous (sm_key cur);
     old_count = (case old of None \<Rightarrow> 0 | Some i \<Rightarrow> count i);
     old_bytes = (case old of None \<Rightarrow> 0 | Some i \<Rightarrow> allocated_bytes i)
     in if count (sm_total cur) < old_count \<or> allocated_bytes (sm_total cur) < old_bytes then None
        else let dc = count (sm_total cur) - old_count; db = allocated_bytes (sm_total cur) - old_bytes in
        if dc = 0 then None
        else Some \<lparr>row_key = sm_key cur, count_delta = dc, bytes_delta = db,
                   allocs_per_sec = double_div (double_of_u64 dc) seconds,
                   bytes_per_sec = double_div (double_of_u64 db) seconds\<rparr>)"

text \<open>The comparison the rows are sorted with: the larger rate first.\<close>

definition sort_by_bytes_rate :: "slab_row \<Rightarrow> slab_row \<Rightarrow> int" where
  "sort_by_bytes_rate a b =
     (if bytes_per_sec b > bytes_per_sec a then 1 else if bytes_per_sec b < bytes_per_sec a then - 1 else 0)"

text \<open>
  \<^verbatim>\<open>qsort\<close>, as an insertion sort. The C standard leaves open in which order elements that compare equal come;
  here they keep their order. No lemma below uses this choice.
\<close>

fun qsort_insert :: "('a \<Rightarrow> 'a \<Rightarrow> int) \<Rightarrow> 'a \<Rightarrow> 'a list \<Rightarrow> 'a list" where
  "qsort_insert cmp x [] = [x]"
| "qsort_insert cmp x (y # ys) = (if cmp x y \<le> 0 then x # y # ys else y # qsort_insert cmp x ys)"

definition qsort :: "('a \<Rightarrow> 'a \<Rightarrow> int) \<Rightarrow> 'a list \<Rightarrow> 'a list" where
  "qsort cmp xs = foldr (qsort_insert cmp) xs []"

text \<open>
  \<open>print_interval\<close>: collect, subtract, sort by byte rate, show the first rows, keep the reading. The result is the error, or the
  rows shown with their average sizes and the reading to keep; nothing for an empty window.
\<close>

definition seconds_of :: "u64 \<Rightarrow> double" where
  "seconds_of interval_ns = double_div (double_of_u64 interval_ns) 1000000000"

definition print_interval ::
    "slab_sample list \<Rightarrow> u64 \<Rightarrow> int + slab_sample list
     \<Rightarrow> int + ((slab_row \<times> u64) list \<times> slab_sample list)" where
  "print_interval previous interval_ns collected = (let seconds = seconds_of interval_ns in
     if seconds \<le> 0 then Inr ([], previous)
      else case collected of
        Inl err \<Rightarrow> Inl err
      | Inr current \<Rightarrow> let
          rows = qsort sort_by_bytes_rate (List.map_filter (row_of previous seconds) current);
          shown = take OUTPUT_ROWS rows
        in Inr (map (\<lambda>r. (r, bytes_delta r div count_delta r)) shown, current))"

definition elapsed_ns :: "u64 \<times> u64 \<Rightarrow> u64 \<times> u64 \<Rightarrow> u64" where
  "elapsed_ns t0 t1 = (fst t1 * 1000000000 + snd t1) - (fst t0 * 1000000000 + snd t0)"

text \<open>The health counters, added over the CPUs; nothing when the buffer or the read fails.\<close>

definition slab_stats_merge :: "SlabRate_stats \<Rightarrow> SlabRate_stats \<Rightarrow> SlabRate_stats" where
  "slab_stats_merge t v =
     t\<lparr>events_seen := events_seen t + events_seen v, alloc_failed := alloc_failed t + alloc_failed v,
       filtered_pid := filtered_pid t + filtered_pid v,
       map_update_failed := map_update_failed t + map_update_failed v,
       name_read_failed := name_read_failed t + name_read_failed v,
       size_fallback := size_fallback t + size_fallback v\<rparr>"

definition slab_stats_zero :: SlabRate_stats where
  "slab_stats_zero = \<lparr>events_seen = 0, alloc_failed = 0, filtered_pid = 0, map_update_failed = 0,
     name_read_failed = 0, size_fallback = 0\<rparr>"

definition slab_print_stats :: "nat \<Rightarrow> bool \<Rightarrow> SlabRate_stats list option \<Rightarrow> SlabRate_stats option" where
  "slab_print_stats ncpus alloc_ok values =
     (if \<not> alloc_ok then None
      else map_option (\<lambda>vs. foldl slab_stats_merge slab_stats_zero (take ncpus vs)) values)"

section \<open>Lemmas\<close>

lemma seconds_of_pos [simp]: "0 < seconds_of i \<longleftrightarrow> i \<noteq> 0" "seconds_of i \<le> 0 \<longleftrightarrow> i = 0"
proof -
  have "0 < seconds_of i" if "i \<noteq> 0"
    using that double_div_pos [of "double_of_u64 i" 1000000000] by (simp add: seconds_of_def less_le)
  moreover have "seconds_of 0 = 0" by (simp add: seconds_of_def double_of_u64_def double_div_def)
  ultimately show "0 < seconds_of i \<longleftrightarrow> i \<noteq> 0" "seconds_of i \<le> 0 \<longleftrightarrow> i = 0" by (cases "i = 0"; force)+
qed

text \<open>What becomes of one allocation, seen from outside.\<close>

datatype slab_fate =
    Alloc_failed
  | Filtered
  | Unnamed
  | Wanted bool SlabRate_key u64

fun slab_env :: "slab_firing \<Rightarrow> bpf_env" where
  "slab_env (Cache_alloc env args) = env"
| "slab_env (Cache_alloc_node env args) = env"
| "slab_env (Kmalloc env ptr bytes) = env"
| "slab_env (Kmalloc_node env args) = env"

fun slab_ptr :: "slab_firing \<Rightarrow> u64" where
  "slab_ptr (Cache_alloc env args) = arg_ptr args"
| "slab_ptr (Cache_alloc_node env args) = arg_ptr args"
| "slab_ptr (Kmalloc env ptr bytes) = ptr"
| "slab_ptr (Kmalloc_node env args) = arg_ptr args"

definition size_key :: "u64 \<Rightarrow> SlabRate_key" where
  "size_key bytes = \<lparr>alloc_size = bytes, kind = SLAB_RATE_CACHE_SIZE, cache_name = ''''\<rparr>"

definition named_fate :: "u32 \<Rightarrow> cstr option \<Rightarrow> slab_fate" where
  "named_fate sz nm =
     (case nm of None \<Rightarrow> Unnamed
      | Some str \<Rightarrow> if str = '''' then Unnamed
          else Wanted False \<lparr>alloc_size = ucast sz, kind = SLAB_RATE_NAMED_CACHE, cache_name = take 47 str\<rparr> (ucast sz))"

fun slab_wants :: "slab_kernel \<Rightarrow> slab_firing \<Rightarrow> slab_fate" where
  "slab_wants kn (Cache_alloc env args) =
     (if has_accounted kn then named_fate (k_cache_size kn (arg_2 args)) (k_cache_name kn (arg_2 args))
      else Wanted True (size_key (arg_3 args)) (arg_3 args))"
| "slab_wants kn (Cache_alloc_node env args) = Wanted True (size_key (arg_3 args)) (arg_3 args)"
| "slab_wants kn (Kmalloc env ptr bytes) = Wanted False (kmalloc_key bytes) bytes"
| "slab_wants kn (Kmalloc_node env args) = Wanted False (kmalloc_key (arg_3 args)) (arg_3 args)"

text \<open>The process filter: no target, or the target's thread group as the tool's namespace numbers it.\<close>

definition slab_selected :: "SlabRate_ctrl \<Rightarrow> bpf_env \<Rightarrow> bool" where
  "slab_selected c env \<longleftrightarrow> target_pid c = 0 \<or>
     (app_current_pid_tgid_ns env (pid_ns_dev c) (pid_ns_ino c) \<noteq> 0
      \<and> hi32 (app_current_pid_tgid_ns env (pid_ns_dev c) (pid_ns_ino c)) = target_pid c)"

definition slab_fate_of :: "slab_kernel \<Rightarrow> SlabRate_ctrl \<Rightarrow> slab_firing \<Rightarrow> slab_fate" where
  "slab_fate_of kn c f =
     (if slab_ptr f = 0 then Alloc_failed
      else if \<not> slab_selected c (slab_env f) then Filtered
      else slab_wants kn f)"

lemma slab_count_simps [simp]:
  "ctrl_map (slab_count env f s) = ctrl_map s"
  "slab_entries (slab_count env f s) = slab_entries s"
  "stats_map (slab_count env f s) = percpu_upd (env_cpu env) f (stats_map s)"
  by (simp_all add: slab_count_def)

lemma slab_count_twice:
  "slab_count env g (slab_count env f s) = slab_count env (\<lambda>c. g (f c)) s"
  by (simp add: slab_count_def)

lemma pid_matches_selected:
  "pid_matches env c s =
     (slab_selected c env,
      if slab_selected c env then s
      else slab_count env (\<lambda>x. x\<lparr>filtered_pid := filtered_pid x + 1\<rparr>) s)"
  by (auto simp: pid_matches_def slab_selected_def Let_def)

text \<open>A firing, by its fate.\<close>

definition seen1 :: "SlabRate_stats \<Rightarrow> SlabRate_stats" where
  "seen1 x = x\<lparr>events_seen := events_seen x + 1\<rparr>"

definition fate_step :: "bpf_env \<Rightarrow> slab_fate \<Rightarrow> SlabRate_state \<Rightarrow> SlabRate_state" where
  "fate_step env ft s =
     (case ft of
        Alloc_failed \<Rightarrow> slab_count env (\<lambda>x. (seen1 x)\<lparr>alloc_failed := alloc_failed x + 1\<rparr>) s
      | Filtered \<Rightarrow> slab_count env (\<lambda>x. (seen1 x)\<lparr>filtered_pid := filtered_pid x + 1\<rparr>) s
      | Unnamed \<Rightarrow> slab_count env (\<lambda>x. (seen1 x)\<lparr>name_read_failed := name_read_failed x + 1\<rparr>) s
      | Wanted fb key bytes \<Rightarrow> account_alloc env key bytes
          (slab_count env (\<lambda>x. if fb then (seen1 x)\<lparr>size_fallback := size_fallback x + 1\<rparr> else seen1 x) s))"

lemma name_read_short:
  "fst (probe_read_str CACHE_NAME_SIZE nm) \<le> 1 \<longleftrightarrow> nm = None \<or> nm = Some ''''"
  by (auto simp: probe_read_str_def CACHE_NAME_SIZE_def Let_def min_def split: option.split if_splits)

lemma name_read_name: "snd (probe_read_str CACHE_NAME_SIZE (Some str)) = take 47 str"
  by (simp add: probe_read_str_def CACHE_NAME_SIZE_def Let_def)

lemma slab_step_fate:
  assumes "ctrl_map s = Some c" and "enable c"
  shows "slab_step kn f s = fate_step (slab_env f) (slab_fate_of kn c f) s"
  using assms
  by (cases f)
     (auto simp: handle_kmem_cache_alloc_def handle_kmem_cache_alloc_node_def handle_kmalloc_def
      handle_kmalloc_node_def slab_enter_def slab_fate_of_def fate_step_def pid_matches_selected
      slab_count_twice seen1_def account_cache_size_def size_key_def named_fate_def
      name_read_short name_read_name Let_def split: option.split)

lemma slab_step_off: "ctrl_map s = None \<or> (\<exists>c. ctrl_map s = Some c \<and> \<not> enable c) \<Longrightarrow> slab_step kn f s = s"
  by (cases f) (auto simp: handle_kmem_cache_alloc_def handle_kmem_cache_alloc_node_def handle_kmalloc_def
      handle_kmalloc_node_def slab_enter_def)

subsection \<open>Entries and totals\<close>

text \<open>The account has room: the key has an entry, or one can be made.\<close>

definition slab_room :: "bpf_env \<Rightarrow> SlabRate_key \<Rightarrow> SlabRate_state \<Rightarrow> bool" where
  "slab_room env key s \<longleftrightarrow> map_of (slab_entries s) key \<noteq> None \<or>
     (env_update_ok env \<and> length (slab_entries s) < SLAB_RATE_MAX_ENTRIES)"

definition entry_of :: "SlabRate_state \<Rightarrow> SlabRate_key \<Rightarrow> SlabRate_info list" where
  "entry_of s key = (case map_of (slab_entries s) key of
     None \<Rightarrow> replicate (length (stats_map s)) info_zero | Some vs \<Rightarrow> vs)"

lemma account_alloc_cases:
  "account_alloc env key bytes s =
     (if slab_room env key s
      then s\<lparr>slab_entries := AList.update key (percpu_upd (env_cpu env) (info_add bytes) (entry_of s key)) (slab_entries s)\<rparr>
      else slab_count env (\<lambda>c. c\<lparr>map_update_failed := map_update_failed c + 1\<rparr>) s)"
  by (auto simp: account_alloc_def slab_room_def entry_of_def hash_update_noexist_def hash_update_def
      update_conv' Let_def split: option.split)

text \<open>The maps as the kernel allocates them: one value per possible CPU, at most 1024 keys.\<close>

definition slab_wf :: "nat \<Rightarrow> SlabRate_ctrl \<Rightarrow> SlabRate_state \<Rightarrow> bool" where
  "slab_wf n c s \<longleftrightarrow> ctrl_map s = Some c \<and> length (stats_map s) = n \<and>
     map_wf SLAB_RATE_MAX_ENTRIES (slab_entries s) \<and> map_all (\<lambda>k vs. length vs = n) (slab_entries s)"

lemma length_entry_of: "slab_wf n c s \<Longrightarrow> length (entry_of s key) = n"
  by (auto simp: slab_wf_def entry_of_def map_all_def split: option.split)

lemma slab_wf_count: "slab_wf n c (slab_count env f s) \<longleftrightarrow> slab_wf n c s"
  by (simp add: slab_wf_def)

lemma slab_wf_account:
  assumes "slab_wf n c s"
  shows "slab_wf n c (account_alloc env key bytes s)"
proof (cases "slab_room env key s")
  case True
  then show ?thesis
    using assms length_entry_of [OF assms]
    by (auto simp: account_alloc_cases slab_wf_def map_wf_update slab_room_def map_all_def update_conv')
next
  case False
  then show ?thesis using assms by (simp add: account_alloc_cases slab_wf_count)
qed

lemma slab_wf_step: "slab_wf n c s \<Longrightarrow> slab_wf n c (slab_step kn f s)"
proof (cases "enable c")
  case True
  assume wf: "slab_wf n c s"
  then have "ctrl_map s = Some c" by (simp add: slab_wf_def)
  then show ?thesis
    using wf True by (auto simp: slab_step_fate fate_step_def slab_wf_count slab_wf_account split: slab_fate.split)
next
  case False
  assume "slab_wf n c s"
  then show ?thesis using False by (subst slab_step_off) (auto simp: slab_wf_def)
qed

text \<open>A total over the entries moves by what one entry moves.\<close>

lemma sum_AList_update:
  fixes g :: "'k \<times> 'v \<Rightarrow> u64"
  shows "sum_list (map g (AList.update k v m)) =
    sum_list (map g m) + g (k, v) - (case map_of m k of None \<Rightarrow> 0 | Some v0 \<Rightarrow> g (k, v0))"
  by (induction m) auto

subsection \<open>Nothing is lost uncounted\<close>

definition slab_init :: "SlabRate_ctrl \<Rightarrow> nat \<Rightarrow> SlabRate_state" where
  "slab_init c n = \<lparr>ctrl_map = Some c, slab_entries = [], stats_map = replicate n slab_stats_zero\<rparr>"

lemma slab_wf_init: "slab_wf n c (slab_init c n)"
  by (simp add: slab_wf_def slab_init_def)

definition slab_bal :: "SlabRate_stats \<Rightarrow> u64" where
  "slab_bal v = events_seen v - alloc_failed v - filtered_pid v - map_update_failed v - name_read_failed v"

definition cpu_count :: "nat \<Rightarrow> SlabRate_state \<Rightarrow> u64" where
  "cpu_count cpu s = sum_list (map (\<lambda>p. count (snd p ! cpu)) (slab_entries s))"

definition slab_flow :: "nat \<Rightarrow> SlabRate_state \<Rightarrow> u64" where
  "slab_flow cpu s = slab_bal (stats_map s ! cpu) - cpu_count cpu s"

lemma cpu_count_slab_count [simp]: "cpu_count cpu (slab_count env f s) = cpu_count cpu s"
  by (simp add: cpu_count_def)

lemma count_info_add: "count (info_add b i) = count i + 1"
  by (simp add: info_add_def)

lemma cpu_count_account:
  assumes "slab_wf n c s" and "slab_room env key s" and "cpu < n"
  shows "cpu_count cpu (account_alloc env key bytes s) = cpu_count cpu s + of_bool (cpu = env_cpu env)"
proof -
  have "entry_of s key ! cpu = info_zero" if "map_of (slab_entries s) key = None"
    using that assms by (simp add: entry_of_def slab_wf_def)
  then have "(case map_of (slab_entries s) key of None \<Rightarrow> 0 | Some vs \<Rightarrow> count (vs ! cpu)) = count (entry_of s key ! cpu)"
    by (auto simp: entry_of_def info_zero_def split: option.split)
  then show ?thesis
    using assms length_entry_of [OF assms(1), of key]
    by (simp add: account_alloc_cases cpu_count_def sum_AList_update nth_percpu_upd count_info_add
        cong: option.case_cong)
qed

lemma slab_flow_account:
  assumes "slab_wf n c s" and "cpu < n"
  shows "slab_flow cpu (account_alloc env key bytes s) = slab_flow cpu s - of_bool (cpu = env_cpu env)"
proof (cases "slab_room env key s")
  case True
  then show ?thesis
    using cpu_count_account [OF assms(1) True assms(2), of bytes]
    by (simp add: slab_flow_def account_alloc_cases)
next
  case False
  then show ?thesis
    using assms by (simp add: account_alloc_cases slab_wf_def slab_flow_def nth_percpu_upd slab_bal_def)
qed

lemma slab_flow_step:
  assumes wf: "slab_wf n c s" and cpu: "cpu < n"
  shows "slab_flow cpu (slab_step kn f s) = slab_flow cpu s"
proof (cases "enable c")
  case True
  have c: "ctrl_map s = Some c" "cpu < length (stats_map s)" using wf cpu by (simp_all add: slab_wf_def)
  note fate = slab_step_fate [OF c(1) True, of kn f]
  show ?thesis
  proof (cases "slab_fate_of kn c f")
    case (Wanted fb key bytes)
    then show ?thesis
      using wf cpu c
      by (simp add: fate fate_step_def slab_flow_account [of n c] slab_wf_count)
         (simp add: slab_flow_def nth_percpu_upd slab_bal_def seen1_def)
  qed (use c in \<open>simp_all add: fate fate_step_def slab_flow_def nth_percpu_upd slab_bal_def seen1_def\<close>)
next
  case False
  then show ?thesis using wf by (subst slab_step_off) (auto simp: slab_wf_def)
qed

interpretation slab_cons: conserved_monitor "slab_step kn" "\<lambda>_ _. True" "slab_wf n c" "\<lambda>s. map (\<lambda>cpu. slab_flow cpu s) [0..<n]"
  for kn n c
  by unfold_locales (simp_all add: slab_wf_step slab_flow_step)

interpretation slab_report: percpu_report slab_stats_zero slab_stats_merge
  "{events_seen, alloc_failed, filtered_pid, map_update_failed, name_read_failed, size_fallback}" "\<lambda>_. 0" "\<lambda>_. ()"
  by unfold_locales (auto simp: slab_stats_zero_def slab_stats_merge_def)

lemma slab_run_wf: "slab_wf n c (fold (slab_step kn) tr (slab_init c n))"
  by (rule slab_cons.run_inv [OF _ slab_wf_init]) simp

lemma slab_run_flow:
  assumes "cpu < n"
  shows "slab_flow cpu (fold (slab_step kn) tr (slab_init c n)) = 0"
proof -
  have "map (\<lambda>cpu. slab_flow cpu (fold (slab_step kn) tr (slab_init c n))) [0..<n]
      = map (\<lambda>cpu. slab_flow cpu (slab_init c n)) [0..<n]"
    by (rule slab_cons.run_quantity [OF _ slab_wf_init]) simp
  then show ?thesis
    using assms by (simp add: slab_flow_def slab_init_def cpu_count_def slab_bal_def slab_stats_zero_def)
qed

text \<open>Adding up the CPUs.\<close>

lemma sum_list_nths:
  fixes g :: "'a \<Rightarrow> u64"
  shows "length xs = n \<Longrightarrow> sum_list (map (\<lambda>i. g (xs ! i)) [0..<n]) = sum_list (map g xs)"
  by (intro arg_cong [where f = sum_list] nth_equalityI) simp_all

lemma slab_run_totals:
  assumes "slab_wf n c s" and "\<And>cpu. cpu < n \<Longrightarrow> slab_flow cpu s = 0"
  shows "sum_list (map slab_bal (stats_map s)) = sum_list (map (\<lambda>cpu. cpu_count cpu s) [0..<n])"
proof -
  have "sum_list (map (\<lambda>cpu. cpu_count cpu s) [0..<n]) = sum_list (map (\<lambda>cpu. slab_bal (stats_map s ! cpu)) [0..<n])"
    using assms(2) by (intro arg_cong [where f = sum_list] map_cong) (simp_all add: slab_flow_def)
  then show ?thesis using assms(1) sum_list_nths [of "stats_map s" n slab_bal] by (simp add: slab_wf_def)
qed

text \<open>
  C27: no event disappears. After any run, on every CPU the events seen are the failed
  allocations, the ones of other processes, the ones without room in the map, the ones without a readable cache name and those
  counted under some key; and the health panel printed at exit adds these counters over the CPUs.
\<close>

theorem slab_accounting:
  defines "run kn tr c n \<equiv> fold (slab_step kn) tr (slab_init c n)"
  shows "list_all (\<lambda>cpu. let v = stats_map (run kn tr c n) ! cpu in
      events_seen v = alloc_failed v + filtered_pid v + map_update_failed v + name_read_failed v
        + cpu_count cpu (run kn tr c n)) [0..<n]
    \<and> (\<exists>t. slab_print_stats n True (Some (stats_map (run kn tr c n))) = Some t
        \<and> events_seen t = sum_list (map events_seen (stats_map (run kn tr c n)))
        \<and> map_update_failed t = sum_list (map map_update_failed (stats_map (run kn tr c n)))
        \<and> events_seen t = alloc_failed t + filtered_pid t + map_update_failed t + name_read_failed t
            + sum_list (map (\<lambda>cpu. cpu_count cpu (run kn tr c n)) [0..<n]))"
proof (intro conjI)
  let ?s = "run kn tr c n"
  have wf: "slab_wf n c ?s" unfolding run_def by (rule slab_run_wf)
  have flow: "slab_flow cpu ?s = 0" if "cpu < n" for cpu
    using that unfolding run_def by (rule slab_run_flow)
  show "list_all (\<lambda>cpu. let v = stats_map ?s ! cpu in events_seen v =
      alloc_failed v + filtered_pid v + map_update_failed v + name_read_failed v + cpu_count cpu ?s) [0..<n]"
    using flow by (auto simp: list_all_iff slab_flow_def slab_bal_def Let_def algebra_simps)
  let ?t = "foldl slab_stats_merge slab_stats_zero (stats_map ?s)"
  have "slab_bal ?t = sum_list (map slab_bal (stats_map ?s))"
    by (simp add: slab_bal_def [abs_def] sum_list_map_diff slab_report.report_counter)
  then have "slab_bal ?t = sum_list (map (\<lambda>cpu. cpu_count cpu ?s) [0..<n])"
    using slab_run_totals [OF wf flow] by simp
  then show "\<exists>t. slab_print_stats n True (Some (stats_map ?s)) = Some t
        \<and> events_seen t = sum_list (map events_seen (stats_map ?s))
        \<and> map_update_failed t = sum_list (map map_update_failed (stats_map ?s))
        \<and> events_seen t = alloc_failed t + filtered_pid t + map_update_failed t + name_read_failed t
            + sum_list (map (\<lambda>cpu. cpu_count cpu ?s) [0..<n])"
    using wf by (simp add: slab_print_stats_def slab_wf_def slab_report.report_counter slab_bal_def algebra_simps)
qed

end
