(* ===== verification/SlabTable.thy ===== *)
theory SlabTable
  imports SlabRate Printf
begin

section \<open>mem/slab\_rate: the table is exact\<close>

text \<open>
  What \<open>print_interval\<close> shows is related to the allocations that happened between two readings of the map: the
  differences of the totals are exact unless the failure counter moved, and the rows shown are the largest ones.
\<close>

text \<open>
  The first column of the table. \<open>format_cache_name\<close> writes it into a buffer of \<open>CACHE_NAME_SIZE + 32\<close> bytes.
\<close>

definition format_cache_name :: "SlabRate_key \<Rightarrow> nat \<Rightarrow> string" where
  "format_cache_name key len =
     (if kind key = SLAB_RATE_KMALLOC then snprintf len (''kmalloc-'' @ fmt_u (alloc_size key))
      else if kind key = SLAB_RATE_CACHE_SIZE then snprintf len (''kmem_cache-'' @ fmt_u (alloc_size key))
      else snprintf len (take CACHE_NAME_SIZE (cache_name key)))"

text \<open>The keys the probes make: a size class has no name, a named cache has one that fits its field.\<close>

definition key_shape :: "SlabRate_key \<Rightarrow> bool" where
  "key_shape key \<longleftrightarrow> (if kind key = SLAB_RATE_NAMED_CACHE
     then length (cache_name key) < CACHE_NAME_SIZE else cache_name key = [])"

lemma slab_wants_shape: "slab_wants kn f = Wanted fb key bytes \<Longrightarrow> key_shape key"
  by (cases "(kn, f)" rule: slab_wants.cases)
     (auto simp: key_shape_def kmalloc_key_def size_key_def named_fate_def CACHE_NAME_SIZE_def Let_def split: if_splits prod.splits option.splits)

text \<open>No label is cut, so two rows of one kind with the same label are about the same name or size class.\<close>

lemma length_fmt_u64: "length (fmt_u (w :: u64)) \<le> 20"
  using unsigned_less [of w, where ?'a = nat] unfolding fmt_u_def by (intro length_decimal) simp_all

lemma format_cache_name_whole:
  "format_cache_name key (CACHE_NAME_SIZE + 32) =
     (case kind key of SLAB_RATE_KMALLOC \<Rightarrow> ''kmalloc-'' @ fmt_u (alloc_size key)
      | SLAB_RATE_CACHE_SIZE \<Rightarrow> ''kmem_cache-'' @ fmt_u (alloc_size key)
      | SLAB_RATE_NAMED_CACHE \<Rightarrow> take CACHE_NAME_SIZE (cache_name key))"
  using length_fmt_u64 [of "alloc_size key"]
  by (cases "kind key") (simp_all add: format_cache_name_def CACHE_NAME_SIZE_def)

lemma cache_label_unique:
  assumes "key_shape k" and "key_shape k'" and "kind k = kind k'"
    and "format_cache_name k (CACHE_NAME_SIZE + 32) = format_cache_name k' (CACHE_NAME_SIZE + 32)"
  shows "cache_name k = cache_name k' \<and> (kind k \<noteq> SLAB_RATE_NAMED_CACHE \<longrightarrow> alloc_size k = alloc_size k')"
  using assms unfolding format_cache_name_whole
  by (cases "kind k'") (auto simp: key_shape_def fmt_u_def decimal_inj word_unat_eq_iff)

text \<open>The sizes of the allocations of a window that belong under a key.\<close>

definition allocs_of :: "slab_kernel \<Rightarrow> SlabRate_ctrl \<Rightarrow> slab_firing list \<Rightarrow> SlabRate_key \<Rightarrow> u64 list" where
  "allocs_of kn c fs key = List.map_filter
     (\<lambda>f. case slab_fate_of kn c f of Wanted fb k b \<Rightarrow> if k = key then Some b else None | _ \<Rightarrow> None) fs"

definition key_count :: "SlabRate_state \<Rightarrow> SlabRate_key \<Rightarrow> u64" where
  "key_count s key = sum_list (map count (entry_of s key))"

definition key_bytes :: "SlabRate_state \<Rightarrow> SlabRate_key \<Rightarrow> u64" where
  "key_bytes s key = sum_list (map allocated_bytes (entry_of s key))"

definition map_fails :: "SlabRate_state \<Rightarrow> u64" where
  "map_fails s = sum_list (map map_update_failed (stats_map s))"

text \<open>What a walk over all keys reads when the map is left alone.\<close>

definition slab_lookup :: "SlabRate_state \<Rightarrow> SlabRate_key \<Rightarrow> int + SlabRate_info list" where
  "slab_lookup s key = (case map_of (slab_entries s) key of None \<Rightarrow> Inl ENOENT | Some vs \<Rightarrow> Inr vs)"

definition reading :: "SlabRate_key list \<Rightarrow> SlabRate_state \<Rightarrow> int + slab_sample list" where
  "reading ks s = collect_samples ks ENOENT (slab_lookup s) (length (stats_map s)) []"

definition sample_of :: "SlabRate_state \<Rightarrow> SlabRate_key \<Rightarrow> slab_sample" where
  "sample_of s key = \<lparr>sm_key = key, sm_total = \<lparr>count = key_count s key, allocated_bytes = key_bytes s key\<rparr>\<rparr>"

lemma allocs_of_simps:
  "allocs_of kn c [] key = []"
  "allocs_of kn c (f # fs) key = allocs_of kn c [f] key @ allocs_of kn c fs key"
  by (simp_all add: allocs_of_def List.map_filter_def split: slab_fate.split)

lemma entry_of_count [simp]: "entry_of (slab_count env f s) = entry_of s"
  by (simp add: entry_of_def fun_eq_iff split: option.split)

lemma entry_of_account:
  "slab_room env key s \<Longrightarrow> entry_of (account_alloc env key bytes s) k =
     (if k = key then percpu_upd (env_cpu env) (info_add bytes) (entry_of s key) else entry_of s k)"
  by (simp add: account_alloc_cases entry_of_def update_conv' split: option.split)

lemma entry_sums_zero:
  "map_of (slab_entries s) key = None \<Longrightarrow> key_count s key = 0 \<and> key_bytes s key = 0"
  by (simp add: key_count_def key_bytes_def entry_of_def info_zero_def sum_list_replicate)

lemma key_sums_account:
  assumes "slab_wf n c s" and "slab_room env key s" and "env_cpu env < n"
  shows "key_count (account_alloc env key bytes s) k = key_count s k + of_bool (k = key)"
    and "key_bytes (account_alloc env key bytes s) k = key_bytes s k + (if k = key then bytes else 0)"
  using assms length_entry_of [OF assms(1), of key]
  by (simp_all add: key_count_def key_bytes_def entry_of_account sum_percpu_plus info_add_def)

lemma map_fails_count:
  assumes "\<And>x. map_update_failed (f x) = map_update_failed x"
  shows "map_fails (slab_count env f s) = map_fails s"
  using assms by (simp add: map_fails_def sum_percpu_upd_same)

lemma map_fails_fail:
  assumes "env_cpu env < length (stats_map s)"
  shows "map_fails (slab_count env (\<lambda>c. c\<lparr>map_update_failed := map_update_failed c + 1\<rparr>) s) = map_fails s + 1"
  using assms by (simp add: map_fails_def sum_percpu_plus1)

lemma key_sums_count [simp]:
  "key_count (slab_count env f s) = key_count s"
  "key_bytes (slab_count env f s) = key_bytes s"
  by (simp_all add: key_count_def key_bytes_def fun_eq_iff)

text \<open>One firing is counted exactly, or the failure counter moves.\<close>

definition counted :: "slab_kernel \<Rightarrow> SlabRate_ctrl \<Rightarrow> slab_firing list \<Rightarrow> SlabRate_state \<Rightarrow> SlabRate_state \<Rightarrow> bool" where
  "counted kn c fs s s' \<longleftrightarrow> (\<forall>k. key_count s' k = key_count s k + of_nat (length (allocs_of kn c fs k))
     \<and> key_bytes s' k = key_bytes s k + sum_list (allocs_of kn c fs k))"

lemma slab_step_counted:
  assumes wf: "slab_wf n c s" and en: "enable c" and cpu: "env_cpu (slab_env f) < n"
  shows "(map_fails (slab_step kn f s) = map_fails s \<and> counted kn c [f] s (slab_step kn f s))
    \<or> map_fails (slab_step kn f s) = map_fails s + 1"
proof -
  have c: "ctrl_map s = Some c" using wf by (simp add: slab_wf_def)
  note fate = slab_step_fate [OF c en, of kn f]
  show ?thesis
  proof (cases "slab_fate_of kn c f")
    case (Wanted fb key bytes)
    let ?g = "\<lambda>x. if fb then (seen1 x)\<lparr>size_fallback := size_fallback x + 1\<rparr> else seen1 x"
    let ?s = "slab_count (slab_env f) ?g s"
    have s: "slab_wf n c ?s" "map_fails ?s = map_fails s"
      using wf by (simp_all add: slab_wf_count map_fails_count seen1_def)
    have eq: "slab_step kn f s = account_alloc (slab_env f) key bytes ?s"
      using Wanted by (simp add: fate fate_step_def)
    show ?thesis
    proof (cases "slab_room (slab_env f) key ?s")
      case True
      have "counted kn c [f] s (slab_step kn f s)"
        using Wanted key_sums_account [OF s(1) True cpu]
        by (simp add: counted_def eq allocs_of_def List.map_filter_def)
      moreover have "map_fails (slab_step kn f s) = map_fails s"
        using s True by (simp add: eq account_alloc_cases map_fails_def)
      ultimately show ?thesis by simp
    next
      case False
      have "map_fails (slab_step kn f s) = map_fails ?s + 1"
        unfolding eq account_alloc_cases using False cpu s(1)
        by (simp only: if_False map_fails_fail slab_wf_def)
      then show ?thesis using s by simp
    qed
  qed (simp_all add: fate fate_step_def counted_def allocs_of_def List.map_filter_def map_fails_count seen1_def)
qed

lemma slab_run_counted:
  assumes "slab_wf n c s" and "enable c" and "list_all (\<lambda>f. env_cpu (slab_env f) < n) fs"
  shows "\<exists>j \<le> length fs. map_fails (fold (slab_step kn) fs s) = map_fails s + of_nat j
    \<and> (j = 0 \<longrightarrow> counted kn c fs s (fold (slab_step kn) fs s))"
  using assms
proof (induction fs arbitrary: s)
  case Nil
  then show ?case by (simp add: counted_def allocs_of_simps)
next
  case (Cons f fs)
  let ?s = "slab_step kn f s"
  obtain j where j: "j \<le> length fs" "map_fails (fold (slab_step kn) fs ?s) = map_fails ?s + of_nat j"
      "j = 0 \<Longrightarrow> counted kn c fs ?s (fold (slab_step kn) fs ?s)"
    using Cons.IH [of ?s] Cons.prems by (auto simp: slab_wf_step)
  consider "map_fails ?s = map_fails s" "counted kn c [f] s ?s" | "map_fails ?s = map_fails s + 1"
    using slab_step_counted [of n c s f kn] Cons.prems by auto
  then show ?case
  proof cases
    case 1
    have "counted kn c (f # fs) s (fold (slab_step kn) (f # fs) s)" if "j = 0"
      using 1(2) j(3) [OF that] by (simp add: counted_def allocs_of_simps(2) [of kn c f fs] algebra_simps)
    then show ?thesis using j 1 by (intro exI [of _ j]) simp
  next
    case 2
    then show ?thesis using j by (intro exI [of _ "Suc j"]) (simp add: algebra_simps)
  qed
qed

text \<open>Reading all keys.\<close>

lemma info_merge_sums:
  "foldl info_merge i vs =
     \<lparr>count = count i + sum_list (map count vs), allocated_bytes = allocated_bytes i + sum_list (map allocated_bytes vs)\<rparr>"
  by (induction vs arbitrary: i) (simp_all add: info_merge_def algebra_simps)

lemma reading_all:
  assumes "slab_wf n c s" and "distinct ks" and "set ks = dom (map_of (slab_entries s))"
  shows "reading ks s = Inr (map (sample_of s) ks)"
proof -
  have walk: "collect_samples ks' ENOENT (slab_lookup s) n acc = Inr (acc @ map (sample_of s) ks')"
    if "set ks' \<subseteq> dom (map_of (slab_entries s))" and "length acc + length ks' \<le> SLAB_RATE_MAX_ENTRIES" for ks' acc
    using that
  proof (induction ks' arbitrary: acc)
    case (Cons k ks')
    then obtain vs where vs: "map_of (slab_entries s) k = Some vs" by auto
    then have "length vs = n" using assms(1) by (auto simp: slab_wf_def map_all_def)
    then have "foldl info_merge info_zero (take n vs) = sm_total (sample_of s k)"
      using vs by (simp add: info_merge_sums sample_of_def key_count_def key_bytes_def entry_of_def info_zero_def)
    then show ?case
      using Cons vs by (simp add: slab_lookup_def Let_def sample_of_def)
  qed simp
  have "length ks = card (dom (map_of (slab_entries s)))"
    using assms(2,3) by (metis distinct_card)
  also have "\<dots> \<le> length (slab_entries s)"
    by (metis card_length dom_map_of_conv_image_fst length_map set_map)
  also have "\<dots> \<le> SLAB_RATE_MAX_ENTRIES" using assms(1) by (simp add: slab_wf_def map_wf_def)
  finally have "length ks \<le> SLAB_RATE_MAX_ENTRIES" .
  then show ?thesis using walk [of ks "[]"] assms by (simp add: reading_def slab_wf_def)
qed

lemma find_previous_samples:
  "find_previous (map (sample_of s) ks) k = (if k \<in> set ks then Some (sm_total (sample_of s k)) else None)"
  by (induction ks) (auto simp: find_previous_def sample_of_def)

text \<open>No counter wraps during the window.\<close>

definition no_wrap :: "slab_kernel \<Rightarrow> SlabRate_ctrl \<Rightarrow> slab_firing list \<Rightarrow> SlabRate_state \<Rightarrow> bool" where
  "no_wrap kn c fs s \<longleftrightarrow> (\<forall>k. unat (key_count s k) + length (allocs_of kn c fs k) < 2 ^ 64
     \<and> unat (key_bytes s k) + sum_list (map unat (allocs_of kn c fs k)) < 2 ^ 64)"

definition window_row :: "slab_kernel \<Rightarrow> SlabRate_ctrl \<Rightarrow> slab_firing list \<Rightarrow> double \<Rightarrow> SlabRate_key \<Rightarrow> slab_row" where
  "window_row kn c fs sec k = (let n = of_nat (length (allocs_of kn c fs k)); b = sum_list (allocs_of kn c fs k) in
     \<lparr>row_key = k, count_delta = n, bytes_delta = b,
      allocs_per_sec = double_div (double_of_u64 n) sec, bytes_per_sec = double_div (double_of_u64 b) sec\<rparr>)"

lemma plus_not_less:
  fixes a d :: u64
  assumes "unat a + unat d < 2 ^ 64"
  shows "\<not> a + d < a"
  using assms by (simp add: word_less_nat_alt unat_add_lem [THEN iffD1])

lemma window_row_of:
  assumes "counted kn c fs s s'" and "no_wrap kn c fs s" and "set ks = dom (map_of (slab_entries s))"
  shows "row_of (map (sample_of s) ks) sec (sample_of s' k) =
    (if allocs_of kn c fs k = [] then None else Some (window_row kn c fs sec k))"
proof -
  let ?a = "allocs_of kn c fs k"
  have old: "(case find_previous (map (sample_of s) ks) k of None \<Rightarrow> 0 | Some i \<Rightarrow> count i) = key_count s k"
    "(case find_previous (map (sample_of s) ks) k of None \<Rightarrow> 0 | Some i \<Rightarrow> allocated_bytes i) = key_bytes s k"
    using assms(3) entry_sums_zero [of s k] by (auto simp: find_previous_samples sample_of_def)
  have len: "length ?a < 2 ^ 64" and bytes: "sum_list (map unat ?a) < 2 ^ 64"
    using assms(2) by (auto simp: no_wrap_def dest: spec [of _ k])
  have "\<not> key_count s k + of_nat (length ?a) < key_count s k"
    using assms(2) len by (intro plus_not_less) (simp add: unat_of_nat_small no_wrap_def)
  moreover have "\<not> key_bytes s k + sum_list ?a < key_bytes s k"
    using assms(2) bytes by (intro plus_not_less) (simp add: unat_sum_list no_wrap_def)
  ultimately show ?thesis
    using assms(1) len old
    by (simp add: row_of_def sample_of_def counted_def window_row_def of_nat_zero_iff Let_def)
qed

text \<open>The first rows of a descending sort are the largest ones.\<close>

lemma qsort_insert_simps:
  "set (qsort_insert cmp x ys) = insert x (set ys)" "length (qsort_insert cmp x ys) = Suc (length ys)"
  "distinct (qsort_insert cmp x ys) \<longleftrightarrow> x \<notin> set ys \<and> distinct ys"
  by (induction ys) auto

lemma qsort_simps [simp]:
  "set (qsort cmp xs) = set xs" "length (qsort cmp xs) = length xs" "distinct (qsort cmp xs) = distinct xs"
proof -
  have "set (foldr (qsort_insert cmp) xs []) = set xs \<and> length (foldr (qsort_insert cmp) xs []) = length xs
      \<and> distinct (foldr (qsort_insert cmp) xs []) = distinct xs"
    by (induction xs) (simp_all add: qsort_insert_simps)
  then show "set (qsort cmp xs) = set xs" "length (qsort cmp xs) = length xs" "distinct (qsort cmp xs) = distinct xs"
    by (simp_all add: qsort_def)
qed

lemma sort_by_bytes_rate_iff: "sort_by_bytes_rate a b \<le> 0 \<longleftrightarrow> bytes_per_sec b \<le> bytes_per_sec a"
  by (auto simp: sort_by_bytes_rate_def)

lemma sorted_desc: "sorted_wrt (\<lambda>a b. bytes_per_sec b \<le> bytes_per_sec a) (qsort sort_by_bytes_rate rows)"
proof -
  let ?R = "\<lambda>a b. bytes_per_sec b \<le> bytes_per_sec a"
  have "sorted_wrt ?R ys \<Longrightarrow> sorted_wrt ?R (qsort_insert sort_by_bytes_rate x ys)" for x ys
    by (induction ys) (auto simp: sort_by_bytes_rate_iff qsort_insert_simps)
  then show ?thesis unfolding qsort_def by (induction rows) simp_all
qed

lemma shown_largest:
  assumes "r \<in> set rows" and "r \<notin> set (take m (qsort sort_by_bytes_rate rows))"
    and "x \<in> set (take m (qsort sort_by_bytes_rate rows))"
  shows "bytes_per_sec r \<le> bytes_per_sec x"
proof -
  let ?ys = "qsort sort_by_bytes_rate rows"
  have "r \<in> set (drop m ?ys)"
    using assms(1,2) by (metis UnE append_take_drop_id set_append qsort_simps(1))
  moreover have "sorted_wrt (\<lambda>a b. bytes_per_sec b \<le> bytes_per_sec a) (take m ?ys @ drop m ?ys)"
    using sorted_desc by simp
  ultimately show ?thesis using assms(3) unfolding sorted_wrt_append by blast
qed

lemma window_keys_present:
  assumes "counted kn c fs s s'" and "no_wrap kn c fs s" and "allocs_of kn c fs k \<noteq> []"
  shows "k \<in> dom (map_of (slab_entries s'))"
proof (rule ccontr)
  assume "\<not> ?thesis"
  then have "key_count s' k = 0" using entry_sums_zero [of s' k] by auto
  then have "key_count s k + of_nat (length (allocs_of kn c fs k)) = 0"
    using assms(1) by (simp add: counted_def)
  moreover have "unat (key_count s k) + unat (of_nat (length (allocs_of kn c fs k)) :: u64) < 2 ^ 64"
    using assms(2) by (simp add: no_wrap_def unat_of_nat_small add_lessD1 [of _ "unat (key_count s k)"] add.commute)
  then have "unat (key_count s k + of_nat (length (allocs_of kn c fs k))) =
      unat (key_count s k) + unat (of_nat (length (allocs_of kn c fs k)) :: u64)"
    by (intro unat_add_lem [THEN iffD1]) simp
  ultimately have "unat (of_nat (length (allocs_of kn c fs k)) :: u64) = 0" by simp
  then show False using assms(2,3) by (auto simp: no_wrap_def unat_of_nat_small dest: spec [of _ k])
qed

lemma map_filter_map: "List.map_filter f (map g xs) = List.map_filter (f \<circ> g) xs"
  by (induction xs) (simp_all add: List.map_filter_def)

lemma map_filter_if: "List.map_filter (\<lambda>x. if P x then None else Some (f x)) xs = map f (filter (\<lambda>x. \<not> P x) xs)"
  by (induction xs) (simp_all add: List.map_filter_def)

text \<open>The rows of a window, before sorting: one per key that had allocations.\<close>

lemma window_rows:
  assumes "counted kn c fs s s'" and "no_wrap kn c fs s" and "set ks = dom (map_of (slab_entries s))"
    and "set ks' = dom (map_of (slab_entries s'))"
  shows "List.map_filter (row_of (map (sample_of s) ks) sec) (map (sample_of s') ks') =
      map (window_row kn c fs sec) (filter (\<lambda>k. allocs_of kn c fs k \<noteq> []) ks')"
    and "set (filter (\<lambda>k. allocs_of kn c fs k \<noteq> []) ks') = {k. allocs_of kn c fs k \<noteq> []}"
proof -
  have "row_of (map (sample_of s) ks) sec \<circ> sample_of s' =
      (\<lambda>k. if allocs_of kn c fs k = [] then None else Some (window_row kn c fs sec k))"
    using window_row_of [OF assms(1-3)] by auto
  then show "List.map_filter (row_of (map (sample_of s) ks) sec) (map (sample_of s') ks') =
      map (window_row kn c fs sec) (filter (\<lambda>k. allocs_of kn c fs k \<noteq> []) ks')"
    by (simp only: map_filter_map map_filter_if not_False_eq_True)
  show "set (filter (\<lambda>k. allocs_of kn c fs k \<noteq> []) ks') = {k. allocs_of kn c fs k \<noteq> []}"
    using window_keys_present [OF assms(1,2)] assms(4) by auto
qed

lemma window_row_values:
  assumes "no_wrap kn c fs s"
  shows "unat (count_delta (window_row kn c fs sec k)) = length (allocs_of kn c fs k)"
    and "unat (bytes_delta (window_row kn c fs sec k)) = sum_list (map unat (allocs_of kn c fs k))"
proof -
  have "length (allocs_of kn c fs k) < 2 ^ 64" "sum_list (map unat (allocs_of kn c fs k)) < 2 ^ 64"
    using assms by (auto simp: no_wrap_def dest: spec [of _ k])
  then show "unat (count_delta (window_row kn c fs sec k)) = length (allocs_of kn c fs k)"
    "unat (bytes_delta (window_row kn c fs sec k)) = sum_list (map unat (allocs_of kn c fs k))"
    by (simp_all add: window_row_def unat_of_nat_small unat_sum_list Let_def)
qed

text \<open>
  The table a window prints is the specification: every row is the exact count and sum of its key. Which keys are shown is decided by
  the rates, which are rounded: a key left out has no larger rate than one shown, and if it has more bytes then
  the two rates are the same \<^verbatim>\<open>double\<close>.
\<close>

definition rate_per_sec :: "u64 \<Rightarrow> nat \<Rightarrow> double" where
  "rate_per_sec interval_ns n = double_div (double_of_u64 (of_nat n)) (seconds_of interval_ns)"

definition table_exact :: "u64 \<Rightarrow> (SlabRate_key \<Rightarrow> u64 list) \<Rightarrow> (slab_row \<times> u64) list \<Rightarrow> bool" where
  "table_exact interval_ns al shown \<longleftrightarrow>
     (\<forall>(r, avg) \<in> set shown. let a = al (row_key r); b = sum_list (map unat a) in
        a \<noteq> [] \<and> unat (count_delta r) = length a \<and> unat (bytes_delta r) = b \<and> unat avg = b div length a
        \<and> allocs_per_sec r = rate_per_sec interval_ns (length a) \<and> bytes_per_sec r = rate_per_sec interval_ns b)
     \<and> distinct (map (row_key \<circ> fst) shown)
     \<and> sorted_wrt (\<lambda>p q. bytes_per_sec (fst q) \<le> bytes_per_sec (fst p)) shown
     \<and> length shown = min 20 (card {k. al k \<noteq> []})
     \<and> (\<forall>k. al k \<noteq> [] \<longrightarrow> k \<notin> set (map (row_key \<circ> fst) shown) \<longrightarrow>
          (\<forall>p \<in> set shown. let b = sum_list (map unat (al k)) in
             rate_per_sec interval_ns b \<le> bytes_per_sec (fst p)
             \<and> (b \<le> unat (bytes_delta (fst p)) \<or> rate_per_sec interval_ns b = bytes_per_sec (fst p))))"

lemma rate_per_sec_mono:
  assumes "m \<le> n" and "n < 2 ^ 64" and "i \<noteq> 0"
  shows "rate_per_sec i m \<le> rate_per_sec i n"
proof -
  have "(of_nat m :: u64) \<le> of_nat n" using assms(1,2) by (simp add: word_le_nat_alt unat_of_nat_small)
  then show ?thesis
    using assms(3) unfolding rate_per_sec_def by (intro double_div_mono double_of_u64_mono) simp_all
qed

lemma window_row_rates:
  assumes "no_wrap kn c fs s"
  shows "allocs_per_sec (window_row kn c fs (seconds_of i) k) = rate_per_sec i (length (allocs_of kn c fs k))"
    and "bytes_per_sec (window_row kn c fs (seconds_of i) k) = rate_per_sec i (sum_list (map unat (allocs_of kn c fs k)))"
proof -
  have e: "unat (sum_list (allocs_of kn c fs k)) = sum_list (map unat (allocs_of kn c fs k))"
    using window_row_values(2) [OF assms, of "seconds_of i" k] by (simp add: window_row_def Let_def)
  have "of_nat (sum_list (map unat (allocs_of kn c fs k))) = sum_list (allocs_of kn c fs k)"
    unfolding e [symmetric] by simp
  then show "allocs_per_sec (window_row kn c fs (seconds_of i) k) = rate_per_sec i (length (allocs_of kn c fs k))"
    "bytes_per_sec (window_row kn c fs (seconds_of i) k) = rate_per_sec i (sum_list (map unat (allocs_of kn c fs k)))"
    by (simp_all add: window_row_def rate_per_sec_def Let_def)
qed

lemma table_exact_rows:
  assumes nw: "no_wrap kn c fs s" and ks: "distinct ks" "set ks = {k. allocs_of kn c fs k \<noteq> []}" and i: "i \<noteq> 0"
  shows "table_exact i (allocs_of kn c fs)
    (map (\<lambda>r. (r, bytes_delta r div count_delta r))
       (take OUTPUT_ROWS (qsort sort_by_bytes_rate (map (window_row kn c fs (seconds_of i)) ks))))"
proof -
  let ?w = "window_row kn c fs (seconds_of i)"
  let ?rows = "map ?w ks"
  let ?shown = "take OUTPUT_ROWS (qsort sort_by_bytes_rate ?rows)"
  let ?b = "\<lambda>k. sum_list (map unat (allocs_of kn c fs k))"
  have key: "row_key (?w k) = k" for k by (simp add: window_row_def Let_def)
  note vals = window_row_values [OF nw, of "seconds_of i"] window_row_rates [OF nw, of i]
  have inj: "inj_on row_key (set ?rows)" by (auto simp: inj_on_def key)
  have "distinct ?rows" using ks(1) key by (metis distinct_map inj_on_inverseI)
  then have dist: "distinct (map row_key ?shown)"
    using inj by (simp add: distinct_map inj_on_subset [OF _ set_take_subset] )
  have origin: "\<exists>k. r = ?w k \<and> allocs_of kn c fs k \<noteq> []" if "r \<in> set ?shown" for r
    using set_mp [OF set_take_subset that] ks(2) by auto
  have omitted: "rate_per_sec i (?b k) \<le> bytes_per_sec r \<and> (?b k \<le> unat (bytes_delta r) \<or> rate_per_sec i (?b k) = bytes_per_sec r)"
    if k: "allocs_of kn c fs k \<noteq> []" "k \<notin> row_key ` set ?shown" "r \<in> set ?shown" for k r
  proof -
    obtain k' where r: "r = ?w k'" using origin [OF k(3)] by blast
    have "?w k \<in> set ?rows" "?w k \<notin> set ?shown" using k ks(2) key by (auto, metis imageI)
    then have le: "rate_per_sec i (?b k) \<le> bytes_per_sec r"
      using shown_largest [of "?w k" ?rows] k(3) vals(4) by metis
    have "?b k < 2 ^ 64" using nw by (auto simp: no_wrap_def dest: spec [of _ k])
    then have "bytes_per_sec r \<le> rate_per_sec i (?b k)" if "\<not> ?b k \<le> unat (bytes_delta r)"
      using that i unfolding r vals(2,4) by (intro rate_per_sec_mono) simp_all
    then show ?thesis using le by fastforce
  qed
  have desc: "sorted_wrt (\<lambda>a b. bytes_per_sec b \<le> bytes_per_sec a) ?shown"
    by (intro sorted_wrt_take sorted_desc)
  have len: "length ?shown = min 20 (card {k. allocs_of kn c fs k \<noteq> []})"
    using ks by (simp add: OUTPUT_ROWS_def min.commute flip: distinct_card)
  have rows: "let a = allocs_of kn c fs (row_key r); b = sum_list (map unat a) in
      a \<noteq> [] \<and> unat (count_delta r) = length a \<and> unat (bytes_delta r) = b
      \<and> unat (bytes_delta r div count_delta r) = b div length a
      \<and> allocs_per_sec r = rate_per_sec i (length a) \<and> bytes_per_sec r = rate_per_sec i b" if "r \<in> set ?shown" for r
    using origin [OF that] vals key by (auto simp: unat_div Let_def)
  show ?thesis
    unfolding table_exact_def
    using dist omitted desc len rows by (auto simp: sorted_wrt_map comp_def image_image Let_def)
qed

text \<open>
  C12: the table of a window is exact. Take any two readings of the map and the allocations
  between them, on any CPUs; if the counter of failed map updates has not moved and no total
  wraps around, then reading succeeds and the table shows, in descending order of the byte rate, one row per
  key for the (at most 20) keys with the largest rates, each with exactly the number, the bytes and the mean
  size of the successful allocations of the selected process under that key in the window, and the rates of these numbers
  rounded as \<^verbatim>\<open>double\<close> arithmetic does. A key with more bytes than one shown is left out only
  if their rates round to the same \<^verbatim>\<open>double\<close>.
\<close>

theorem slab_window_exact:
  assumes "slab_wf n c s" and "enable c" and "list_all (\<lambda>f. env_cpu (slab_env f) < n) fs"
    and "length fs < 2 ^ 64" and "no_wrap kn c fs s" and "interval_ns \<noteq> 0"
    and "distinct ks" and "set ks = dom (map_of (slab_entries s))"
    and "distinct ks'" and "set ks' = dom (map_of (slab_entries (fold (slab_step kn) fs s)))"
    and "map_fails (fold (slab_step kn) fs s) = map_fails s"
  shows "\<exists>previous current shown. reading ks s = Inr previous
    \<and> print_interval previous interval_ns (reading ks' (fold (slab_step kn) fs s)) = Inr (shown, current)
    \<and> reading ks' (fold (slab_step kn) fs s) = Inr current
    \<and> table_exact interval_ns (allocs_of kn c fs) shown"
proof -
  let ?s' = "fold (slab_step kn) fs s"
  obtain j where j: "j \<le> length fs" "map_fails ?s' = map_fails s + of_nat j" "j = 0 \<Longrightarrow> counted kn c fs s ?s'"
    using slab_run_counted [OF assms(1-3), of kn] by auto
  then have "(of_nat j :: u64) = 0" using assms(11) by simp
  then have counted: "counted kn c fs s ?s'" using j(1,3) assms(4) by (simp add: of_nat_zero_iff)
  have "slab_wf n c ?s'" using slab_cons.run_inv [OF _ assms(1)] by simp
  then have r: "reading ks s = Inr (map (sample_of s) ks)" "reading ks' ?s' = Inr (map (sample_of ?s') ks')"
    using reading_all assms by auto
  note rows = window_rows [OF counted assms(5,8,10)]
  have "table_exact interval_ns (allocs_of kn c fs)
    (map (\<lambda>r. (r, bytes_delta r div count_delta r)) (take OUTPUT_ROWS (qsort sort_by_bytes_rate
      (map (window_row kn c fs (seconds_of interval_ns)) (filter (\<lambda>k. allocs_of kn c fs k \<noteq> []) ks')))))"
    by (rule table_exact_rows [OF assms(5) _ rows(2) assms(6)]) (simp add: assms(9))
  then show ?thesis
    using assms(6) by (simp add: r print_interval_def Let_def rows(1))
qed

definition slab_demo_ctrl :: SlabRate_ctrl where
  "slab_demo_ctrl = \<lparr>enable = True, target_pid = 0, pid_ns_dev = 4, pid_ns_ino = 0xF0000001\<rparr>"

definition slab_demo_kernel :: slab_kernel where
  "slab_demo_kernel = \<lparr>has_accounted = True, k_cache_size = \<lambda>_. 192, k_cache_name = \<lambda>_. Some ''dentry''\<rparr>"

definition slab_demo_run :: "slab_firing list" where
  "slab_demo_run = [Kmalloc (calm_env 0 10 5 5) 0x1000 64, Kmalloc (calm_env 1 20 6 6) 0x2000 64,
     Cache_alloc (calm_env 1 30 6 6) \<lparr>arg_ptr = 0x3000, arg_2 = 0x4000, arg_3 = 0\<rparr>,
     Kmalloc (calm_env 0 40 5 5) 0 64]"

definition dentry_key :: SlabRate_key where
  "dentry_key = \<lparr>alloc_size = 192, kind = SLAB_RATE_NAMED_CACHE, cache_name = ''dentry''\<rparr>"

lemmas slab_demo_defs = slab_demo_ctrl_def slab_demo_kernel_def slab_demo_run_def dentry_key_def slab_init_def

lemma slab_demo_end:
  "fold (slab_step slab_demo_kernel) slab_demo_run (slab_init slab_demo_ctrl 2) =
     \<lparr>ctrl_map = Some slab_demo_ctrl,
      slab_entries = [(kmalloc_key 64, [\<lparr>count = 1, allocated_bytes = 64\<rparr>, \<lparr>count = 1, allocated_bytes = 64\<rparr>]),
        (dentry_key, [\<lparr>count = 0, allocated_bytes = 0\<rparr>, \<lparr>count = 1, allocated_bytes = 192\<rparr>])],
      stats_map = [slab_stats_zero\<lparr>events_seen := 2, alloc_failed := 1\<rparr>, slab_stats_zero\<lparr>events_seen := 2\<rparr>]\<rparr>"
  by code_simp

theorem slab_window_exact_witness:
  "\<exists>previous current shown.
     print_interval previous 1000000 (reading [dentry_key, kmalloc_key 64]
       (fold (slab_step slab_demo_kernel) slab_demo_run (slab_init slab_demo_ctrl 2))) = Inr (shown, current)
     \<and> table_exact 1000000 (allocs_of slab_demo_kernel slab_demo_ctrl slab_demo_run) shown"
proof -
  let ?s = "slab_init slab_demo_ctrl 2"
  have fates: "allocs_of slab_demo_kernel slab_demo_ctrl slab_demo_run k =
      (if k = kmalloc_key 64 then [64, 64] else if k = dentry_key then [192] else [])" for k
    by (simp add: allocs_of_def List.map_filter_def slab_demo_defs slab_fate_of_def slab_selected_def
        named_fate_def kmalloc_key_def)
  have "no_wrap slab_demo_kernel slab_demo_ctrl slab_demo_run ?s"
    using entry_sums_zero [of ?s] by (simp add: no_wrap_def fates slab_init_def)
  moreover have "list_all (\<lambda>f. env_cpu (slab_env f) < 2) slab_demo_run" "length slab_demo_run < 2 ^ 64" "enable slab_demo_ctrl"
    by (simp_all add: slab_demo_defs)
  moreover have "distinct [dentry_key, kmalloc_key 64]" by (simp add: dentry_key_def kmalloc_key_def)
  moreover have "set [dentry_key, kmalloc_key 64] =
      dom (map_of (slab_entries (fold (slab_step slab_demo_kernel) slab_demo_run ?s)))"
    by (simp add: slab_demo_end insert_commute)
  moreover have "map_fails (fold (slab_step slab_demo_kernel) slab_demo_run ?s) = map_fails ?s"
    by (simp add: slab_demo_end map_fails_def slab_stats_zero_def) (simp add: slab_init_def slab_stats_zero_def)
  moreover have "set [] = dom (map_of (slab_entries ?s))" by (simp add: slab_init_def)
  moreover have "(1000000 :: u64) \<noteq> 0" "distinct ([] :: SlabRate_key list)" by simp_all
  ultimately show ?thesis using slab_window_exact [OF slab_wf_init] by metis
qed

end
