(* ===== verification/SlabRun.thy ===== *)
theory SlabRun
  imports SlabTable RunLoop
begin

section \<open>mem/slab\_rate: the run function\<close>

text \<open>
  \<open>slab_rate_run\<close> of \<^verbatim>\<open>mem/slab_rate/user.c\<close> differs from the other modules: it has no ring buffer, allocates its
  buffers itself, attaches two probes that older kernels have only, and prints a table per window.
\<close>

text \<open>
  \<open>kmem_tracepoint_exists\<close>: \<open>accessible\<close> is \<^verbatim>\<open>access(path, F_OK) == 0\<close>. The result is 1, 0, or -1 when no
  trace file system can be seen.
\<close>

definition tracefs_roots :: "string list" where
  "tracefs_roots = [''/sys/kernel/tracing'', ''/sys/kernel/debug/tracing'']"

fun tracepoint_search :: "(string \<Rightarrow> bool) \<Rightarrow> string \<Rightarrow> string list \<Rightarrow> bool \<Rightarrow> int" where
  "tracepoint_search accessible event [] visible = (if visible then 0 else - 1)"
| "tracepoint_search accessible event (dir # roots) visible =
     (let events_dir = dir @ ''/events/kmem'' in
      if \<not> accessible events_dir then tracepoint_search accessible event roots visible
      else if accessible (events_dir @ ''/'' @ event @ ''/id'') then 1
      else tracepoint_search accessible event roots True)"

definition kmem_tracepoint_exists :: "(string \<Rightarrow> bool) \<Rightarrow> string \<Rightarrow> int" where
  "kmem_tracepoint_exists accessible event = tracepoint_search accessible event tracefs_roots False"

text \<open>The return value, and whether \<open>*link\<close> is set; \<open>att\<close> is the error of the attach, 0 for none.\<close>

definition attach_optional_raw_tracepoint ::
    "(string \<Rightarrow> bool) \<Rightarrow> (string \<Rightarrow> int) \<Rightarrow> string \<Rightarrow> int \<times> bool" where
  "attach_optional_raw_tracepoint accessible att event =
     (if kmem_tracepoint_exists accessible event = 0 then (0, False)
      else if att event = 0 then (0, True)
      else (if att event = - ENOENT then 0 else att event, False))"

text \<open>
  What the calls of one run return. A window has the exit flags before and after the wait, what
  \<^verbatim>\<open>poll\<close> returned (0, or the negated \<open>errno\<close>), the clock at its end and what the map walk gives.
\<close>

record slab_window =
  w_before :: exit_flags
  w_poll :: int
  w_after :: exit_flags
  w_time :: "u64 \<times> u64"
  w_collected :: "int + slab_sample list"

record slab_run_env =
  sr_stat :: "int + (u64 \<times> u64)"
  sr_ncpus :: int
  sr_callocs :: "bool \<times> bool \<times> bool \<times> bool"
  sr_open :: bool
  sr_load_err :: int
  sr_ctrl_err :: int
  sr_attach_err :: int
  sr_access :: "string \<Rightarrow> bool"
  sr_attach_raw :: "string \<Rightarrow> int"
  sr_start :: "u64 \<times> u64"
  sr_windows :: "slab_window list"

datatype slab_action =
    Alloc_buffers "bool \<times> bool \<times> bool \<times> bool"
  | Open_skel bool
  | Load_skel int
  | Write_slab_ctrl SlabRate_ctrl int
  | Attach_main int
  | Attach_link string bool
  | Wait s32 int
  | Read_map int
  | Table "(slab_row \<times> u64) list"
  | Print_health
  | Destroy_link string bool
  | Destroy_skel bool
  | Free_buffers "bool \<times> bool \<times> bool \<times> bool"

text \<open>
  The loop: \<open>err\<close> when it ends and the calls made; \<open>Read_map\<close> is the walk over the map, with its error or 0. \<open>EINTR\<close> does not end it by itself: the flags
  are read again, and without a request to stop the short window is printed.
\<close>

fun slab_loop :: "s32 \<Rightarrow> slab_window list \<Rightarrow> slab_sample list \<Rightarrow> u64 \<times> u64 \<Rightarrow> (int \<times> slab_action list) option" where
  "slab_loop timeout [] previous window_start = None"
| "slab_loop timeout (w # ws) previous window_start =
     (if app_should_exit (w_before w) then Some (0, [])
      else if w_poll w < 0 \<and> w_poll w \<noteq> - EINTR then Some (w_poll w, [Wait timeout (w_poll w)])
      else if app_should_exit (w_after w) then Some (0, [Wait timeout (w_poll w)])
      else let interval = elapsed_ns window_start (w_time w);
               made = Wait timeout (w_poll w) #
                 (if interval = 0 then [] else [Read_map (case w_collected w of Inl err \<Rightarrow> err | Inr _ \<Rightarrow> 0)]) in
        (case print_interval previous interval (w_collected w) of
           Inl err \<Rightarrow> Some (err, made)
         | Inr (shown, current) \<Rightarrow>
             map_option (\<lambda>(err, acts). (err, made @ (if interval = 0 then [] else [Table shown]) @ acts))
               (slab_loop timeout ws current (w_time w))))"

definition slab_cleanup :: "bool \<Rightarrow> bool \<Rightarrow> bool \<Rightarrow> slab_run_env \<Rightarrow> slab_action list" where
  "slab_cleanup kmalloc_node_link cache_node_link skel e =
     [Destroy_link ''kmalloc_node'' kmalloc_node_link, Destroy_link ''kmem_cache_alloc_node'' cache_node_link,
      Destroy_skel skel, Free_buffers (sr_callocs e)]"

definition slab_rate_ctrl_of :: "bool \<Rightarrow> s32 \<Rightarrow> u64 \<Rightarrow> u64 \<Rightarrow> SlabRate_ctrl" where
  "slab_rate_ctrl_of en pid dev ino = \<lparr>enable = en, target_pid = pid, pid_ns_dev = dev, pid_ns_ino = ino\<rparr>"

text \<open>The part after the configuration is known: buffers, skeleton, probes, loop.\<close>

definition slab_rate_body :: "s32 \<Rightarrow> SlabRate_ctrl \<Rightarrow> slab_run_env \<Rightarrow> (int \<times> slab_action list) option" where
  "slab_rate_body timeout ctrl e = (let
     log1 = [Alloc_buffers (sr_callocs e)];
     log2 = log1 @ [Open_skel (sr_open e)];
     log3 = log2 @ [Load_skel (sr_load_err e)];
     log4 = log3 @ [Write_slab_ctrl ctrl (sr_ctrl_err e)];
     log5 = log4 @ [Attach_main (sr_attach_err e)];
     (err1, link1) = attach_optional_raw_tracepoint (sr_access e) (sr_attach_raw e) ''kmem_cache_alloc_node'';
     log6 = log5 @ [Attach_link ''kmem_cache_alloc_node'' link1];
     (err2, link2) = attach_optional_raw_tracepoint (sr_access e) (sr_attach_raw e) ''kmalloc_node'';
     log7 = log6 @ [Attach_link ''kmalloc_node'' link2]
     in if sr_callocs e \<noteq> (True, True, True, True) then Some (ENOMEM, log1 @ slab_cleanup False False False e)
        else if \<not> sr_open e then Some (EINVAL, log2 @ slab_cleanup False False False e)
        else if sr_load_err e \<noteq> 0 then Some (neg_or_self (sr_load_err e), log3 @ slab_cleanup False False True e)
        else if sr_ctrl_err e \<noteq> 0 then Some (neg_or_self (sr_ctrl_err e), log4 @ slab_cleanup False False True e)
        else if sr_attach_err e \<noteq> 0 then Some (neg_or_self (sr_attach_err e), log5 @ slab_cleanup False False True e)
        else if err1 \<noteq> 0 then Some (neg_or_self err1, log6 @ slab_cleanup False link1 True e)
        else if err2 \<noteq> 0 then Some (neg_or_self err2, log7 @ slab_cleanup link2 link1 True e)
        else map_option (\<lambda>(err, acts). (neg_or_self err, log7 @ acts @ [Print_health] @ slab_cleanup link2 link1 True e))
               (slab_loop timeout (sr_windows e) [] (sr_start e)))"

definition slab_rate_run :: "s32 \<Rightarrow> bool \<Rightarrow> s32 \<Rightarrow> u64 \<Rightarrow> slab_run_env \<Rightarrow> (int \<times> slab_action list) option" where
  "slab_rate_run timeout en pid min_delay e =
     (case app_get_pid_namespace False False (sr_stat e) of
        (_, None) \<Rightarrow> Some (1, [])
      | (_, Some (dev, ino)) \<Rightarrow>
          if sr_ncpus e \<le> 0 then Some (1, [])
          else slab_rate_body timeout (slab_rate_ctrl_of en pid dev ino) e)"

section \<open>The life of a run\<close>

text \<open>
  What was made is given back: the skeleton once if it was opened, every optional link once if it
  was made and before the skeleton, the buffers last. The probes are attached only after the configuration was
  written. The health counters are printed exactly if the probes and the optional ones were attached without error, once, before anything is given back.
\<close>

definition optional_attached :: "slab_run_env \<Rightarrow> bool" where
  "optional_attached e \<longleftrightarrow> list_all
     (\<lambda>event. fst (attach_optional_raw_tracepoint (sr_access e) (sr_attach_raw e) event) = 0)
     [''kmem_cache_alloc_node'', ''kmalloc_node'']"

definition slab_log_ok :: "SlabRate_ctrl \<Rightarrow> slab_run_env \<Rightarrow> slab_action list \<Rightarrow> bool" where
  "slab_log_ok ctrl e acts \<longleftrightarrow>
     (\<exists>b. hd acts = Alloc_buffers b \<and> last acts = Free_buffers b)
     \<and> count_list acts (Destroy_skel True) = count_list acts (Open_skel True)
     \<and> (\<forall>ev. count_list acts (Destroy_link ev True) = count_list acts (Attach_link ev True))
     \<and> (\<forall>ev. Destroy_link ev True \<notin> set (dropWhile (\<lambda>a. a \<noteq> Destroy_skel True) acts))
     \<and> (\<forall>err. Attach_main err \<in> set acts \<longrightarrow>
          Write_slab_ctrl ctrl 0 \<in> set (takeWhile (\<lambda>a. a \<noteq> Attach_main err) acts))
     \<and> count_list acts Print_health = (if Attach_main 0 \<in> set acts \<and> optional_attached e then 1 else 0)
     \<and> (Print_health \<in> set acts \<longrightarrow> Attach_main 0 \<in> set (takeWhile (\<lambda>a. a \<noteq> Print_health) acts)
          \<and> Destroy_skel True \<notin> set (takeWhile (\<lambda>a. a \<noteq> Print_health) acts))"

definition slab_lifecycle ::
    "(u64 \<Rightarrow> u64 \<Rightarrow> SlabRate_ctrl) \<Rightarrow> slab_run_env \<Rightarrow> (int \<times> slab_action list) option \<Rightarrow> bool" where
  "slab_lifecycle c e out \<longleftrightarrow>
     (case out of None \<Rightarrow> True
      | Some (ret, acts) \<Rightarrow>
          (case sr_stat e of
             Inl _ \<Rightarrow> acts = [] \<and> ret = 1
           | Inr (dev, ino) \<Rightarrow> if sr_ncpus e \<le> 0 then acts = [] \<and> ret = 1 else slab_log_ok (c dev ino) e acts))"

definition loop_action :: "slab_action \<Rightarrow> bool" where
  "loop_action a \<longleftrightarrow> (\<exists>t r. a = Wait t r) \<or> (\<exists>r. a = Read_map r) \<or> (\<exists>rows. a = Table rows)"

lemma slab_loop_actions:
  "slab_loop t ws prev st = Some (err, acts) \<Longrightarrow> list_all loop_action acts"
  by (induction t ws prev st arbitrary: err acts rule: slab_loop.induct)
     (fastforce simp: loop_action_def Let_def split: if_splits sum.splits prod.splits)+

lemma loop_action_free:
  assumes "list_all loop_action acts" and "\<not> loop_action a"
  shows "count_list acts a = 0" "a \<notin> set acts" "list_all (\<lambda>b. b \<noteq> a) acts"
proof -
  show "a \<notin> set acts" using assms by (auto simp: list_all_iff)
  then show "count_list acts a = 0" "list_all (\<lambda>b. b \<noteq> a) acts" by (auto simp: list_all_iff count_list_0_iff)
qed

lemma loop_action_simps [simp]:
  "\<not> loop_action (Alloc_buffers b)" "\<not> loop_action (Open_skel l)" "\<not> loop_action (Load_skel i)"
  "\<not> loop_action (Write_slab_ctrl c i)" "\<not> loop_action (Attach_main i)" "\<not> loop_action (Attach_link ev l)"
  "\<not> loop_action Print_health" "\<not> loop_action (Destroy_link ev l)" "\<not> loop_action (Destroy_skel l)"
  "\<not> loop_action (Free_buffers b)"
  by (simp_all add: loop_action_def)

lemma slab_body_ok:
  assumes "slab_rate_body t ctrl e = Some (ret, acts)"
  shows "slab_log_ok ctrl e acts"
proof -
  obtain err1 link1 where l1: "attach_optional_raw_tracepoint (sr_access e) (sr_attach_raw e) ''kmem_cache_alloc_node'' = (err1, link1)"
    by (cases "attach_optional_raw_tracepoint (sr_access e) (sr_attach_raw e) ''kmem_cache_alloc_node''")
  obtain err2 link2 where l2: "attach_optional_raw_tracepoint (sr_access e) (sr_attach_raw e) ''kmalloc_node'' = (err2, link2)"
    by (cases "attach_optional_raw_tracepoint (sr_access e) (sr_attach_raw e) ''kmalloc_node''")
  note body = assms [unfolded slab_rate_body_def l1 l2 Let_def prod.case]
  have opt: "optional_attached e \<longleftrightarrow> err1 = 0 \<and> err2 = 0" by (simp add: optional_attached_def l1 l2)
  consider (early) "sr_callocs e \<noteq> (True, True, True, True) \<or> \<not> sr_open e \<or> sr_load_err e \<noteq> 0 \<or> sr_ctrl_err e \<noteq> 0
      \<or> sr_attach_err e \<noteq> 0 \<or> err1 \<noteq> 0 \<or> err2 \<noteq> 0"
    | (loop) err body where "slab_loop t (sr_windows e) [] (sr_start e) = Some (err, body)" "err1 = 0" "err2 = 0"
        "acts = [Alloc_buffers (sr_callocs e), Open_skel True, Load_skel 0, Write_slab_ctrl ctrl 0, Attach_main 0,
          Attach_link ''kmem_cache_alloc_node'' link1, Attach_link ''kmalloc_node'' link2]
          @ body @ [Print_health] @ slab_cleanup link2 link1 True e"
    using body by (auto split: if_splits)
  then show ?thesis
  proof cases
    case early
    then show ?thesis
      using body by (cases "sr_callocs e") (auto simp: slab_log_ok_def slab_cleanup_def opt split: if_splits)
  next
    case loop
    note free = loop_action_free [OF slab_loop_actions [OF loop(1)]]
    show ?thesis
      unfolding loop(4) slab_log_ok_def slab_cleanup_def
      by (cases "sr_callocs e") (auto simp: free takeWhile_all_append opt loop(2,3))
  qed
qed

lemma slab_run_lifecycle: "slab_lifecycle (slab_rate_ctrl_of en pid) e (slab_rate_run t en pid delay e)"
  by (auto simp: slab_lifecycle_def slab_rate_run_def app_get_pid_namespace_def slab_body_ok
      split: option.split sum.splits if_splits)

text \<open>The run returns once it is told to stop, a wait fails, or a reading fails.\<close>

definition stop_window :: "slab_window \<Rightarrow> bool" where
  "stop_window w \<longleftrightarrow> app_should_exit (w_before w) \<or> app_should_exit (w_after w) \<or> (w_poll w < 0 \<and> w_poll w \<noteq> - EINTR)"

definition slab_stops :: "slab_run_env \<Rightarrow> bool" where
  "slab_stops e \<longleftrightarrow> list_ex stop_window (sr_windows e)"

lemma slab_loop_ends: "list_ex stop_window ws \<Longrightarrow> \<exists>err acts. slab_loop t ws prev st = Some (err, acts)"
proof (induction ws arbitrary: prev st)
  case (Cons w ws)
  show ?case
  proof (cases "stop_window w")
    case True
    then show ?thesis by (auto simp: stop_window_def Let_def split: sum.split prod.split)
  next
    case False
    then have "\<exists>err acts. slab_loop t ws prev' st' = Some (err, acts)" for prev' st'
      using Cons by simp
    moreover obtain out where "print_interval prev (elapsed_ns st (w_time w)) (w_collected w) = out" by simp
    moreover obtain err shown cur where "out = Inl err \<or> out = Inr (shown, cur)" by (metis sum.exhaust surj_pair)
    moreover obtain err' acts where "slab_loop t ws cur (w_time w) = Some (err', acts)" using calculation(1) by blast
    ultimately show ?thesis using False by (auto simp: stop_window_def Let_def)
  qed
qed simp

lemma slab_run_returns: "slab_stops e \<Longrightarrow> slab_rate_run t en pid delay e \<noteq> None"
  using slab_loop_ends [of "sr_windows e" t "[]" "sr_start e"]
  by (auto simp: slab_rate_run_def slab_rate_body_def slab_stops_def Let_def app_get_pid_namespace_def
      split: sum.split prod.split)

text \<open>
  A run that reached its loop returns 0 exactly if no wait failed, an interrupting signal apart, and no walk over the map failed. A
  failing walk has an error.
\<close>

definition slab_started :: "slab_run_env \<Rightarrow> bool" where
  "slab_started e \<longleftrightarrow> (\<exists>di. sr_stat e = Inr di) \<and> 0 < sr_ncpus e \<and> sr_callocs e = (True, True, True, True) \<and> sr_open e
     \<and> sr_load_err e = 0 \<and> sr_ctrl_err e = 0 \<and> sr_attach_err e = 0 \<and> optional_attached e
     \<and> (\<forall>w \<in> set (sr_windows e). w_collected w \<noteq> Inl 0)"

definition calls_succeed :: "slab_action list \<Rightarrow> bool" where
  "calls_succeed acts \<longleftrightarrow> (\<forall>t r. Wait t r \<in> set acts \<longrightarrow> 0 \<le> r \<or> r = - EINTR) \<and> (\<forall>r. Read_map r \<in> set acts \<longrightarrow> r = 0)"

definition slab_status :: "slab_run_env \<Rightarrow> (int \<times> slab_action list) option \<Rightarrow> bool" where
  "slab_status e out \<longleftrightarrow> (case out of None \<Rightarrow> True | Some (ret, acts) \<Rightarrow> slab_started e \<longrightarrow> (ret = 0 \<longleftrightarrow> calls_succeed acts))"

lemma calls_succeed_simps [simp]:
  "calls_succeed []"
  "calls_succeed (Wait t r # acts) \<longleftrightarrow> (0 \<le> r \<or> r = - EINTR) \<and> calls_succeed acts"
  "calls_succeed (Read_map r # acts) \<longleftrightarrow> r = 0 \<and> calls_succeed acts"
  "calls_succeed (Table rows # acts) \<longleftrightarrow> calls_succeed acts"
  by (auto simp: calls_succeed_def)

lemma print_interval_Inl: "print_interval prev i col = Inl err \<longleftrightarrow> i \<noteq> 0 \<and> col = Inl err"
  by (auto simp: print_interval_def Let_def split: sum.split)

lemma print_interval_Inr: "print_interval prev i col = Inr out \<Longrightarrow> i = 0 \<or> (\<exists>cur. col = Inr cur)"
  by (auto simp: print_interval_def Let_def split: sum.splits if_splits)

lemma slab_loop_status:
  assumes "slab_loop t ws prev st = Some (err, acts)" and "\<forall>w \<in> set ws. w_collected w \<noteq> Inl 0"
  shows "err = 0 \<longleftrightarrow> calls_succeed acts"
  using assms
proof (induction ws arbitrary: prev st err acts)
  case (Cons w ws)
  let ?i = "elapsed_ns st (w_time w)"
  show ?case
  proof (cases "app_should_exit (w_before w) \<or> (w_poll w < 0 \<and> w_poll w \<noteq> - EINTR) \<or> app_should_exit (w_after w)")
    case True
    then show ?thesis using Cons.prems(1) by (auto split: if_splits)
  next
    case go: False
    show ?thesis
    proof (cases "print_interval prev ?i (w_collected w)")
      case (Inl e)
      then have "err = e" "acts = Wait t (w_poll w) #
          (if ?i = 0 then [] else [Read_map (case w_collected w of Inl err \<Rightarrow> err | Inr _ \<Rightarrow> 0)])"
        using go Cons.prems(1) by (auto simp: Let_def)
      moreover have "?i \<noteq> 0" "w_collected w = Inl e" "e \<noteq> 0" using Inl Cons.prems(2) by (auto simp: print_interval_Inl)
      ultimately show ?thesis using go by auto
    next
      case (Inr out)
      obtain shown cur where out: "out = (shown, cur)" by (cases out)
      obtain acts' where "slab_loop t ws cur (w_time w) = Some (err, acts')"
        "acts = Wait t (w_poll w) # (if ?i = 0 then [] else [Read_map 0]) @ (if ?i = 0 then [] else [Table shown]) @ acts'"
        using go Cons.prems(1) Inr print_interval_Inr [OF Inr] by (auto simp: out Let_def split: if_splits)
      then show ?thesis using Cons.IH Cons.prems(2) go by auto
    qed
  qed
qed simp

lemma slab_run_status: "slab_status e (slab_rate_run t en pid delay e)"
proof (cases "slab_started e")
  case started: True
  obtain dev ino where di: "sr_stat e = Inr (dev, ino)" using started by (auto simp: slab_started_def)
  obtain link1 link2 where links:
    "attach_optional_raw_tracepoint (sr_access e) (sr_attach_raw e) ''kmem_cache_alloc_node'' = (0, link1)"
    "attach_optional_raw_tracepoint (sr_access e) (sr_attach_raw e) ''kmalloc_node'' = (0, link2)"
    using started by (auto simp: slab_started_def optional_attached_def prod_eq_iff)
  let ?l1 = "[Alloc_buffers (sr_callocs e), Open_skel True, Load_skel 0, Write_slab_ctrl (slab_rate_ctrl_of en pid dev ino) 0,
    Attach_main 0, Attach_link ''kmem_cache_alloc_node'' link1, Attach_link ''kmalloc_node'' link2]"
  let ?l2 = "[Print_health] @ slab_cleanup link2 link1 True e"
  have run: "slab_rate_run t en pid delay e = map_option (\<lambda>(err, acts). (neg_or_self err, ?l1 @ acts @ ?l2))
      (slab_loop t (sr_windows e) [] (sr_start e))"
    using started di links by (simp add: slab_started_def slab_rate_run_def slab_rate_body_def app_get_pid_namespace_def Let_def)
  show ?thesis
  proof (cases "slab_loop t (sr_windows e) [] (sr_start e)")
    case None
    then show ?thesis by (simp add: run slab_status_def)
  next
    case (Some out)
    obtain err acts where out: "out = (err, acts)" by (cases out)
    have st: "err = 0 \<longleftrightarrow> calls_succeed acts"
      using slab_loop_status Some out started by (simp add: slab_started_def)
    have "calls_succeed (?l1 @ acts @ ?l2) \<longleftrightarrow> calls_succeed acts" by (auto simp: calls_succeed_def slab_cleanup_def)
    then show ?thesis using st Some out by (simp add: run slab_status_def neg_or_self_def)
  qed
qed (simp add: slab_status_def split: option.split)

text \<open>A run of one window that is then told to stop.\<close>

definition calm_slab_run :: slab_run_env where
  "calm_slab_run =
     \<lparr>sr_stat = Inr (4, 0xF0000001), sr_ncpus = 2, sr_callocs = (True, True, True, True), sr_open = True,
      sr_load_err = 0, sr_ctrl_err = 0, sr_attach_err = 0, sr_access = \<lambda>_. False, sr_attach_raw = \<lambda>_. - ENOENT,
      sr_start = (10, 0),
      sr_windows =
        [\<lparr>w_before = \<lparr>g_signal_exit_requested = False, g_thread_exit_requested = False\<rparr>, w_poll = 0,
          w_after = \<lparr>g_signal_exit_requested = False, g_thread_exit_requested = False\<rparr>, w_time = (11, 0),
          w_collected = Inr [\<lparr>sm_key = dentry_key, sm_total = \<lparr>count = 3, allocated_bytes = 576\<rparr>\<rparr>]\<rparr>,
         \<lparr>w_before = \<lparr>g_signal_exit_requested = False, g_thread_exit_requested = False\<rparr>, w_poll = - EINTR,
          w_after = \<lparr>g_signal_exit_requested = True, g_thread_exit_requested = False\<rparr>, w_time = (12, 0),
          w_collected = Inl (- 4)\<rparr>]\<rparr>"

lemma calm_slab_run_stops: "slab_stops calm_slab_run"
  by (simp add: slab_stops_def calm_slab_run_def stop_window_def app_should_exit_def)

end
