(* ===== verification/OomKiller.thy ===== *)
theory OomKiller
  imports Monitor RunLoop Logger
begin

section \<open>mem/oom\_killer: processes killed for lack of memory\<close>

text \<open>
  \<^verbatim>\<open>mem/oom_killer\<close>: one probe on \<^verbatim>\<open>oom_kill_process\<close> that reports the process chosen to be killed
  and the process that triggered the kill. It keeps no state between firings and has no filter;
  an event without room in the ring buffer is dropped silently. The run has no
  summary and no global skeleton.
\<close>

record OomKiller_ctrl =
  enable :: bool

record OomKiller_event =
  triggered_pid :: u32
  oomkill_pid :: u32
  mem_pages :: u32
  comm :: cstr

record OomKiller_state =
  ctrl_map :: "OomKiller_ctrl option"
  rb :: "OomKiller_event list"

text \<open>
  What the probe reads: process id and name of \<open>oc->chosen\<close>, the id of the current task, and
  \<open>mm->total_vm\<close> of the current task, \<open>None\<close> without an address space.
\<close>

record oom_args =
  chosen_pid :: u32
  chosen_comm :: cstr
  trigger_pid :: u32
  trigger_vm :: "u64 option"

definition oom_event_of :: "oom_args \<Rightarrow> OomKiller_event" where
  "oom_event_of a =
     \<lparr>triggered_pid = trigger_pid a, oomkill_pid = chosen_pid a,
      mem_pages = (case trigger_vm a of None \<Rightarrow> 0 | Some vm \<Rightarrow> ucast vm), comm = chosen_comm a\<rparr>"

definition oom_kill_process :: "bpf_env \<Rightarrow> oom_args \<Rightarrow> OomKiller_state \<Rightarrow> OomKiller_state" where
  "oom_kill_process env a s =
     (case ctrl_map s of None \<Rightarrow> s
      | Some ctrl \<Rightarrow>
        if \<not> enable ctrl then s
        else if \<not> env_reserve_ok env then s
        else s\<lparr>rb := rb s @ [oom_event_of a]\<rparr>)"

definition oom_step :: "bpf_env \<times> oom_args \<Rightarrow> OomKiller_state \<Rightarrow> OomKiller_state" where
  "oom_step f s = oom_kill_process (fst f) (snd f) s"

subsection \<open>The run\<close>

text \<open>The loop is that of the other modules; \<open>g_skel\<close> and the summary are missing.\<close>

definition oom_cleanup :: "bool \<Rightarrow> OomKiller_ctrl action list" where
  "oom_cleanup ring = [Rb_free ring, Destroy]"

definition oom_killer_run ::
    "s32 \<Rightarrow> bool \<Rightarrow> s32 \<Rightarrow> u64 \<Rightarrow> run_env \<Rightarrow> (int \<times> OomKiller_ctrl action list) option" where
  "oom_killer_run timeout en pid delay e =
     (if \<not> re_load e then Some (1, [Load False])
      else
        (let log1 = [Load True, Write_ctrl \<lparr>enable = en\<rparr> (re_ctrl_err e)]
         in if re_ctrl_err e < 0 then Some (neg_or_zero (re_ctrl_err e), log1 @ oom_cleanup False)
            else if \<not> re_rb e then Some (neg_or_zero (- ENOMEM), log1 @ [Rb_new False] @ oom_cleanup False)
            else if re_attach_err e \<noteq> 0 then
              Some (neg_or_zero (re_attach_err e),
                    log1 @ [Rb_new True, Attach (re_attach_err e)] @ oom_cleanup True)
            else
              (case poll_loop (re_polls e) 0 of
                 None \<Rightarrow> None
               | Some (err, rs) \<Rightarrow>
                   Some (neg_or_zero err,
                         log1 @ [Rb_new True, Attach 0] @ map (Poll timeout) rs @ oom_cleanup True))))"

subsection \<open>The line of an event\<close>

text \<open>\<open>handle_event\<close>: one call, without the lock.\<close>

definition oom_handle_event :: "wall \<Rightarrow> OomKiller_event \<Rightarrow> out_call list" where
  "oom_handle_event now e =
     printf (ljust 8 (snprintf 32 (strftime_hms now)) @ '' TriggerPID='' @ ljust 8 (fmt_u (triggered_pid e))
       @ '' KillPID='' @ ljust 8 (fmt_u (oomkill_pid e)) @ '' Pages='' @ ljust 8 (fmt_u (mem_pages e))
       @ '' Comm='' @ ljust 16 (comm e) @ endl)"

section \<open>Lemmas\<close>

text \<open>Every kill with room in the ring buffer is reported, in order, and nothing else is.\<close>

lemma oom_events:
  "ctrl_map s = Some c \<Longrightarrow> rb (fold oom_step fs s) =
     rb s @ (if enable c then map (oom_event_of \<circ> snd) (filter (env_reserve_ok \<circ> fst) fs) else [])"
  by (induction fs arbitrary: s) (auto simp: oom_step_def oom_kill_process_def)

text \<open>The release and configuration contract of the other modules; there is no summary.\<close>

definition oom_lifecycle :: "bool \<Rightarrow> (int \<times> OomKiller_ctrl action list) option \<Rightarrow> bool" where
  "oom_lifecycle en out \<longleftrightarrow>
     (case out of None \<Rightarrow> True | Some (ret, log) \<Rightarrow>
        released log \<and> configured \<lparr>enable = en\<rparr> log \<and> Print_stats \<notin> set log)"

lemma oom_run_lifecycle: "oom_lifecycle en (oom_killer_run t en pid delay e)"
  by (auto simp: oom_lifecycle_def oom_killer_run_def oom_cleanup_def released_def configured_def Let_def image_iff
      split: option.split)

lemma oom_run_returns:
  assumes "stops e"
  shows "oom_killer_run t en pid delay e \<noteq> None"
proof -
  obtain err rs where "poll_loop (re_polls e) 0 = Some (err, rs)"
    using poll_loop_ends assms unfolding stops_def by blast
  then show ?thesis by (simp add: oom_killer_run_def Let_def)
qed

lemma oom_run_status: "honest_status (loaded_ok e) (oom_killer_run t en pid delay e)"
proof (cases "loaded_ok e")
  case ok: True
  show ?thesis
  proof (cases "poll_loop (re_polls e) 0")
    case None
    then show ?thesis using ok by (simp add: honest_status_def oom_killer_run_def loaded_ok_def Let_def)
  next
    case (Some out)
    obtain err rs where out: "out = (err, rs)" by (cases out)
    have "neg_or_zero err = 0 \<longleftrightarrow> list_all (\<lambda>r. 0 \<le> r \<or> r = - EINTR) rs"
      using poll_loop_seen [of "re_polls e" 0 err rs] Some out
      by (auto simp: neg_or_zero_def list_all_iff)
    then show ?thesis
      using ok Some out by (simp add: honest_status_def oom_killer_run_def loaded_ok_def oom_cleanup_def list_all_iff Let_def)
  qed
qed (simp add: honest_status_def split: option.split)

text \<open>A single call needs no lock.\<close>

interpretation oom_lines: whole_printer "\<lambda>(now, e). oom_handle_event now e" "\<lambda>(now, e). printable (comm e)"
  by unfold_locales (auto simp: oom_handle_event_def line_simps split: if_splits)

end
