(* ===== verification/CtxSwitch.thy ===== *)
theory CtxSwitch
  imports CallSpec PidNs RunLoop Logger
begin

section \<open>sched/context\_switch: run-queue latency\<close>

text \<open>
  \<^verbatim>\<open>sched/context_switch\<close>: how long a task waits between becoming runnable and running.
  \<open>record_wakeup\<close> stores the time under the address of the task, \<open>trace_sched_switch\<close> takes it
  back when the task is switched in, and \<open>trace_sched_process_exit\<close> forgets a task that ends,
  since its address may be reused. The user side merges the statistics and names task states.
\<close>

record ContextSwitch_ctrl =
  enable :: bool
  min_delay_ns :: u64
  target_pid :: s32
  pid_ns_dev :: u64
  pid_ns_ino :: u64

record ContextSwitch_event =
  ev_ts_ns :: u64
  ev_delay_ns :: u64
  ev_cpu :: s32
  ev_wakeup_cpu :: s32
  ev_prev_pid :: s32
  ev_next_pid :: s32
  ev_prev_tgid :: s32
  ev_next_tgid :: s32
  ev_prev_prio :: s32
  ev_next_prio :: s32
  ev_prev_state :: s32
  ev_preempt :: bool
  ev_prev_comm :: cstr
  ev_next_comm :: cstr

record ContextSwitch_stats =
  wakeups :: u64
  count :: u64
  filtered_delay :: u64
  ringbuf_dropped :: u64
  map_update_failed :: u64
  unmatched_switches :: u64
  total_ns :: u64
  max_ns :: u64
  max_prev_pid :: s32
  max_next_pid :: s32
  max_prev_comm :: cstr
  max_next_comm :: cstr

record wakeup_info =
  wi_ts_ns :: u64
  wi_wakeup_cpu :: s32

text \<open>The maps of the module; \<open>wakeup_map\<close> is an LRU hash of 16384 entries.\<close>

record ContextSwitch_state =
  ctrl_map :: "ContextSwitch_ctrl option"
  stats_map :: "ContextSwitch_stats list"
  wakeup_map :: "(u64, wakeup_info) bmap"
  rb :: "ContextSwitch_event list"

definition WAKEUP_MAX :: nat where
  "WAKEUP_MAX = 16384"

definition COMM_LEN :: nat where
  "COMM_LEN = 16"

definition cs_count ::
  "bpf_env \<Rightarrow> (ContextSwitch_stats \<Rightarrow> ContextSwitch_stats) \<Rightarrow> ContextSwitch_state \<Rightarrow>
   ContextSwitch_state" where
  "cs_count env f s = s\<lparr>stats_map := percpu_upd (env_cpu env) f (stats_map s)\<rparr>"

definition wakeup_info_of :: "bpf_env \<Rightarrow> wakeup_info" where
  "wakeup_info_of env = \<lparr>wi_ts_ns = env_ktime env, wi_wakeup_cpu = of_nat (env_cpu env)\<rparr>"

definition record_wakeup ::
  "bpf_env \<Rightarrow> kmem \<Rightarrow> u64 \<Rightarrow> ContextSwitch_state \<Rightarrow> ContextSwitch_state" where
  "record_wakeup env km task s =
     (case ctrl_map s of None \<Rightarrow> s
      | Some ctrl \<Rightarrow>
        if \<not> enable ctrl then s
        else let tgid = app_task_tgid_ns km task (pid_ns_ino ctrl) in
        if tgid = 0 then s
        else if target_pid ctrl \<noteq> 0 \<and> tgid \<noteq> target_pid ctrl then s
        else (case lru_update WAKEUP_MAX (env_update_ok env, env_evict env) task
                     (wakeup_info_of env) (wakeup_map s) of
           None \<Rightarrow> cs_count env (\<lambda>c. c\<lparr>map_update_failed := map_update_failed c + 1\<rparr>) s
         | Some m \<Rightarrow> cs_count env (\<lambda>c. c\<lparr>wakeups := wakeups c + 1\<rparr>) (s\<lparr>wakeup_map := m\<rparr>)))"

definition trace_sched_wakeup ::
  "bpf_env \<Rightarrow> kmem \<Rightarrow> u64 \<Rightarrow> ContextSwitch_state \<Rightarrow> ContextSwitch_state" where
  "trace_sched_wakeup env km task s = record_wakeup env km task s"

definition trace_sched_wakeup_new ::
  "bpf_env \<Rightarrow> kmem \<Rightarrow> u64 \<Rightarrow> ContextSwitch_state \<Rightarrow> ContextSwitch_state" where
  "trace_sched_wakeup_new env km task s = record_wakeup env km task s"

definition trace_sched_process_exit ::
  "kmem \<Rightarrow> ContextSwitch_state \<Rightarrow> ContextSwitch_state" where
  "trace_sched_process_exit km s = s\<lparr>wakeup_map := bpf_delete (k_current km) (wakeup_map s)\<rparr>"

definition cs_event_of ::
  "ContextSwitch_ctrl \<Rightarrow> bpf_env \<Rightarrow> kmem \<Rightarrow> bool \<Rightarrow> u64 \<Rightarrow> u64 \<Rightarrow> wakeup_info \<Rightarrow> ContextSwitch_event" where
  "cs_event_of ctrl env km preempt prev next info =
     \<lparr>ev_ts_ns = env_ktime env, ev_delay_ns = env_ktime env - wi_ts_ns info,
      ev_cpu = of_nat (env_cpu env), ev_wakeup_cpu = wi_wakeup_cpu info,
      ev_prev_pid = app_task_tid_ns km prev (pid_ns_ino ctrl),
      ev_next_pid = app_task_tid_ns km next (pid_ns_ino ctrl),
      ev_prev_tgid = app_task_tgid_ns km prev (pid_ns_ino ctrl),
      ev_next_tgid = app_task_tgid_ns km next (pid_ns_ino ctrl),
      ev_prev_prio = k_prio km prev, ev_next_prio = k_prio km next,
      ev_prev_state = k_state km prev, ev_preempt = preempt,
      ev_prev_comm = snd (probe_read_str COMM_LEN (k_comm km prev)),
      ev_next_comm = snd (probe_read_str COMM_LEN (k_comm km next))\<rparr>"

definition cs_report_stats ::
  "ContextSwitch_event \<Rightarrow> u64 \<Rightarrow> ContextSwitch_stats \<Rightarrow> ContextSwitch_stats" where
  "cs_report_stats event delay_ns c0 = (let
     c1 = c0\<lparr>count := count c0 + 1\<rparr>;
     c2 = c1\<lparr>total_ns := total_ns c1 + delay_ns\<rparr>
     in if delay_ns > max_ns c2
        then c2\<lparr>max_ns := delay_ns, max_prev_pid := ev_prev_pid event,
                max_next_pid := ev_next_pid event, max_prev_comm := ev_prev_comm event,
                max_next_comm := ev_next_comm event\<rparr>
        else c2)"

definition trace_sched_switch ::
  "bpf_env \<Rightarrow> kmem \<Rightarrow> bool \<Rightarrow> u64 \<Rightarrow> u64 \<Rightarrow> ContextSwitch_state \<Rightarrow> ContextSwitch_state" where
  "trace_sched_switch env km preempt prev next s =
     (case ctrl_map s of None \<Rightarrow> s
      | Some ctrl \<Rightarrow>
        if \<not> enable ctrl then s
        else let
          next_tid = app_task_tid_ns km next (pid_ns_ino ctrl);
          next_tgid = app_task_tgid_ns km next (pid_ns_ino ctrl)
        in if next_tid = 0 \<or> next_tgid = 0 then s
        else if target_pid ctrl \<noteq> 0 \<and> next_tgid \<noteq> target_pid ctrl then s
        else (case map_of (wakeup_map s) next of
          None \<Rightarrow> cs_count env (\<lambda>c. c\<lparr>unmatched_switches := unmatched_switches c + 1\<rparr>) s
        | Some info \<Rightarrow> let
            delay_ns = env_ktime env - wi_ts_ns info;
            s1 = s\<lparr>wakeup_map := bpf_delete next (wakeup_map s)\<rparr>
          in if min_delay_ns ctrl \<noteq> 0 \<and> delay_ns < min_delay_ns ctrl
          then cs_count env (\<lambda>c. c\<lparr>filtered_delay := filtered_delay c + 1\<rparr>) s1
          else if \<not> env_reserve_ok env
          then cs_count env (\<lambda>c. c\<lparr>ringbuf_dropped := ringbuf_dropped c + 1\<rparr>) s1
          else let
            event = cs_event_of ctrl env km preempt prev next info;
            s2 = cs_count env (cs_report_stats event delay_ns) s1
          in s2\<lparr>rb := rb s2 @ [event]\<rparr>))"

datatype cs_firing =
    Wakeup bpf_env kmem u64
  | Wakeup_new bpf_env kmem u64
  | Process_exit kmem
  | Switch bpf_env kmem bool u64 u64

fun cs_step :: "cs_firing \<Rightarrow> ContextSwitch_state \<Rightarrow> ContextSwitch_state" where
  "cs_step (Wakeup env km task) s = trace_sched_wakeup env km task s"
| "cs_step (Wakeup_new env km task) s = trace_sched_wakeup_new env km task s"
| "cs_step (Process_exit km) s = trace_sched_process_exit km s"
| "cs_step (Switch env km preempt prev next) s = trace_sched_switch env km preempt prev next s"

subsection \<open>The user side\<close>

definition cs_zero :: ContextSwitch_stats where
  "cs_zero = \<lparr>wakeups = 0, count = 0, filtered_delay = 0, ringbuf_dropped = 0,
     map_update_failed = 0, unmatched_switches = 0, total_ns = 0, max_ns = 0, max_prev_pid = 0,
     max_next_pid = 0, max_prev_comm = '''', max_next_comm = ''''\<rparr>"

definition cs_merge :: "ContextSwitch_stats \<Rightarrow> ContextSwitch_stats \<Rightarrow> ContextSwitch_stats" where
  "cs_merge s v = (let
     s1 = s\<lparr>wakeups := wakeups s + wakeups v,
            count := count s + count v,
            filtered_delay := filtered_delay s + filtered_delay v,
            ringbuf_dropped := ringbuf_dropped s + ringbuf_dropped v,
            map_update_failed := map_update_failed s + map_update_failed v,
            unmatched_switches := unmatched_switches s + unmatched_switches v,
            total_ns := total_ns s + total_ns v\<rparr>
     in if max_ns v > max_ns s1
        then s1\<lparr>max_ns := max_ns v, max_prev_pid := max_prev_pid v,
                max_next_pid := max_next_pid v, max_prev_comm := max_prev_comm v,
                max_next_comm := max_next_comm v\<rparr>
        else s1)"

text \<open>The panel: the merged statistics and the average; the latter is shown when the count is not 0.\<close>

record ContextSwitch_panel =
  panel_stats :: ContextSwitch_stats
  panel_avg_ns :: u64

definition cs_print_stats ::
  "int \<Rightarrow> bool \<Rightarrow> ContextSwitch_stats list option \<Rightarrow> ContextSwitch_panel option" where
  "cs_print_stats ncpus alloc_ok values =
     (if ncpus \<le> 0 \<or> \<not> alloc_ok then None
      else case values of None \<Rightarrow> None
      | Some vs \<Rightarrow>
        let stats = foldl cs_merge cs_zero (take (nat ncpus) vs) in
        if wakeups stats = 0 \<and> count stats = 0 then None
        else Some \<lparr>panel_stats = stats,
          panel_avg_ns = (if count stats \<noteq> 0 then total_ns stats div count stats else 0)\<rparr>)"

text \<open>The name of the state the outgoing task is in.\<close>

definition cs_state_str :: "s32 \<Rightarrow> string" where
  "cs_state_str st =
     (if st = 0 then ''RUNNING'' else if st = 1 then ''INTR'' else if st = 2 then ''UNINTR''
      else if st = 4 then ''STOPPED'' else if st = 8 then ''TRACED'' else ''???'')"

subsection \<open>The run function\<close>

text \<open>
  The configuration \<open>context_switch_run\<close> builds from its arguments, and \<open>context_switch_run\<close> itself over the calls it makes.
\<close>

definition context_switch_ctrl_of :: "bool \<Rightarrow> s32 \<Rightarrow> u64 \<Rightarrow> u64 \<Rightarrow> u64 \<Rightarrow> ContextSwitch_ctrl" where
  "context_switch_ctrl_of en pid delay dev ino =
     \<lparr>enable = en, min_delay_ns = delay, target_pid = pid, pid_ns_dev = dev, pid_ns_ino = ino\<rparr>"

definition context_switch_run ::
    "s32 \<Rightarrow> bool \<Rightarrow> s32 \<Rightarrow> u64 \<Rightarrow> run_env \<Rightarrow> (int \<times> ContextSwitch_ctrl action list) option" where
  "context_switch_run timeout en pid delay e =
     run_module (\<lambda>_. 1) (\<lambda>err. err < 0) neg_or_zero (context_switch_ctrl_of en pid delay) timeout e"

subsection \<open>The line of an event\<close>

text \<open>\<open>handle_event\<close>.\<close>

definition cs_handle_event :: "wall \<Rightarrow> ContextSwitch_event \<Rightarrow> out_call list" where
  "cs_handle_event now e =
     log_output_lock
     @ LOG now (''CPU='' @ ljust 2 (fmt_d (ev_cpu e)) @ '' WAKE_CPU='' @ ljust 2 (fmt_d (ev_wakeup_cpu e))
         @ '' | PREV: TID='' @ ljust 6 (fmt_d (ev_prev_pid e)) @ '' TGID='' @ ljust 6 (fmt_d (ev_prev_tgid e)) @ '' ''
         @ ljust 16 (ev_prev_comm e) @ '' PRIO='' @ ljust 4 (fmt_d (ev_prev_prio e))
         @ '' ['' @ ljust 6 (cs_state_str (ev_prev_state e)) @ ''] | NEXT: TID='' @ ljust 6 (fmt_d (ev_next_pid e))
         @ '' TGID='' @ ljust 6 (fmt_d (ev_next_tgid e)) @ '' '' @ ljust 16 (ev_next_comm e)
         @ '' PRIO='' @ ljust 4 (fmt_d (ev_next_prio e)) @ '' | '')
     @ log_col_ns (ev_delay_ns e) 10000 100000
     @ printf ('' '' @ (if ev_preempt e then C_RED @ ''[PREEMPT]'' @ C_RESET else ''[VOLUNTARY]'') @ endl)
     @ log_output_unlock"

section \<open>Lemmas\<close>

interpretation context_switch_runner: quiet_runner "\<lambda>err. err < 0" neg_or_zero "\<lambda>_. 1"
  by unfold_locales (simp_all add: neg_or_zero_simps)

definition cs_traced :: "ContextSwitch_ctrl \<Rightarrow> s32 \<Rightarrow> bool" where
  "cs_traced c tgid \<longleftrightarrow> tgid \<noteq> 0 \<and> (target_pid c = 0 \<or> tgid = target_pid c)"

definition cs_wakes :: "ContextSwitch_ctrl \<Rightarrow> bpf_env \<Rightarrow> kmem \<Rightarrow> u64 \<Rightarrow> (u64 \<times> wakeup_info) option" where
  "cs_wakes c env km task =
     (if enable c \<and> cs_traced c (app_task_tgid_ns km task (pid_ns_ino c)) \<and> env_update_ok env
      then Some (task, wakeup_info_of env) else None)"

fun cs_starts :: "ContextSwitch_ctrl \<Rightarrow> cs_firing \<Rightarrow> (u64 \<times> wakeup_info) option" where
  "cs_starts c (Wakeup env km task) = cs_wakes c env km task"
| "cs_starts c (Wakeup_new env km task) = cs_wakes c env km task"
| "cs_starts c (Process_exit km) = None"
| "cs_starts c (Switch env km preempt prev next) = None"

definition cs_switches :: "ContextSwitch_ctrl \<Rightarrow> kmem \<Rightarrow> u64 \<Rightarrow> bool" where
  "cs_switches c km next \<longleftrightarrow> enable c \<and> app_task_tid_ns km next (pid_ns_ino c) \<noteq> 0 \<and>
     cs_traced c (app_task_tgid_ns km next (pid_ns_ino c))"

fun cs_closes :: "ContextSwitch_ctrl \<Rightarrow> cs_firing \<Rightarrow> u64 \<Rightarrow> bool" where
  "cs_closes c (Process_exit km) k = (k = k_current km)"
| "cs_closes c (Switch env km preempt prev next) k = (cs_switches c km next \<and> k = next)"
| "cs_closes c e k = False"

fun cs_reports ::
  "ContextSwitch_ctrl \<Rightarrow> cs_firing \<Rightarrow> u64 \<Rightarrow> wakeup_info \<Rightarrow> ContextSwitch_event option" where
  "cs_reports c (Switch env km preempt prev next) k v =
     (if cs_switches c km next \<and> k = next \<and>
         (min_delay_ns c = 0 \<or> min_delay_ns c \<le> env_ktime env - wi_ts_ns v) \<and> env_reserve_ok env
      then Some (cs_event_of c env km preempt prev next v) else None)"
| "cs_reports c e k v = None"

fun cs_regular :: "cs_firing \<Rightarrow> ContextSwitch_state \<Rightarrow> bool" where
  "cs_regular (Wakeup env km task) s = (env_cpu env < length (stats_map s))"
| "cs_regular (Wakeup_new env km task) s = (env_cpu env < length (stats_map s))"
| "cs_regular (Process_exit km) s = True"
| "cs_regular (Switch env km preempt prev next) s = (env_cpu env < length (stats_map s))"

definition cs_inv :: "ContextSwitch_ctrl \<Rightarrow> ContextSwitch_state \<Rightarrow> bool" where
  "cs_inv c s \<longleftrightarrow> ctrl_map s = Some c \<and> map_wf WAKEUP_MAX (wakeup_map s)"

definition cs_init :: "ContextSwitch_ctrl \<Rightarrow> nat \<Rightarrow> ContextSwitch_state" where
  "cs_init c ncpus =
     \<lparr>ctrl_map = Some c, stats_map = replicate ncpus cs_zero, wakeup_map = [], rb = []\<rparr>"

lemma cs_count_simps [simp]:
  "ctrl_map (cs_count env f s) = ctrl_map s"
  "wakeup_map (cs_count env f s) = wakeup_map s"
  "rb (cs_count env f s) = rb s"
  "stats_map (cs_count env f s) = percpu_upd (env_cpu env) f (stats_map s)"
  by (simp_all add: cs_count_def)

lemma wakeup_info_of_simps [simp]: "wi_ts_ns (wakeup_info_of env) = env_ktime env"
  by (simp add: wakeup_info_of_def)

lemma cs_event_of_simps [simp]:
  "ev_delay_ns (cs_event_of c env km p prev next v) = env_ktime env - wi_ts_ns v"
  "ev_next_pid (cs_event_of c env km p prev next v) = app_task_tid_ns km next (pid_ns_ino c)"
  "ev_next_tgid (cs_event_of c env km p prev next v) = app_task_tgid_ns km next (pid_ns_ino c)"
  "ev_prev_pid (cs_event_of c env km p prev next v) = app_task_tid_ns km prev (pid_ns_ino c)"
  by (simp_all add: cs_event_of_def)

lemma cs_report_stats_simps [simp]:
  "count (cs_report_stats e d c) = count c + 1"
  "total_ns (cs_report_stats e d c) = total_ns c + d"
  by (simp_all add: cs_report_stats_def Let_def)

lemmas cs_handler_defs = trace_sched_wakeup_def trace_sched_wakeup_new_def record_wakeup_def
  trace_sched_process_exit_def trace_sched_switch_def Let_def

lemma cs_step_ctrl [simp]: "ctrl_map (cs_step e s) = ctrl_map s"
  by (cases e) (auto simp: cs_handler_defs split: option.split)

lemma record_wakeup_tab:
  assumes "ctrl_map s = Some c"
  shows "wakeup_map (record_wakeup env km task s) =
    (case cs_wakes c env km task of None \<Rightarrow> wakeup_map s
     | Some (k, v) \<Rightarrow>
         map_or_same (lru_update WAKEUP_MAX (True, env_evict env) k v (wakeup_map s)) (wakeup_map s))"
  by (cases "env_update_ok env")
    (auto simp: assms record_wakeup_def cs_wakes_def cs_traced_def Let_def split: option.split)

lemma trace_sched_switch_tab:
  assumes "ctrl_map s = Some c"
  shows "wakeup_map (trace_sched_switch env km preempt prev next s) =
    (if cs_switches c km next then bpf_delete next (wakeup_map s) else wakeup_map s)"
  by (cases "map_of (wakeup_map s) next")
    (auto simp: assms cs_handler_defs cs_switches_def cs_traced_def)

lemma trace_sched_switch_rb:
  assumes "ctrl_map s = Some c"
  shows "rb (trace_sched_switch env km preempt prev next s) = rb s @
    reported (cs_reports c (Switch env km preempt prev next) next) (wakeup_map s) next"
  by (cases "map_of (wakeup_map s) next")
    (auto simp: assms cs_handler_defs cs_switches_def cs_traced_def)

lemma record_wakeup_rb: "rb (record_wakeup env km task s) = rb s"
  by (simp add: record_wakeup_def Let_def split: option.split)

lemma cs_step_inv: "cs_inv c s \<Longrightarrow> cs_inv c (cs_step e s)"
  using cs_step_ctrl [of e s]
  by (cases e)
    (auto simp: cs_inv_def trace_sched_wakeup_def trace_sched_wakeup_new_def record_wakeup_tab
      trace_sched_process_exit_def trace_sched_switch_tab lru.map_or_same_wf delete_map_wf
      split: option.split)

lemma cs_inv_init: "cs_inv c (cs_init c n)"
  by (simp add: cs_inv_def cs_init_def)

lemma record_wakeup_opened:
  assumes "cs_inv c s" and "map_of (wakeup_map (record_wakeup env km task s)) k = Some v"
  shows "cs_wakes c env km task = Some (k, v) \<or>
    (map_of (wakeup_map s) k = Some v \<and> (\<forall>v'. cs_wakes c env km task \<noteq> Some (k, v')))"
  using assms lru.upd_opened [of WAKEUP_MAX "wakeup_map s" "(True, env_evict env)" _ _ k v]
  by (auto simp: cs_inv_def record_wakeup_tab cs_wakes_def lru_update_None WAKEUP_MAX_def
      split: if_splits)

lemma cs_step_tab:
  assumes "cs_inv c s" and "map_of (wakeup_map (cs_step e s)) k = Some v"
  shows "cs_starts c e = Some (k, v) \<or>
    (map_of (wakeup_map s) k = Some v \<and> \<not> cs_closes c e k \<and> (\<forall>v'. cs_starts c e \<noteq> Some (k, v')))"
  using assms record_wakeup_opened [OF assms(1), of _ _ _ k v]
  by (cases e) (auto simp: cs_inv_def trace_sched_wakeup_def trace_sched_wakeup_new_def
      trace_sched_process_exit_def trace_sched_switch_tab split: if_splits)

lemma cs_step_rb:
  assumes "cs_inv c s" and "x \<in> set (rb (cs_step e s))"
  shows "x \<in> set (rb s) \<or> (\<exists>k v. map_of (wakeup_map s) k = Some v \<and> cs_reports c e k v = Some x)"
proof (cases e)
  case (Switch env km preempt prev nxt)
  then show ?thesis using assms
    by (simp add: cs_inv_def trace_sched_switch_rb in_reported del: cs_reports.simps) blast
qed (use assms in \<open>simp_all add: trace_sched_wakeup_def trace_sched_wakeup_new_def record_wakeup_rb
  trace_sched_process_exit_def\<close>)

interpretation cs_pair: paired_monitor cs_step "\<lambda>_ _. True" "cs_inv c" wakeup_map rb
  "cs_starts c" "cs_closes c" "cs_reports c" for c
  by unfold_locales (use cs_step_inv cs_step_tab cs_step_rb in blast)+

text \<open>The statistics of reported switches against the events in the ring buffer.\<close>

definition cs_tag :: "ContextSwitch_stats \<Rightarrow> u64 \<times> s32 \<times> s32 \<times> cstr \<times> cstr" where
  "cs_tag c = (max_ns c, max_prev_pid c, max_next_pid c, max_prev_comm c, max_next_comm c)"

definition cs_event_tag :: "ContextSwitch_event \<Rightarrow> u64 \<times> s32 \<times> s32 \<times> cstr \<times> cstr" where
  "cs_event_tag e = (ev_delay_ns e, ev_prev_pid e, ev_next_pid e, ev_prev_comm e, ev_next_comm e)"

definition cs_books :: "ContextSwitch_state \<Rightarrow> bool" where
  "cs_books s \<longleftrightarrow>
     sum_list (map count (stats_map s)) = of_nat (length (rb s)) \<and>
     sum_list (map total_ns (stats_map s)) = sum_list (map ev_delay_ns (rb s)) \<and>
     max_books (map cs_tag (stats_map s)) (map cs_event_tag (rb s))"

lemma cs_books_other:
  assumes "cs_books s"
    and "\<And>v. count (f v) = count v \<and> total_ns (f v) = total_ns v \<and> cs_tag (f v) = cs_tag v"
  shows "cs_books (cs_count env f s)"
  using assms by (simp add: cs_books_def map_percpu_upd)

lemma cs_books_tab [simp]: "cs_books (s\<lparr>wakeup_map := m\<rparr>) = cs_books s"
  by (simp add: cs_books_def)

lemma cs_report_tag:
  "d = ev_delay_ns e \<Longrightarrow> cs_tag (cs_report_stats e d v) = max_tag (cs_event_tag e) (cs_tag v)"
  by (simp add: cs_report_stats_def cs_tag_def cs_event_tag_def max_tag_def Let_def)

lemma cs_books_report:
  assumes "cs_books s" and "env_cpu env < length (stats_map s)" and "d = ev_delay_ns e"
    and "evs = rb s @ [e]"
  shows "cs_books (cs_count env (cs_report_stats e d) s\<lparr>rb := evs\<rparr>)"
  using assms
    max_books_report [of "map cs_tag (stats_map s)" "map cs_event_tag (rb s)" "env_cpu env" "cs_event_tag e"]
  by (simp add: cs_books_def sum_percpu_plus1 sum_percpu_plus [where d = "ev_delay_ns e"]
      map_percpu_upd_comm [of cs_tag "cs_report_stats e (ev_delay_ns e)", OF cs_report_tag])

lemma record_wakeup_books: "cs_books s \<Longrightarrow> cs_books (record_wakeup env km task s)"
  by (auto simp: record_wakeup_def Let_def cs_tag_def intro!: cs_books_other split: option.split)

lemma cs_step_books:
  assumes "cs_books s" and "cs_regular e s"
  shows "cs_books (cs_step e s)"
proof (cases e)
  case (Switch env km preempt prev nxt)
  then show ?thesis using assms
    by (auto simp: trace_sched_switch_def Let_def cs_tag_def intro!: cs_books_other cs_books_report
        split: option.split)
qed (use assms in \<open>simp_all add: trace_sched_wakeup_def trace_sched_wakeup_new_def
  trace_sched_process_exit_def record_wakeup_books\<close>)

interpretation cs_stat: probe_system cs_step cs_regular cs_books
  by unfold_locales (rule cs_step_books)

lemma cs_books_init: "cs_books (cs_init c n)"
  by (auto simp: cs_books_def cs_init_def cs_zero_def cs_tag_def sum_list_replicate
      intro!: max_books_Nil)

interpretation cs_rep: percpu_report cs_zero cs_merge
  "{wakeups, count, filtered_delay, ringbuf_dropped, map_update_failed, unmatched_switches, total_ns}"
  max_ns cs_tag
  by unfold_locales (auto simp: cs_zero_def cs_merge_def cs_tag_def Let_def max_def)

lemma cs_step_cpus [simp]: "length (stats_map (cs_step e s)) = length (stats_map s)"
  by (cases e) (simp_all add: cs_handler_defs split: option.split)

lemma cs_run_cpus: "length (stats_map (fold cs_step tr s)) = length (stats_map s)"
  by (induction tr arbitrary: s) simp_all

definition cs_demo_ctrl :: ContextSwitch_ctrl where
  "cs_demo_ctrl = \<lparr>enable = True, min_delay_ns = 3, target_pid = 0, pid_ns_dev = 1, pid_ns_ino = 4\<rparr>"

definition cs_demo_run :: "cs_firing list" where
  "cs_demo_run =
     [Wakeup (calm_env 0 10 7 8) demo_kmem 24, Wakeup_new (calm_env 1 11 9 9) demo_kmem 32,
      Process_exit demo_kmem, Switch (calm_env 1 25 7 8) demo_kmem True 32 24]"

lemmas cs_demo_defs = cs_demo_ctrl_def cs_demo_run_def cs_init_def cs_handler_defs
  cs_count_def percpu_upd_def wakeup_info_of_def WAKEUP_MAX_def COMM_LEN_def probe_read_str_def
  lru_update_def lru_room_def lru_evict_def bpf_delete_def cs_event_of_def cs_report_stats_def
  cs_zero_def

lemma cs_demo_rb: "rb (fold cs_step cs_demo_run (cs_init cs_demo_ctrl 2)) =
  [\<lparr>ev_ts_ns = 25, ev_delay_ns = 15, ev_cpu = 1, ev_wakeup_cpu = 0, ev_prev_pid = 3,
    ev_next_pid = 2, ev_prev_tgid = 3, ev_next_tgid = 2, ev_prev_prio = 120, ev_next_prio = 120,
    ev_prev_state = 1, ev_preempt = True, ev_prev_comm = ''task'', ev_next_comm = ''task''\<rparr>]"
  by (simp add: cs_demo_defs)

lemma printable_cs_state [simp]: "printable (cs_state_str st)"
  by (simp add: cs_state_str_def)

interpretation cs_lines: whole_printer "\<lambda>(now, e). cs_handle_event now e"
  "\<lambda>(now, e). printable (ev_prev_comm e) \<and> printable (ev_next_comm e)"
  by unfold_locales (auto simp: cs_handle_event_def line_simps split: if_splits)

text \<open>The key of the call a firing ends; as long as nothing is evicted the module reports exactly the calls of the specification.\<close>

fun cs_ends :: "ContextSwitch_ctrl \<Rightarrow> cs_firing \<Rightarrow> u64 option" where
  "cs_ends c (Process_exit km) = Some (k_current km)"
| "cs_ends c (Switch env km preempt prev nxt) = (if cs_switches c km nxt then Some nxt else None)"
| "cs_ends c e = None"

fun cs_evicted :: "cs_firing \<Rightarrow> u64 list" where
  "cs_evicted (Wakeup env km task) = env_evict env"
| "cs_evicted (Wakeup_new env km task) = env_evict env"
| "cs_evicted e = []"

lemma cs_step_calls:
  assumes "cs_inv c s" and "lru_fits WAKEUP_MAX (cs_evicted e) (wakeup_map s) (cs_starts c e)"
  shows "(map_of (wakeup_map (cs_step e s)), rb (cs_step e s)) =
    call_step (cs_starts c) (cs_ends c) (cs_reports c) e (map_of (wakeup_map s), rb s)"
  using assms
  by (cases e) (auto simp: cs_inv_def trace_sched_wakeup_def trace_sched_wakeup_new_def record_wakeup_tab record_wakeup_rb
      trace_sched_process_exit_def trace_sched_switch_tab trace_sched_switch_rb lru_fits_update call_step_def reported_def
      split: option.split)

interpretation cs_calls: call_monitor cs_step
  "\<lambda>e s. lru_fits WAKEUP_MAX (cs_evicted e) (wakeup_map s) (cs_starts c e)"
  "cs_inv c" wakeup_map rb "cs_starts c" "cs_ends c" "cs_reports c" for c
  by unfold_locales (simp_all add: cs_step_inv cs_step_calls)

text \<open>Every event passed the filters of the configuration.\<close>

lemma cs_filtered:
  assumes "x \<in> set (rb (fold cs_step tr (cs_init c n)))"
  shows "enable c \<and> min_delay_ns c \<le> ev_delay_ns x \<and> (target_pid c = 0 \<or> ev_next_tgid x = target_pid c)"
  using assms
  by (rule cs_pair.reported_all [OF _ admissible_True cs_inv_init])
     (auto simp: cs_init_def cs_event_of_def cs_switches_def cs_traced_def elim!: cs_reports.elims split: if_splits)

section \<open>Properties\<close>

text \<open>
  C8: every latency reported is the time from the last recorded wakeup (ordinary or of a new
  task) of a task to its next switch onto a CPU: between the two the task was neither woken
  again on record, nor switched in, nor did a task at the same address exit. So a reused task
  address never inherits the wakeup of a dead task. The latency is at least the threshold and
  the task is one of the target process when one is set.
\<close>

theorem cs_reported_switch:
  assumes "x \<in> set (rb (fold cs_step tr (cs_init c n)))"
  shows "\<exists>pre e1 env1 km1 mid env2 km2 preempt prev next post.
    tr = pre @ e1 # mid @ Switch env2 km2 preempt prev next # post \<and>
    (e1 = Wakeup env1 km1 next \<or> e1 = Wakeup_new env1 km1 next) \<and>
    ev_delay_ns x = env_ktime env2 - env_ktime env1 \<and> min_delay_ns c \<le> ev_delay_ns x \<and>
    ev_next_pid x = app_task_tid_ns km2 next (pid_ns_ino c) \<and> ev_next_pid x \<noteq> 0 \<and>
    (target_pid c = 0 \<or> ev_next_tgid x = target_pid c) \<and>
    (\<forall>e \<in> set mid. \<not> cs_closes c e next \<and> (\<forall>v. cs_starts c e \<noteq> Some (next, v)))"
proof -
  obtain pre e1 mid e2 post k v where t: "tr = pre @ e1 # mid @ e2 # post"
    and s: "cs_starts c e1 = Some (k, v)" and r: "cs_reports c e2 k v = Some x"
    and m: "\<forall>e \<in> set mid. \<not> cs_closes c e k \<and> (\<forall>v'. cs_starts c e \<noteq> Some (k, v'))"
    using cs_pair.reported_pair [OF admissible_True cs_inv_init _ _ assms]
    by (auto simp: cs_init_def)
  obtain env1 km1 where e1: "e1 = Wakeup env1 km1 k \<or> e1 = Wakeup_new env1 km1 k"
    and v: "v = wakeup_info_of env1"
    using s by (cases e1) (auto simp: cs_wakes_def split: if_splits)
  obtain env2 km2 preempt prev where e2: "e2 = Switch env2 km2 preempt prev k"
    and x: "x = cs_event_of c env2 km2 preempt prev k v" and w: "cs_switches c km2 k"
    and d: "min_delay_ns c = 0 \<or> min_delay_ns c \<le> env_ktime env2 - wi_ts_ns v"
    using r by (cases e2) (auto split: if_splits)
  have p: "tr = pre @ e1 # mid @ Switch env2 km2 preempt prev k # post" using t e2 by simp
  have d': "min_delay_ns c \<le> ev_delay_ns x" using d x by auto
  show ?thesis
    by (intro exI conjI, rule p, rule e1)
      (use v x d' w m in \<open>simp_all add: cs_switches_def cs_traced_def\<close>)
qed

theorem cs_reported_switch_witness:
  "\<exists>pre e1 env1 km1 mid env2 km2 preempt prev next post.
    cs_demo_run = pre @ e1 # mid @ Switch env2 km2 preempt prev next # post \<and>
    (e1 = Wakeup env1 km1 next \<or> e1 = Wakeup_new env1 km1 next) \<and>
    15 = env_ktime env2 - env_ktime env1"
proof -
  let ?x = "hd (rb (fold cs_step cs_demo_run (cs_init cs_demo_ctrl 2)))"
  have "ev_delay_ns ?x = 15" by (simp add: cs_demo_rb)
  moreover have "?x \<in> set (rb (fold cs_step cs_demo_run (cs_init cs_demo_ctrl 2)))"
    by (simp add: cs_demo_rb)
  ultimately show ?thesis using cs_reported_switch [of ?x cs_demo_run cs_demo_ctrl 2] by metis
qed

text \<open>
  C21: the summary describes exactly the switches reported. When all firings are on possible CPUs
  and the panel appears, its count is the number of events in the ring buffer, the average their
  mean latency, no event was slower than the maximum shown, and a nonzero maximum is shown with
  the two tasks of one of the events.
\<close>

theorem cs_panel_true:
  assumes "admissible cs_regular cs_step tr (cs_init c n)"
    and "cs_print_stats (int n) True (Some (stats_map (fold cs_step tr (cs_init c n)))) = Some p"
  defines "evs \<equiv> rb (fold cs_step tr (cs_init c n))"
  shows "count (panel_stats p) = of_nat (length evs) \<and>
    (count (panel_stats p) \<noteq> 0 \<longrightarrow>
       panel_avg_ns p = sum_list (map ev_delay_ns evs) div of_nat (length evs)) \<and>
    (\<forall>e \<in> set evs. ev_delay_ns e \<le> max_ns (panel_stats p)) \<and>
    (max_ns (panel_stats p) \<noteq> 0 \<longrightarrow> (\<exists>e \<in> set evs. cs_event_tag e = cs_tag (panel_stats p)))"
proof -
  let ?vs = "stats_map (fold cs_step tr (cs_init c n))" let ?m = "foldl cs_merge cs_zero ?vs"
  have "length ?vs = n" by (simp add: cs_run_cpus cs_init_def)
  then have p: "panel_stats p = ?m"
    "panel_avg_ns p = (if count ?m \<noteq> 0 then total_ns ?m div count ?m else 0)"
    using assms(2) by (auto simp: cs_print_stats_def Let_def split: if_splits)
  have b: "cs_books (fold cs_step tr (cs_init c n))"
    by (rule cs_stat.run_inv [OF assms(1) cs_books_init])
  then have c: "count ?m = of_nat (length evs)" "total_ns ?m = sum_list (map ev_delay_ns evs)"
    by (simp_all add: cs_books_def evs_def cs_rep.report_counter)
  have g: "ev_delay_ns e \<le> max_ns ?m" if e: "e \<in> set evs" for e
  proof -
    obtain v where "v \<in> set ?vs" "ev_delay_ns e \<le> max_ns v"
      using b e by (force simp: cs_books_def max_books_def evs_def cs_tag_def cs_event_tag_def)
    then show ?thesis using cs_rep.report_mx_ge by (meson order_trans)
  qed
  have "\<exists>e \<in> set evs. cs_event_tag e = cs_tag ?m" if z: "max_ns ?m \<noteq> 0"
  proof -
    obtain v where v: "v \<in> set ?vs" "max_ns ?m = max_ns v" "cs_tag ?m = cs_tag v"
      using cs_rep.report_source [OF z] by blast
    then have "cs_tag v \<in> set (map cs_event_tag evs)"
      using b z by (auto simp: cs_books_def max_books_def evs_def cs_tag_def)
    then show ?thesis using v(3) by auto
  qed
  then show ?thesis using p c g by auto
qed

theorem cs_panel_true_witness:
  "\<exists>p. cs_print_stats (int 2) True
      (Some (stats_map (fold cs_step cs_demo_run (cs_init cs_demo_ctrl 2)))) = Some p \<and>
    count (panel_stats p) = 1"
proof -
  have "cs_print_stats (int 2) True
      (Some (stats_map (fold cs_step cs_demo_run (cs_init cs_demo_ctrl 2)))) \<noteq> None"
    by (simp add: cs_demo_defs cs_print_stats_def cs_merge_def)
  moreover have "admissible cs_regular cs_step cs_demo_run (cs_init cs_demo_ctrl 2)"
    by (simp add: cs_demo_run_def cs_init_def del: cs_step.simps)
  ultimately show ?thesis using cs_panel_true [of cs_demo_run cs_demo_ctrl 2] cs_demo_rb by auto
qed

end
