(* ===== verification/Preempt.thy ===== *)
theory Preempt
  imports SlotMonitor RunLoop Logger
begin

section \<open>sched/preempt: cost of a preempting switch\<close>

text \<open>
  \<^verbatim>\<open>sched/preempt\<close>: \<open>sched_switch_preempt\<close> stores the two tasks and the time of a preempting switch
  in the slot of its CPU, \<open>finish_task_switch\<close> takes the slot of the CPU it runs on, filters,
  reports and updates one shared record.
\<close>

record Preempt_ctrl =
  enable :: bool
  min_delay_ns :: u64
  target_pid :: s32

record Preempt_event =
  ev_ts_ns :: u64
  ev_delay_ns :: u64
  ev_cpu :: s32
  ev_prev_pid :: s32
  ev_next_pid :: s32
  ev_prev_tgid :: s32
  ev_next_tgid :: s32
  ev_prev_prio :: s32
  ev_next_prio :: s32
  ev_prev_state :: s32
  ev_prev_comm :: cstr
  ev_next_comm :: cstr

record Preempt_stats =
  count :: u64
  total_ns :: u64
  max_ns :: u64
  max_prev_pid :: s32
  max_next_pid :: s32
  max_prev_comm :: cstr
  max_next_comm :: cstr

record start_val =
  prev_pid :: s32
  next_pid :: s32
  prev_tgid :: s32
  next_tgid :: s32
  prev_prio :: s32
  next_prio :: s32
  prev_state :: s32
  cpu :: s32
  start_ts :: u64
  prev_comm :: cstr
  next_comm :: cstr

record Preempt_state =
  start_map :: "start_val list"
  ctrl_map :: "Preempt_ctrl option"
  stats_map :: "Preempt_stats option"
  rb :: "Preempt_event list"

text \<open>What the probe reads of a \<^verbatim>\<open>task_struct\<close>; the name is \<open>None\<close> when it cannot be read.\<close>

record task =
  t_pid :: s32
  t_tgid :: s32
  t_prio :: s32
  t_state :: u32
  t_comm :: "cstr option"

definition TASK_COMM_LEN :: nat where
  "TASK_COMM_LEN = 16"

definition preempt_zero :: Preempt_stats where
  "preempt_zero =
     \<lparr>count = 0, total_ns = 0, max_ns = 0, max_prev_pid = 0, max_next_pid = 0, max_prev_comm = '''',
      max_next_comm = ''''\<rparr>"

definition should_skip :: "Preempt_ctrl option \<Rightarrow> s32 \<Rightarrow> s32 \<Rightarrow> u64 \<Rightarrow> bool" where
  "should_skip ctrl ppid npid delay_ns =
     (case ctrl of None \<Rightarrow> True
      | Some c \<Rightarrow>
        if \<not> enable c then True
        else if target_pid c \<noteq> 0 \<and> ppid \<noteq> target_pid c \<and> npid \<noteq> target_pid c then True
        else min_delay_ns c \<noteq> 0 \<and> delay_ns < min_delay_ns c)"

text \<open>What the switch probe writes into the slot.\<close>

definition start_val_of :: "bpf_env \<Rightarrow> task \<Rightarrow> task \<Rightarrow> start_val" where
  "start_val_of env prv nxt =
     \<lparr>prev_pid = t_pid prv, next_pid = t_pid nxt, prev_tgid = t_tgid prv, next_tgid = t_tgid nxt,
      prev_prio = t_prio prv, next_prio = t_prio nxt, prev_state = t_state prv,
      cpu = of_nat (env_cpu env), start_ts = env_ktime env,
      prev_comm = snd (probe_read_str TASK_COMM_LEN (t_comm prv)),
      next_comm = snd (probe_read_str TASK_COMM_LEN (t_comm nxt))\<rparr>"

definition sched_switch_preempt ::
    "bpf_env \<Rightarrow> bool \<Rightarrow> task \<Rightarrow> task \<Rightarrow> Preempt_state \<Rightarrow> Preempt_state" where
  "sched_switch_preempt env preempt prv nxt s =
     (case ctrl_map s of None \<Rightarrow> s
      | Some c \<Rightarrow>
        if \<not> enable c \<or> \<not> preempt then s
        else s\<lparr>start_map := percpu_upd (env_cpu env) (\<lambda>_. start_val_of env prv nxt) (start_map s)\<rparr>)"

definition preempt_event_of :: "bpf_env \<Rightarrow> start_val \<Rightarrow> Preempt_event" where
  "preempt_event_of env v =
     \<lparr>ev_ts_ns = env_ktime env, ev_delay_ns = env_ktime env - start_ts v, ev_cpu = cpu v,
      ev_prev_pid = prev_pid v, ev_next_pid = next_pid v, ev_prev_tgid = prev_tgid v,
      ev_next_tgid = next_tgid v, ev_prev_prio = prev_prio v, ev_next_prio = next_prio v,
      ev_prev_state = prev_state v, ev_prev_comm = prev_comm v, ev_next_comm = next_comm v\<rparr>"

text \<open>The two branches of the statistics block: an existing record, and a fresh one.\<close>

definition preempt_stats_upd :: "Preempt_event \<Rightarrow> Preempt_stats \<Rightarrow> Preempt_stats" where
  "preempt_stats_upd e st0 = (let
     st1 = st0\<lparr>count := count st0 + 1\<rparr>;
     st2 = st1\<lparr>total_ns := total_ns st1 + ev_delay_ns e\<rparr>
     in if ev_delay_ns e > max_ns st2
        then st2\<lparr>max_ns := ev_delay_ns e, max_prev_pid := ev_prev_pid e, max_next_pid := ev_next_pid e,
                 max_prev_comm := ev_prev_comm e, max_next_comm := ev_next_comm e\<rparr>
        else st2)"

definition preempt_stats_new :: "Preempt_event \<Rightarrow> Preempt_stats" where
  "preempt_stats_new e =
     \<lparr>count = 1, total_ns = ev_delay_ns e, max_ns = ev_delay_ns e, max_prev_pid = ev_prev_pid e,
      max_next_pid = ev_next_pid e, max_prev_comm = ev_prev_comm e, max_next_comm = ev_next_comm e\<rparr>"

definition finish_task_switch :: "bpf_env \<Rightarrow> Preempt_state \<Rightarrow> Preempt_state" where
  "finish_task_switch env s =
     (case ctrl_map s of None \<Rightarrow> s
      | Some c \<Rightarrow>
        if \<not> enable c then s
        else if \<not> env_cpu env < length (start_map s) then s
        else let v = start_map s ! env_cpu env in
        if start_ts v = 0 then s
        else let
          delay_ns = env_ktime env - start_ts v;
          clear = (\<lambda>s. s\<lparr>start_map := percpu_upd (env_cpu env) (\<lambda>v. v\<lparr>start_ts := 0\<rparr>) (start_map s)\<rparr>)
        in if should_skip (Some c) (prev_pid v) (next_pid v) delay_ns then clear s
        else if \<not> env_reserve_ok env then clear s
        else let
          e = preempt_event_of env v;
          s1 = s\<lparr>rb := rb s @ [e]\<rparr>;
          s2 = (case stats_map s1 of
                  Some st \<Rightarrow> s1\<lparr>stats_map := Some (preempt_stats_upd e st)\<rparr>
                | None \<Rightarrow> if env_update_ok env then s1\<lparr>stats_map := Some (preempt_stats_new e)\<rparr> else s1)
        in clear s2)"

datatype preempt_firing = Switch bpf_env bool task task | Finish bpf_env

fun preempt_step :: "preempt_firing \<Rightarrow> Preempt_state \<Rightarrow> Preempt_state" where
  "preempt_step (Switch env preempt prv nxt) s = sched_switch_preempt env preempt prv nxt s"
| "preempt_step (Finish env) s = finish_task_switch env s"

subsection \<open>The user side\<close>

record Preempt_panel =
  panel_count :: u64
  panel_avg :: u64
  panel_max :: "u64 \<times> s32 \<times> cstr \<times> s32 \<times> cstr"

definition preempt_print_stats :: "Preempt_stats option \<Rightarrow> Preempt_panel option" where
  "preempt_print_stats r =
     (case r of None \<Rightarrow> None
      | Some s \<Rightarrow>
        if count s = 0 then None
        else Some \<lparr>panel_count = count s, panel_avg = total_ns s div count s,
                   panel_max = (max_ns s, max_prev_pid s, max_prev_comm s, max_next_pid s, max_next_comm s)\<rparr>)"

definition preempt_state_str :: "s32 \<Rightarrow> cstr" where
  "preempt_state_str st =
     (if st = 0 then ''RUNNING'' else if st = 1 then ''INTR'' else if st = 2 then ''UNINTR''
      else if st = 4 then ''STOPPED'' else if st = 8 then ''TRACED'' else ''???'')"

definition preempt_ctrl_of :: "bool \<Rightarrow> s32 \<Rightarrow> u64 \<Rightarrow> Preempt_ctrl" where
  "preempt_ctrl_of en pid delay = \<lparr>enable = en, min_delay_ns = delay, target_pid = pid\<rparr>"

definition preempt_run ::
    "s32 \<Rightarrow> bool \<Rightarrow> s32 \<Rightarrow> u64 \<Rightarrow> run_env \<Rightarrow> (int \<times> Preempt_ctrl action list) option" where
  "preempt_run timeout en pid delay e =
     run_loaded (\<lambda>err. err < 0) neg_or_zero (preempt_ctrl_of en pid delay) timeout e"

subsection \<open>The line of an event\<close>

text \<open>\<open>handle_event\<close>; this module does not take the lock.\<close>

definition preempt_handle_event :: "wall \<Rightarrow> Preempt_event \<Rightarrow> out_call list" where
  "preempt_handle_event now e =
     LOG now (''CPU='' @ ljust 2 (fmt_d (ev_cpu e)) @ '' | PREV: PID='' @ ljust 6 (fmt_d (ev_prev_pid e))
       @ '' TGID='' @ ljust 6 (fmt_d (ev_prev_tgid e)) @ '' '' @ ljust 16 (ev_prev_comm e)
       @ '' PRIO='' @ ljust 4 (fmt_d (ev_prev_prio e)) @ '' ['' @ ljust 6 (preempt_state_str (ev_prev_state e))
       @ ''] | NEXT: PID='' @ ljust 6 (fmt_d (ev_next_pid e)) @ '' TGID='' @ ljust 6 (fmt_d (ev_next_tgid e)) @ '' ''
       @ ljust 16 (ev_next_comm e) @ '' PRIO='' @ ljust 4 (fmt_d (ev_next_prio e)) @ '' | '')
     @ log_col_ns (ev_delay_ns e) 100000 1000000
     @ printf ('' [PREEMPT]'' @ endl)"

subsection \<open>The update of the statistics, access by access\<close>

text \<open>\<open>preempt_rest\<close> is what follows the increment of the counter.\<close>

definition preempt_inc :: "u64 \<Rightarrow> Preempt_stats \<Rightarrow> Preempt_stats" where
  "preempt_inc r st = st\<lparr>count := r + 1\<rparr>"

definition preempt_rest :: "Preempt_event \<Rightarrow> Preempt_stats access list" where
  "preempt_rest e =
    [Read_field total_ns, Write_field (\<lambda>r st. st\<lparr>total_ns := r + ev_delay_ns e\<rparr>),
     Read_field max_ns, Skip_unless (\<lambda>r. ev_delay_ns e > r), Write_field (\<lambda>r st. st\<lparr>max_ns := ev_delay_ns e\<rparr>),
     Write_field (\<lambda>r st. st\<lparr>max_prev_pid := ev_prev_pid e\<rparr>),
     Write_field (\<lambda>r st. st\<lparr>max_next_pid := ev_next_pid e\<rparr>),
     Write_field (\<lambda>r st. st\<lparr>max_prev_comm := ev_prev_comm e\<rparr>),
     Write_field (\<lambda>r st. st\<lparr>max_next_comm := ev_next_comm e\<rparr>)]"

definition preempt_accesses :: "Preempt_event \<Rightarrow> Preempt_stats access list" where
  "preempt_accesses e = Read_field count # Write_field preempt_inc # preempt_rest e"

section \<open>Lemmas\<close>

text \<open>Uninterrupted, the accesses are the update the handler makes.\<close>

lemma preempt_alone: "run_alone r (preempt_accesses e) st = preempt_stats_upd e st"
  by (simp add: preempt_accesses_def preempt_inc_def preempt_rest_def preempt_stats_upd_def Let_def)

interpretation preempt_race: racy_summary preempt_accesses count preempt_inc preempt_rest
  by unfold_locales (auto simp: preempt_accesses_def preempt_inc_def preempt_rest_def)

interpretation preempt_max: racy_maximum preempt_accesses max_ns ev_delay_ns "\<lambda>e. take 4 (preempt_accesses e)"
  "\<lambda>e r st. st\<lparr>max_ns := ev_delay_ns e\<rparr>" "\<lambda>e. drop 7 (preempt_accesses e)"
  by unfold_locales (auto simp: preempt_accesses_def preempt_inc_def preempt_rest_def eval_nat_numeral)

interpretation preempt_runner: quiet_loaded "\<lambda>err. err < 0" neg_or_zero
  by unfold_locales (simp_all add: neg_or_zero_simps)

definition preempt_slots :: "Preempt_state \<Rightarrow> (nat, start_val) bmap" where
  "preempt_slots s = live_slots (\<lambda>v. start_ts v \<noteq> 0) (start_map s)"

definition preempt_inv :: "Preempt_ctrl \<Rightarrow> nat \<Rightarrow> Preempt_state \<Rightarrow> bool" where
  "preempt_inv c n s \<longleftrightarrow> ctrl_map s = Some c \<and> length (start_map s) = n"

definition empty_slot :: start_val where
  "empty_slot = \<lparr>prev_pid = 0, next_pid = 0, prev_tgid = 0, next_tgid = 0, prev_prio = 0, next_prio = 0,
     prev_state = 0, cpu = 0, start_ts = 0, prev_comm = '''', next_comm = ''''\<rparr>"

definition preempt_init :: "Preempt_ctrl \<Rightarrow> nat \<Rightarrow> Preempt_state" where
  "preempt_init c n =
     \<lparr>start_map = replicate n empty_slot, ctrl_map = Some c, stats_map = Some preempt_zero, rb = []\<rparr>"

text \<open>A firing that writes or takes the slot of a CPU: a preempting switch, or any completion.\<close>

fun preempt_on :: "Preempt_ctrl \<Rightarrow> nat \<Rightarrow> preempt_firing \<Rightarrow> nat \<Rightarrow> bool" where
  "preempt_on c n (Switch env preempt prv nxt) k \<longleftrightarrow> enable c \<and> preempt \<and> k = env_cpu env \<and> k < n"
| "preempt_on c n (Finish env) k \<longleftrightarrow> enable c \<and> k = env_cpu env \<and> k < n"

fun preempt_starts :: "Preempt_ctrl \<Rightarrow> nat \<Rightarrow> preempt_firing \<Rightarrow> (nat \<times> start_val) option" where
  "preempt_starts c n (Switch env preempt prv nxt) =
     (if enable c \<and> preempt \<and> env_cpu env < n \<and> env_ktime env \<noteq> 0
      then Some (env_cpu env, start_val_of env prv nxt) else None)"
| "preempt_starts c n (Finish env) = None"

fun preempt_reports :: "Preempt_ctrl \<Rightarrow> preempt_firing \<Rightarrow> nat \<Rightarrow> start_val \<Rightarrow> Preempt_event option" where
  "preempt_reports c (Switch env preempt prv nxt) k v = None"
| "preempt_reports c (Finish env) k v =
     (if k = env_cpu env \<and> \<not> should_skip (Some c) (prev_pid v) (next_pid v) (env_ktime env - start_ts v) \<and>
         env_reserve_ok env
      then Some (preempt_event_of env v) else None)"

lemma start_val_of_simps [simp]:
  "start_ts (start_val_of env p q) = env_ktime env" "prev_pid (start_val_of env p q) = t_pid p"
  "next_pid (start_val_of env p q) = t_pid q"
  by (simp_all add: start_val_of_def)

lemma preempt_switch_tab:
  assumes "preempt_inv c n s"
  shows "map_of (preempt_slots (sched_switch_preempt env p prv nxt s)) k =
    (if preempt_on c n (Switch env p prv nxt) k
     then map_option snd (preempt_starts c n (Switch env p prv nxt)) else map_of (preempt_slots s) k)"
  using assms
  by (auto simp: preempt_inv_def sched_switch_preempt_def preempt_slots_def map_of_live_slots_upd)

lemma preempt_finish_slots:
  assumes "ctrl_map s = Some c"
  shows "start_map (finish_task_switch env s) =
    (if enable c \<and> env_cpu env < length (start_map s) \<and> start_ts (start_map s ! env_cpu env) \<noteq> 0
     then percpu_upd (env_cpu env) (\<lambda>v. v\<lparr>start_ts := 0\<rparr>) (start_map s) else start_map s)"
  by (simp add: assms finish_task_switch_def Let_def split: option.split)

lemma preempt_finish_tab:
  assumes "preempt_inv c n s"
  shows "map_of (preempt_slots (finish_task_switch env s)) k =
    (if preempt_on c n (Finish env) k then None else map_of (preempt_slots s) k)"
  using assms
  by (auto simp: preempt_inv_def preempt_slots_def preempt_finish_slots map_of_live_slots_upd
      map_of_live_slots [of _ "start_map s"])

lemma preempt_finish_rb:
  assumes "preempt_inv c n s"
  shows "rb (finish_task_switch env s) =
    rb s @ reported (preempt_reports c (Finish env) (env_cpu env)) (preempt_slots s) (env_cpu env)"
  using assms
  by (auto simp: preempt_inv_def finish_task_switch_def preempt_slots_def map_of_live_slots Let_def
      reported_def should_skip_def split: option.split)

lemma preempt_switch_rb: "rb (sched_switch_preempt env p prv nxt s) = rb s"
  by (simp add: sched_switch_preempt_def split: option.split)

lemma preempt_step_inv: "preempt_inv c n s \<Longrightarrow> preempt_inv c n (preempt_step e s)"
  by (cases e) (auto simp: preempt_inv_def sched_switch_preempt_def finish_task_switch_def Let_def
      split: option.split)

lemma preempt_inv_init: "preempt_inv c n (preempt_init c n)"
  by (simp add: preempt_inv_def preempt_init_def)

lemma preempt_init_simps [simp]:
  "preempt_slots (preempt_init c n) = []" "rb (preempt_init c n) = []"
  "stats_map (preempt_init c n) = Some preempt_zero"
  by (auto simp: preempt_slots_def preempt_init_def empty_slot_def intro!: live_slots_empty)

lemma preempt_step_tab:
  assumes "preempt_inv c n s" and "map_of (preempt_slots (preempt_step e s)) k = Some v"
  shows "preempt_starts c n e = Some (k, v) \<or>
    (map_of (preempt_slots s) k = Some v \<and> \<not> preempt_on c n e k \<and>
      (\<forall>v'. preempt_starts c n e \<noteq> Some (k, v')))"
  using assms
  by (cases e) (auto simp: preempt_switch_tab preempt_finish_tab split: if_splits)

lemma preempt_step_rb:
  assumes "preempt_inv c n s" and "x \<in> set (rb (preempt_step e s))"
  shows "x \<in> set (rb s) \<or> (\<exists>k v. map_of (preempt_slots s) k = Some v \<and> preempt_reports c e k v = Some x)"
proof (cases e)
  case (Finish env)
  then show ?thesis using assms
    by (simp add: preempt_finish_rb in_reported del: preempt_reports.simps) blast
qed (use assms in \<open>simp add: preempt_switch_rb\<close>)

interpretation preempt_pair: paired_monitor preempt_step "\<lambda>_ _. True" "preempt_inv c n" preempt_slots rb
  "preempt_starts c n" "preempt_on c n" "preempt_reports c" for c n
  by unfold_locales (use preempt_step_inv preempt_step_tab preempt_step_rb in blast)+

interpretation preempt_sum: summary_monitor preempt_step rb stats_map preempt_stats_upd
proof unfold_locales
  fix s :: Preempt_state and c e
  assume "stats_map s = Some c"
  then show "(rb (preempt_step e s) = rb s \<and> stats_map (preempt_step e s) = Some c) \<or>
      (\<exists>x. rb (preempt_step e s) = rb s @ [x] \<and>
        stats_map (preempt_step e s) = Some (preempt_stats_upd x c))"
    by (cases e) (auto simp: sched_switch_preempt_def finish_task_switch_def Let_def split: option.split)
qed

interpretation preempt_rec: event_summary preempt_stats_upd preempt_zero count total_ns max_ns
  "\<lambda>st. (max_prev_pid st, max_prev_comm st, max_next_pid st, max_next_comm st)" ev_delay_ns
  "\<lambda>e. (ev_prev_pid e, ev_prev_comm e, ev_next_pid e, ev_next_comm e)"
  by unfold_locales (auto simp: preempt_zero_def preempt_stats_upd_def Let_def max_def)

definition preempt_demo_ctrl :: Preempt_ctrl where
  "preempt_demo_ctrl = \<lparr>enable = True, min_delay_ns = 3, target_pid = 8\<rparr>"

definition demo_task :: "s32 \<Rightarrow> s32 \<Rightarrow> task" where
  "demo_task tgid pid = \<lparr>t_pid = pid, t_tgid = tgid, t_prio = 120, t_state = 0, t_comm = Some ''task''\<rparr>"

definition preempt_demo_run :: "preempt_firing list" where
  "preempt_demo_run =
     [Switch (calm_env 0 10 7 8) True (demo_task 7 8) (demo_task 9 9), Finish (calm_env 1 11 1 1),
      Finish (calm_env 0 15 9 9)]"

lemmas preempt_demo_defs = preempt_demo_ctrl_def preempt_demo_run_def demo_task_def preempt_init_def
  sched_switch_preempt_def finish_task_switch_def should_skip_def percpu_upd_def start_val_of_def
  preempt_event_of_def preempt_stats_upd_def preempt_zero_def empty_slot_def probe_read_str_def
  TASK_COMM_LEN_def Let_def

lemma preempt_demo_rb:
  "map (\<lambda>e. (ev_prev_pid e, ev_next_pid e, ev_delay_ns e))
     (rb (fold preempt_step preempt_demo_run (preempt_init preempt_demo_ctrl 2))) = [(8, 9, 5)]"
  by (simp add: preempt_demo_defs)

lemma printable_preempt_state [simp]: "printable (preempt_state_str st)"
  by (simp add: preempt_state_str_def)

interpretation preempt_lines: line_printer "\<lambda>(now, e). preempt_handle_event now e"
  "\<lambda>(now, e). printable (ev_prev_comm e) \<and> printable (ev_next_comm e)"
  by unfold_locales (auto simp: preempt_handle_event_def line_simps split: if_splits)

text \<open>The CPU whose slot a firing takes or overwrites; the module reports exactly the calls of the specification.\<close>

fun preempt_ends :: "Preempt_ctrl \<Rightarrow> nat \<Rightarrow> preempt_firing \<Rightarrow> nat option" where
  "preempt_ends c n (Switch env preempt prv nxt) = (if enable c \<and> preempt \<and> env_cpu env < n then Some (env_cpu env) else None)"
| "preempt_ends c n (Finish env) = (if enable c \<and> env_cpu env < n then Some (env_cpu env) else None)"

lemma preempt_slots_cpu: "preempt_inv c n s \<Longrightarrow> map_of (preempt_slots s) k = Some v \<Longrightarrow> k < n"
  by (auto simp: preempt_inv_def preempt_slots_def map_of_live_slots split: if_splits)

lemma preempt_step_calls:
  assumes "preempt_inv c n s"
  shows "(map_of (preempt_slots (preempt_step e s)), rb (preempt_step e s)) =
    call_step (preempt_starts c n) (preempt_ends c n) (preempt_reports c) e (map_of (preempt_slots s), rb s)"
  using assms
  by (cases e) (auto simp: preempt_switch_tab preempt_switch_rb preempt_finish_tab preempt_finish_rb call_step_def reported_def fun_eq_iff should_skip_def
      dest: preempt_slots_cpu split: option.split)

interpretation preempt_calls: call_monitor preempt_step "\<lambda>_ _. True" "preempt_inv c n" preempt_slots rb
  "preempt_starts c n" "preempt_ends c n" "preempt_reports c" for c n
  by unfold_locales (simp_all add: preempt_step_inv preempt_step_calls)

text \<open>Every event passed the filters of the configuration.\<close>

lemma preempt_filtered:
  assumes "x \<in> set (rb (fold preempt_step tr (preempt_init c n)))"
  shows "enable c \<and> min_delay_ns c \<le> ev_delay_ns x \<and> (target_pid c = 0 \<or> target_pid c \<in> {ev_prev_pid x, ev_next_pid x})"
  using assms
  by (rule preempt_pair.reported_all [OF _ admissible_True preempt_inv_init])
     (auto simp: preempt_event_of_def should_skip_def elim!: preempt_starts.elims preempt_reports.elims split: if_splits)

section \<open>Properties\<close>

text \<open>
  Every event reported pairs a completion with the last preempting switch on the same
  CPU, with no other preempting switch and no completion on that CPU between them; the tasks are
  those of the switch, the delay is the time between the two and at least the threshold, and
  with a target one of the two threads has it as its kernel thread id.
\<close>

lemma preempt_reported_switch:
  assumes "x \<in> set (rb (fold preempt_step tr (preempt_init c n)))"
  shows "\<exists>pre env1 prv nxt mid env2 post.
    tr = pre @ Switch env1 True prv nxt # mid @ Finish env2 # post \<and> env_cpu env1 = env_cpu env2 \<and>
    ev_prev_pid x = t_pid prv \<and> ev_next_pid x = t_pid nxt \<and>
    ev_prev_tgid x = t_tgid prv \<and> ev_next_tgid x = t_tgid nxt \<and>
    ev_cpu x = of_nat (env_cpu env1) \<and> ev_delay_ns x = env_ktime env2 - env_ktime env1 \<and>
    min_delay_ns c \<le> ev_delay_ns x \<and> target_pid c \<in> {0, t_pid prv, t_pid nxt} \<and>
    (\<forall>e \<in> set mid. \<not> preempt_on c n e (env_cpu env1))"
proof -
  obtain pre e1 mid e2 post k v where t: "tr = pre @ e1 # mid @ e2 # post"
    and s: "preempt_starts c n e1 = Some (k, v)" and r: "preempt_reports c e2 k v = Some x"
    and m: "\<forall>e \<in> set mid. \<not> preempt_on c n e k \<and> (\<forall>v'. preempt_starts c n e \<noteq> Some (k, v'))"
    using preempt_pair.reported_pair [OF admissible_True preempt_inv_init _ _ assms]
    by auto
  obtain env1 p prv nxt where e1: "e1 = Switch env1 p prv nxt" using s by (cases e1) auto
  obtain env2 where e2: "e2 = Finish env2" using r by (cases e2) auto
  have v: "v = start_val_of env1 prv nxt" "k = env_cpu env1" "p"
    using s e1 by (auto split: if_splits)
  have x: "x = preempt_event_of env2 v" "k = env_cpu env2"
    "\<not> should_skip (Some c) (t_pid prv) (t_pid nxt) (env_ktime env2 - env_ktime env1)"
    using r e2 v(1) by (auto split: if_splits)
  have q: "tr = pre @ Switch env1 True prv nxt # mid @ Finish env2 # post" using t e1 e2 v(3) by simp
  have f: "ev_prev_pid x = t_pid prv" "ev_next_pid x = t_pid nxt" "ev_prev_tgid x = t_tgid prv"
    "ev_next_tgid x = t_tgid nxt" "ev_cpu x = of_nat (env_cpu env1)"
    "ev_delay_ns x = env_ktime env2 - env_ktime env1"
    using x(1) v(1) by (simp_all add: preempt_event_of_def start_val_of_def)
  have d: "min_delay_ns c \<le> ev_delay_ns x" "target_pid c \<in> {0, t_pid prv, t_pid nxt}"
    using x(3) f(6) by (auto simp: should_skip_def split: if_splits)
  show ?thesis
    by (intro exI conjI, rule q) (use v(2) x f d m in simp_all)
qed

text \<open>
  the shared record is a function of the events submitted: the panel appears exactly
  when there were any (fewer than \<open>2^64\<close>), counts them, averages their delays, and shows the largest delay with
  the two threads and names of an event that had it.
\<close>

lemma preempt_panel_true:
  fixes c n tr
  defines "s \<equiv> fold preempt_step tr (preempt_init c n)"
  assumes "length (rb s) < 2 ^ 64"
  shows "case preempt_print_stats (stats_map s) of
      None \<Rightarrow> rb s = []
    | Some p \<Rightarrow> rb s \<noteq> [] \<and> panel_count p = of_nat (length (rb s)) \<and>
        panel_avg p = sum_list (map ev_delay_ns (rb s)) div of_nat (length (rb s)) \<and>
        (\<forall>x \<in> set (rb s). ev_delay_ns x \<le> fst (panel_max p)) \<and>
        (fst (panel_max p) = 0 \<or> (\<exists>x \<in> set (rb s).
           panel_max p = (ev_delay_ns x, ev_prev_pid x, ev_prev_comm x, ev_next_pid x, ev_next_comm x)))"
proof -
  let ?st = "fold preempt_stats_upd (rb s) preempt_zero"
  have st: "stats_map s = Some ?st" unfolding s_def by (rule preempt_sum.run_summary) simp_all
  note rep = preempt_rec.summary_report [of "rb s"]
  have z: "count ?st = 0 \<longleftrightarrow> rb s = []"
    using rep assms(2) of_nat_zero_iff [OF assms(2)] by simp
  have "max_ns ?st = 0 \<or> (\<exists>x \<in> set (rb s).
      (max_ns ?st, max_prev_pid ?st, max_prev_comm ?st, max_next_pid ?st, max_next_comm ?st) =
      (ev_delay_ns x, ev_prev_pid x, ev_prev_comm x, ev_next_pid x, ev_next_comm x))"
    using rep by auto
  then show ?thesis
    using rep z by (simp add: st preempt_print_stats_def)
qed

end
