(* ===== verification/Syscall.thy ===== *)
theory Syscall
  imports SlotMonitor RunLoop Logger
begin

section \<open>syscall: latency of system calls\<close>

text \<open>
  \<^verbatim>\<open>syscall\<close>: \<open>trace_enter\<close> writes the time in microseconds and the call number into the slot of
  its CPU, \<open>trace_exit\<close> takes the slot of the CPU it runs on, filters and reports. The module
  has no PID namespace: the ids are those of the kernel.
\<close>

record Syscall_ctrl =
  enable :: bool
  min_latency_ns :: u64
  target_pid :: s32

record Syscall_event =
  ev_ts_ns :: u64
  ev_delay_ns :: u64
  ev_pid :: s32
  ev_tid :: s32
  ev_syscall_id :: s32
  ev_comm :: cstr

record Syscall_stats =
  count :: u64
  total_ns :: u64
  max_ns :: u64
  max_pid :: s32
  max_syscall_id :: s32
  max_comm :: cstr

record start_val =
  start_ts :: u64
  syscall_id :: s32

text \<open>The maps: a slot per CPU, the configuration, one shared record of statistics.\<close>

record Syscall_state =
  enter_map :: "start_val list"
  ctrl_map :: "Syscall_ctrl option"
  stats_map :: "Syscall_stats option"
  rb :: "Syscall_event list"

definition syscall_zero :: Syscall_stats where
  "syscall_zero =
     \<lparr>count = 0, total_ns = 0, max_ns = 0, max_pid = 0, max_syscall_id = 0, max_comm = ''''\<rparr>"

definition trace_enter :: "bpf_env \<Rightarrow> s64 \<Rightarrow> Syscall_state \<Rightarrow> Syscall_state" where
  "trace_enter env i s =
     (case ctrl_map s of None \<Rightarrow> s
      | Some c \<Rightarrow>
        if \<not> enable c then s
        else s\<lparr>enter_map := percpu_upd (env_cpu env)
                 (\<lambda>v. v\<lparr>start_ts := env_ktime env div 1000, syscall_id := ucast i\<rparr>) (enter_map s)\<rparr>)"

definition syscall_event_of :: "bpf_env \<Rightarrow> start_val \<Rightarrow> Syscall_event" where
  "syscall_event_of env v =
     \<lparr>ev_ts_ns = env_ktime env div 1000, ev_delay_ns = env_ktime env div 1000 - start_ts v,
      ev_pid = hi32 (env_pid_tgid env), ev_tid = lo32 (env_pid_tgid env),
      ev_syscall_id = syscall_id v, ev_comm = env_comm env\<rparr>"

text \<open>The block that updates the shared record for an event.\<close>

definition syscall_stats_upd :: "Syscall_event \<Rightarrow> Syscall_stats \<Rightarrow> Syscall_stats" where
  "syscall_stats_upd e st0 = (let
     st1 = st0\<lparr>count := count st0 + 1\<rparr>;
     st2 = st1\<lparr>total_ns := total_ns st1 + ev_delay_ns e\<rparr>
     in if ev_delay_ns e > max_ns st2
        then st2\<lparr>max_ns := ev_delay_ns e, max_pid := ev_pid e, max_syscall_id := ev_syscall_id e,
                 max_comm := ev_comm e\<rparr>
        else st2)"

definition trace_exit :: "bpf_env \<Rightarrow> Syscall_state \<Rightarrow> Syscall_state" where
  "trace_exit env s =
     (case ctrl_map s of None \<Rightarrow> s
      | Some c \<Rightarrow>
        if \<not> enable c then s
        else if \<not> env_cpu env < length (enter_map s) then s
        else let v = enter_map s ! env_cpu env in
        if start_ts v = 0 then s
        else let
          now = env_ktime env div 1000;
          delay = now - start_ts v;
          s1 = s\<lparr>enter_map := percpu_upd (env_cpu env) (\<lambda>v. v\<lparr>start_ts := 0\<rparr>) (enter_map s)\<rparr>;
          pid = hi32 (env_pid_tgid env)
        in if target_pid c \<noteq> 0 \<and> pid \<noteq> target_pid c then s1
        else if min_latency_ns c \<noteq> 0 \<and> delay * 1000 < min_latency_ns c then s1
        else if \<not> env_reserve_ok env then s1
        else let
          e = syscall_event_of env v;
          st0 = (case stats_map s1 of
                   None \<Rightarrow> if env_update_ok env then Some syscall_zero else None
                 | Some st \<Rightarrow> Some st);
          s2 = s1\<lparr>stats_map := map_option (syscall_stats_upd e) st0\<rparr>
        in s2\<lparr>rb := rb s2 @ [e]\<rparr>)"

datatype syscall_firing = Sys_enter bpf_env s64 | Sys_exit bpf_env

fun syscall_step :: "syscall_firing \<Rightarrow> Syscall_state \<Rightarrow> Syscall_state" where
  "syscall_step (Sys_enter env i) s = trace_enter env i s"
| "syscall_step (Sys_exit env) s = trace_exit env s"

subsection \<open>The user side\<close>

text \<open>The panel: samples and average, then the maximum with process, name and call number.\<close>

record Syscall_panel =
  panel_count :: u64
  panel_avg :: u64
  panel_max :: "u64 \<times> s32 \<times> cstr \<times> s32"

definition syscall_print_stats :: "Syscall_stats option \<Rightarrow> Syscall_panel option" where
  "syscall_print_stats r =
     (case r of None \<Rightarrow> None
      | Some s \<Rightarrow>
        if count s = 0 then None
        else Some \<lparr>panel_count = count s, panel_avg = total_ns s div count s,
                   panel_max = (max_ns s, max_pid s, max_comm s, max_syscall_id s)\<rparr>)"

definition syscall_ctrl_of :: "bool \<Rightarrow> s32 \<Rightarrow> u64 \<Rightarrow> Syscall_ctrl" where
  "syscall_ctrl_of en pid delay = \<lparr>enable = en, min_latency_ns = delay, target_pid = pid\<rparr>"

definition syscall_run ::
    "s32 \<Rightarrow> bool \<Rightarrow> s32 \<Rightarrow> u64 \<Rightarrow> run_env \<Rightarrow> (int \<times> Syscall_ctrl action list) option" where
  "syscall_run timeout en pid delay e =
     run_loaded (\<lambda>err. err < 0) neg_or_zero (syscall_ctrl_of en pid delay) timeout e"

subsection \<open>The line of an event\<close>

text \<open>\<open>handle_event\<close>; this module does not take the lock. The delay is kept, and printed, in microseconds.\<close>

definition syscall_handle_event :: "wall \<Rightarrow> Syscall_event \<Rightarrow> out_call list" where
  "syscall_handle_event now e =
     LOG now (ljust 5 (fmt_d (ev_pid e)) @ '' '' @ ljust 5 (fmt_d (ev_tid e)) @ '' '' @ ljust 16 (ev_comm e) @ '' ''
       @ ljust 4 (fmt_d (ev_syscall_id e)) @ '' | '')
     @ log_col_us (ev_delay_ns e) 100 1000
     @ printf endl"

subsection \<open>The update of the statistics, access by access\<close>

text \<open>\<open>syscall_rest\<close> is what follows the increment of the counter.\<close>

definition syscall_inc :: "u64 \<Rightarrow> Syscall_stats \<Rightarrow> Syscall_stats" where
  "syscall_inc r st = st\<lparr>count := r + 1\<rparr>"

definition syscall_rest :: "Syscall_event \<Rightarrow> Syscall_stats access list" where
  "syscall_rest e =
    [Read_field total_ns, Write_field (\<lambda>r st. st\<lparr>total_ns := r + ev_delay_ns e\<rparr>),
     Read_field max_ns, Skip_unless (\<lambda>r. ev_delay_ns e > r), Write_field (\<lambda>r st. st\<lparr>max_ns := ev_delay_ns e\<rparr>),
     Write_field (\<lambda>r st. st\<lparr>max_pid := ev_pid e\<rparr>),
     Write_field (\<lambda>r st. st\<lparr>max_syscall_id := ev_syscall_id e\<rparr>),
     Write_field (\<lambda>r st. st\<lparr>max_comm := ev_comm e\<rparr>)]"

definition syscall_accesses :: "Syscall_event \<Rightarrow> Syscall_stats access list" where
  "syscall_accesses e = Read_field count # Write_field syscall_inc # syscall_rest e"

section \<open>Lemmas\<close>

text \<open>Uninterrupted, the accesses are the update the handler makes.\<close>

lemma syscall_alone: "run_alone r (syscall_accesses e) st = syscall_stats_upd e st"
  by (simp add: syscall_accesses_def syscall_inc_def syscall_rest_def syscall_stats_upd_def Let_def)

interpretation syscall_race: racy_summary syscall_accesses count syscall_inc syscall_rest
  by unfold_locales (auto simp: syscall_accesses_def syscall_inc_def syscall_rest_def)

interpretation syscall_max: racy_maximum syscall_accesses max_ns ev_delay_ns "\<lambda>e. take 4 (syscall_accesses e)"
  "\<lambda>e r st. st\<lparr>max_ns := ev_delay_ns e\<rparr>" "\<lambda>e. drop 7 (syscall_accesses e)"
  by unfold_locales (auto simp: syscall_accesses_def syscall_inc_def syscall_rest_def eval_nat_numeral)

interpretation syscall_runner: quiet_loaded "\<lambda>err. err < 0" neg_or_zero
  by unfold_locales (simp_all add: neg_or_zero_simps)

definition syscall_slots :: "Syscall_state \<Rightarrow> (nat, start_val) bmap" where
  "syscall_slots s = live_slots (\<lambda>v. start_ts v \<noteq> 0) (enter_map s)"

definition syscall_inv :: "Syscall_ctrl \<Rightarrow> nat \<Rightarrow> Syscall_state \<Rightarrow> bool" where
  "syscall_inv c n s \<longleftrightarrow> ctrl_map s = Some c \<and> length (enter_map s) = n"

definition syscall_init :: "Syscall_ctrl \<Rightarrow> nat \<Rightarrow> Syscall_state" where
  "syscall_init c n =
     \<lparr>enter_map = replicate n \<lparr>start_ts = 0, syscall_id = 0\<rparr>, ctrl_map = Some c,
      stats_map = Some syscall_zero, rb = []\<rparr>"

text \<open>A firing of an enabled module on a possible CPU, by which CPU it is.\<close>

fun syscall_on :: "Syscall_ctrl \<Rightarrow> nat \<Rightarrow> syscall_firing \<Rightarrow> nat \<Rightarrow> bool" where
  "syscall_on c n (Sys_enter env i) k \<longleftrightarrow> enable c \<and> k = env_cpu env \<and> k < n"
| "syscall_on c n (Sys_exit env) k \<longleftrightarrow> enable c \<and> k = env_cpu env \<and> k < n"

fun syscall_starts :: "Syscall_ctrl \<Rightarrow> nat \<Rightarrow> syscall_firing \<Rightarrow> (nat \<times> start_val) option" where
  "syscall_starts c n (Sys_enter env i) =
     (if enable c \<and> env_cpu env < n \<and> env_ktime env div 1000 \<noteq> 0
      then Some (env_cpu env, \<lparr>start_ts = env_ktime env div 1000, syscall_id = ucast i\<rparr>) else None)"
| "syscall_starts c n (Sys_exit env) = None"

fun syscall_reports :: "Syscall_ctrl \<Rightarrow> syscall_firing \<Rightarrow> nat \<Rightarrow> start_val \<Rightarrow> Syscall_event option" where
  "syscall_reports c (Sys_enter env i) k v = None"
| "syscall_reports c (Sys_exit env) k v =
     (if enable c \<and> k = env_cpu env \<and> (target_pid c = 0 \<or> hi32 (env_pid_tgid env) = target_pid c) \<and>
         (min_latency_ns c = 0 \<or> min_latency_ns c \<le> (env_ktime env div 1000 - start_ts v) * 1000) \<and>
         env_reserve_ok env
      then Some (syscall_event_of env v) else None)"

lemma syscall_enter_tab:
  assumes "syscall_inv c n s"
  shows "map_of (syscall_slots (trace_enter env i s)) k =
    (if syscall_on c n (Sys_enter env i) k then map_option snd (syscall_starts c n (Sys_enter env i))
     else map_of (syscall_slots s) k)"
  using assms
  by (auto simp: syscall_inv_def trace_enter_def syscall_slots_def map_of_live_slots_upd)

lemma syscall_exit_slots:
  assumes "ctrl_map s = Some c"
  shows "enter_map (trace_exit env s) =
    (if enable c \<and> env_cpu env < length (enter_map s) \<and> start_ts (enter_map s ! env_cpu env) \<noteq> 0
     then percpu_upd (env_cpu env) (\<lambda>v. v\<lparr>start_ts := 0\<rparr>) (enter_map s) else enter_map s)"
  by (simp add: assms trace_exit_def Let_def)

lemma syscall_exit_tab:
  assumes "syscall_inv c n s"
  shows "map_of (syscall_slots (trace_exit env s)) k =
    (if syscall_on c n (Sys_exit env) k then None else map_of (syscall_slots s) k)"
  using assms
  by (auto simp: syscall_inv_def syscall_slots_def syscall_exit_slots map_of_live_slots_upd
      map_of_live_slots [of _ "enter_map s"])

lemma syscall_exit_rb:
  assumes "syscall_inv c n s"
  shows "rb (trace_exit env s) =
    rb s @ reported (syscall_reports c (Sys_exit env) (env_cpu env)) (syscall_slots s) (env_cpu env)"
  using assms
  by (auto simp: syscall_inv_def trace_exit_def syscall_slots_def map_of_live_slots Let_def reported_def)

lemma syscall_enter_rb: "rb (trace_enter env i s) = rb s"
  by (simp add: trace_enter_def split: option.split)

lemma syscall_step_inv: "syscall_inv c n s \<Longrightarrow> syscall_inv c n (syscall_step e s)"
  by (cases e) (auto simp: syscall_inv_def trace_enter_def trace_exit_def Let_def)

lemma syscall_inv_init: "syscall_inv c n (syscall_init c n)"
  by (simp add: syscall_inv_def syscall_init_def)

lemma syscall_init_simps [simp]:
  "syscall_slots (syscall_init c n) = []" "rb (syscall_init c n) = []"
  "stats_map (syscall_init c n) = Some syscall_zero"
  by (auto simp: syscall_slots_def syscall_init_def intro!: live_slots_empty)

lemma syscall_step_tab:
  assumes "syscall_inv c n s" and "map_of (syscall_slots (syscall_step e s)) k = Some v"
  shows "syscall_starts c n e = Some (k, v) \<or>
    (map_of (syscall_slots s) k = Some v \<and> \<not> syscall_on c n e k \<and>
      (\<forall>v'. syscall_starts c n e \<noteq> Some (k, v')))"
  using assms
  by (cases e) (auto simp: syscall_enter_tab syscall_exit_tab split: if_splits)

lemma syscall_step_rb:
  assumes "syscall_inv c n s" and "x \<in> set (rb (syscall_step e s))"
  shows "x \<in> set (rb s) \<or> (\<exists>k v. map_of (syscall_slots s) k = Some v \<and> syscall_reports c e k v = Some x)"
proof (cases e)
  case (Sys_exit env)
  then show ?thesis using assms
    by (simp add: syscall_exit_rb in_reported del: syscall_reports.simps) blast
qed (use assms in \<open>simp add: syscall_enter_rb\<close>)

interpretation syscall_pair: paired_monitor syscall_step "\<lambda>_ _. True" "syscall_inv c n" syscall_slots rb
  "syscall_starts c n" "syscall_on c n" "syscall_reports c" for c n
  by unfold_locales (use syscall_step_inv syscall_step_tab syscall_step_rb in blast)+

interpretation syscall_sum: summary_monitor syscall_step rb stats_map syscall_stats_upd
proof unfold_locales
  fix s :: Syscall_state and c e
  assume "stats_map s = Some c"
  then show "(rb (syscall_step e s) = rb s \<and> stats_map (syscall_step e s) = Some c) \<or>
      (\<exists>x. rb (syscall_step e s) = rb s @ [x] \<and>
        stats_map (syscall_step e s) = Some (syscall_stats_upd x c))"
    by (cases e) (auto simp: trace_enter_def trace_exit_def Let_def split: option.split)
qed

interpretation syscall_rec: event_summary syscall_stats_upd syscall_zero count total_ns max_ns
  "\<lambda>st. (max_pid st, max_syscall_id st, max_comm st)" ev_delay_ns
  "\<lambda>e. (ev_pid e, ev_syscall_id e, ev_comm e)"
  by unfold_locales (auto simp: syscall_zero_def syscall_stats_upd_def Let_def max_def)

definition syscall_demo_ctrl :: Syscall_ctrl where
  "syscall_demo_ctrl = \<lparr>enable = True, min_latency_ns = 0, target_pid = 0\<rparr>"

text \<open>
  Two threads whose calls overlap: process 7 enters call 7 on CPU 0 and sleeps in it, process 9
  enters call 1 on CPU 1, moves to CPU 0 and returns there; process 7 wakes on CPU 1.
\<close>

definition syscall_moved_run :: "syscall_firing list" where
  "syscall_moved_run =
     [Sys_enter (calm_env 0 1000000 7 8) 7, Sys_enter (calm_env 1 5000000 9 9) 1,
      Sys_exit (calm_env 0 6000000 9 9), Sys_exit (calm_env 1 9000000 7 8)]"

lemmas syscall_demo_defs = syscall_demo_ctrl_def syscall_moved_run_def syscall_init_def trace_enter_def
  trace_exit_def percpu_upd_def syscall_event_of_def syscall_stats_upd_def syscall_zero_def Let_def

lemma syscall_moved_rb: "rb (fold syscall_step syscall_moved_run (syscall_init syscall_demo_ctrl 2)) =
  [\<lparr>ev_ts_ns = 6000, ev_delay_ns = 5000, ev_pid = 9, ev_tid = 9, ev_syscall_id = 7, ev_comm = ''demo''\<rparr>,
   \<lparr>ev_ts_ns = 9000, ev_delay_ns = 4000, ev_pid = 7, ev_tid = 8, ev_syscall_id = 1, ev_comm = ''demo''\<rparr>]"
  by (simp add: syscall_demo_defs)

interpretation syscall_lines: line_printer "\<lambda>(now, e). syscall_handle_event now e" "\<lambda>(now, e). printable (ev_comm e)"
  by unfold_locales (auto simp: syscall_handle_event_def line_simps split: if_splits)

text \<open>The CPU whose slot a firing takes or overwrites; the module reports exactly the calls of the specification.\<close>

fun syscall_ends :: "Syscall_ctrl \<Rightarrow> nat \<Rightarrow> syscall_firing \<Rightarrow> nat option" where
  "syscall_ends c n (Sys_enter env i) = (if enable c \<and> env_cpu env < n then Some (env_cpu env) else None)"
| "syscall_ends c n (Sys_exit env) = (if enable c \<and> env_cpu env < n then Some (env_cpu env) else None)"

lemma syscall_slots_cpu: "syscall_inv c n s \<Longrightarrow> map_of (syscall_slots s) k = Some v \<Longrightarrow> k < n"
  by (auto simp: syscall_inv_def syscall_slots_def map_of_live_slots split: if_splits)

lemma syscall_step_calls:
  assumes "syscall_inv c n s"
  shows "(map_of (syscall_slots (syscall_step e s)), rb (syscall_step e s)) =
    call_step (syscall_starts c n) (syscall_ends c n) (syscall_reports c) e (map_of (syscall_slots s), rb s)"
  using assms
  by (cases e) (auto simp: syscall_enter_tab syscall_enter_rb syscall_exit_tab syscall_exit_rb call_step_def reported_def fun_eq_iff
      dest: syscall_slots_cpu split: option.split)

interpretation syscall_calls: call_monitor syscall_step "\<lambda>_ _. True" "syscall_inv c n" syscall_slots rb
  "syscall_starts c n" "syscall_ends c n" "syscall_reports c" for c n
  by unfold_locales (simp_all add: syscall_step_inv syscall_step_calls)

text \<open>Every event passed the filters of the configuration.\<close>

lemma syscall_filtered:
  assumes "x \<in> set (rb (fold syscall_step tr (syscall_init c n)))"
  shows "enable c \<and> min_latency_ns c \<le> ev_delay_ns x * 1000 \<and> (target_pid c = 0 \<or> ev_pid x = target_pid c)"
  using assms
  by (rule syscall_pair.reported_all [OF _ admissible_True syscall_inv_init])
     (auto simp: syscall_event_of_def elim!: syscall_starts.elims syscall_reports.elims split: if_splits)

definition demo_call :: "s32 \<Rightarrow> u64 \<Rightarrow> Syscall_event" where
  "demo_call p d = \<lparr>ev_ts_ns = 9, ev_delay_ns = d, ev_pid = p, ev_tid = p,
     ev_syscall_id = 1, ev_comm = ''sh''\<rparr>"

section \<open>Properties\<close>

text \<open>
  C26: every event reported pairs an exit with the last entry on the same CPU, with no
  other entry or exit on that CPU between them: the call number is the entry's, the ids and
  the name are those of the exiting thread, the delay is the difference of the two times in
  whole microseconds, and the filters on process and latency hold.
\<close>

theorem syscall_reported_call:
  assumes "x \<in> set (rb (fold syscall_step tr (syscall_init c n)))"
  shows "\<exists>pre env1 i mid env2 post.
    tr = pre @ Sys_enter env1 i # mid @ Sys_exit env2 # post \<and> env_cpu env1 = env_cpu env2 \<and>
    ev_syscall_id x = ucast i \<and> ev_pid x = hi32 (env_pid_tgid env2) \<and>
    ev_tid x = lo32 (env_pid_tgid env2) \<and> ev_comm x = env_comm env2 \<and>
    ev_delay_ns x = env_ktime env2 div 1000 - env_ktime env1 div 1000 \<and>
    (target_pid c = 0 \<or> ev_pid x = target_pid c) \<and>
    min_latency_ns c \<le> ev_delay_ns x * 1000 \<and>
    (\<forall>e \<in> set mid. \<not> syscall_on c n e (env_cpu env1))"
proof -
  obtain pre e1 mid e2 post k v where t: "tr = pre @ e1 # mid @ e2 # post"
    and s: "syscall_starts c n e1 = Some (k, v)" and r: "syscall_reports c e2 k v = Some x"
    and m: "\<forall>e \<in> set mid. \<not> syscall_on c n e k \<and> (\<forall>v'. syscall_starts c n e \<noteq> Some (k, v'))"
    using syscall_pair.reported_pair [OF admissible_True syscall_inv_init _ _ assms]
    by auto
  obtain env1 i where e1: "e1 = Sys_enter env1 i" using s by (cases e1) auto
  obtain env2 where e2: "e2 = Sys_exit env2" using r by (cases e2) auto
  have v: "v = \<lparr>start_ts = env_ktime env1 div 1000, syscall_id = ucast i\<rparr>" "k = env_cpu env1"
    using s e1 by (auto split: if_splits)
  have x: "x = syscall_event_of env2 v" "k = env_cpu env2"
    "target_pid c = 0 \<or> hi32 (env_pid_tgid env2) = target_pid c"
    "min_latency_ns c = 0 \<or> min_latency_ns c \<le> (env_ktime env2 div 1000 - start_ts v) * 1000"
    using r e2 by (auto split: if_splits)
  have p: "tr = pre @ Sys_enter env1 i # mid @ Sys_exit env2 # post" using t e1 e2 by simp
  have f: "ev_syscall_id x = ucast i" "ev_delay_ns x = env_ktime env2 div 1000 - env_ktime env1 div 1000"
    "ev_pid x = hi32 (env_pid_tgid env2)" "ev_tid x = lo32 (env_pid_tgid env2)" "ev_comm x = env_comm env2"
    using x(1) v(1) by (simp_all add: syscall_event_of_def)
  have d: "min_latency_ns c \<le> ev_delay_ns x * 1000"
    using x(4) f(2) v(1) by (cases "min_latency_ns c = 0") simp_all
  show ?thesis
    by (intro exI conjI, rule p) (use v(2) x f d m in simp_all)
qed

theorem syscall_reported_call_witness:
  "\<exists>pre env1 i mid env2 post. syscall_moved_run = pre @ Sys_enter env1 i # mid @ Sys_exit env2 # post
    \<and> 5000 = env_ktime env2 div 1000 - env_ktime env1 div 1000"
proof -
  let ?x = "hd (rb (fold syscall_step syscall_moved_run (syscall_init syscall_demo_ctrl 2)))"
  have "ev_delay_ns ?x = 5000" by (simp add: syscall_moved_rb)
  moreover have "?x \<in> set (rb (fold syscall_step syscall_moved_run (syscall_init syscall_demo_ctrl 2)))"
    by (simp add: syscall_moved_rb)
  ultimately show ?thesis
    using syscall_reported_call [of ?x syscall_moved_run syscall_demo_ctrl 2] by metis
qed

text \<open>The context a firing runs in.\<close>

fun syscall_env :: "syscall_firing \<Rightarrow> bpf_env" where
  "syscall_env (Sys_enter env i) = env"
| "syscall_env (Sys_exit env) = env"



text \<open>
  the shared record is a function of the events submitted: the panel appears
  exactly when there were any (fewer than \<open>2^64\<close>), counts them, averages their delays, and shows the largest
  delay with the process, name and call number of an event that had it.
\<close>

lemma syscall_panel_true:
  fixes c n tr
  defines "s \<equiv> fold syscall_step tr (syscall_init c n)"
  assumes "length (rb s) < 2 ^ 64"
  shows "case syscall_print_stats (stats_map s) of
      None \<Rightarrow> rb s = []
    | Some p \<Rightarrow> rb s \<noteq> [] \<and> panel_count p = of_nat (length (rb s)) \<and>
        panel_avg p = sum_list (map ev_delay_ns (rb s)) div of_nat (length (rb s)) \<and>
        (\<forall>x \<in> set (rb s). ev_delay_ns x \<le> fst (panel_max p)) \<and>
        (fst (panel_max p) = 0 \<or> (\<exists>x \<in> set (rb s).
           panel_max p = (ev_delay_ns x, ev_pid x, ev_comm x, ev_syscall_id x)))"
proof -
  let ?st = "fold syscall_stats_upd (rb s) syscall_zero"
  have st: "stats_map s = Some ?st" unfolding s_def by (rule syscall_sum.run_summary) simp_all
  note rep = syscall_rec.summary_report [of "rb s"]
  have z: "count ?st = 0 \<longleftrightarrow> rb s = []"
    using rep assms(2) of_nat_zero_iff [OF assms(2)] by simp
  have "max_ns ?st = 0 \<or> (\<exists>x \<in> set (rb s). (max_ns ?st, max_pid ?st, max_comm ?st, max_syscall_id ?st) =
      (ev_delay_ns x, ev_pid x, ev_comm x, ev_syscall_id x))"
    using rep by auto
  then show ?thesis
    using rep z by (simp add: st syscall_print_stats_def)
qed

end
