(* ===== verification/CasMax.thy ===== *)
theory CasMax
  imports Prelude
begin

section \<open>A maximum kept by compare-and-swap\<close>

text \<open>
  \<open>stats_update_max\<close> of \<^verbatim>\<open>ipc/msgqueue/msgqueue.bpf.c\<close>: at most 16 rounds of reading the field, leaving if the candidate is not
  larger, and swapping if nobody changed the field since. One step is one access to the shared field, so that the CPUs that
  run it at the same time interleave between the accesses.
\<close>

text \<open>
  Where a CPU stands: about to read with so many rounds left, about to swap with the value it read, or finished: it stored its candidate, it
  saw a value as large, or its rounds are used up.
\<close>

datatype cas_pc = Round nat | Loaded nat u64 | Swapped | Kept | Gave_up

fun cas_step :: "u64 \<Rightarrow> cas_pc \<Rightarrow> u64 \<Rightarrow> cas_pc \<times> u64" where
  "cas_step candidate (Round 0) v = (Gave_up, v)"
| "cas_step candidate (Round (Suc n)) v = (let old = v in if candidate \<le> old then Kept else Loaded n old, v)"
| "cas_step candidate (Loaded n old) v = (if v = old then (Swapped, candidate) else (Round n, v))"
| "cas_step candidate pc v = (pc, v)"

text \<open>A call nobody interferes with; its 16 rounds are at most 33 steps.\<close>

definition stats_update_max :: "u64 \<Rightarrow> u64 \<Rightarrow> u64" where
  "stats_update_max candidate v = snd (((\<lambda>(pc, v). cas_step candidate pc v) ^^ 33) (Round 16, v))"

text \<open>CPUs with their candidates, and the field they share.\<close>

inductive cas_cpus :: "(u64 \<times> cas_pc) list \<times> u64 \<Rightarrow> (u64 \<times> cas_pc) list \<times> u64 \<Rightarrow> bool" where
  turn: "i < length us \<Longrightarrow> us ! i = (candidate, pc) \<Longrightarrow> cas_step candidate pc v = (pc', v') \<Longrightarrow>
    cas_cpus (us, v) (us[i := (candidate, pc')], v')"

inductive cas_reaches :: "(u64 \<times> cas_pc) list \<times> u64 \<Rightarrow> (u64 \<times> cas_pc) list \<times> u64 \<Rightarrow> bool" where
  refl: "cas_reaches s s"
| step: "cas_reaches s t \<Longrightarrow> cas_cpus t u \<Longrightarrow> cas_reaches s u"

inductive_cases cas_cpusE: "cas_cpus (us, v) (us', v')"

definition cas_start :: "u64 list \<Rightarrow> (u64 \<times> cas_pc) list" where
  "cas_start candidates = map (\<lambda>c. (c, Round 16)) candidates"

definition cas_done :: "(u64 \<times> cas_pc) list \<Rightarrow> bool" where
  "cas_done us \<longleftrightarrow> list_all (\<lambda>u. snd u \<in> {Swapped, Kept, Gave_up}) us"

definition swaps :: "(u64 \<times> cas_pc) list \<Rightarrow> nat" where
  "swaps us = length (filter (\<lambda>u. snd u = Swapped) us)"

text \<open>An interleaving given by the CPUs in turn.\<close>

fun cas_turns :: "nat list \<Rightarrow> (u64 \<times> cas_pc) list \<times> u64 \<Rightarrow> (u64 \<times> cas_pc) list \<times> u64" where
  "cas_turns [] s = s"
| "cas_turns (i # is) (us, v) =
     (if i < length us
      then (case us ! i of (c, pc) \<Rightarrow> case cas_step c pc v of (pc', v') \<Rightarrow> cas_turns is (us[i := (c, pc')], v'))
      else cas_turns is (us, v))"

section \<open>Lemmas\<close>

lemma cas_reaches_trans: "cas_reaches t u \<Longrightarrow> cas_reaches s t \<Longrightarrow> cas_reaches s u"
  by (induction rule: cas_reaches.induct) (auto intro: cas_reaches.intros)

lemma cas_turns_reaches: "cas_reaches s (cas_turns is s)"
proof (induction "is" s rule: cas_turns.induct)
  case (2 i "is" us v)
  show ?case
  proof (cases "i < length us")
    case True
    obtain c pc where u: "us ! i = (c, pc)" by (cases "us ! i")
    obtain pc' v' where d: "cas_step c pc v = (pc', v')" by (cases "cas_step c pc v")
    have "cas_reaches (us, v) (us[i := (c, pc')], v')"
      using cas_cpus.turn [OF True u d] by (rule cas_reaches.step [OF cas_reaches.refl])
    then show ?thesis using 2(1) [OF True, of c pc pc' v'] u d True cas_reaches_trans by simp
  qed (use 2(2) in simp)
qed (simp add: cas_reaches.refl)

lemma stats_update_max_calm [simp]: "stats_update_max cand v = max v cand"
proof -
  let ?f = "\<lambda>(pc, v). cas_step cand pc v"
  have fin: "(?f ^^ n) (pc, w) = (pc, w)" if "pc \<in> {Kept, Swapped}" for n pc w
    using that by (induction n) auto
  have "(?f ^^ 33) (Round 16, v) = (?f ^^ 31) (?f (?f (Round (Suc 15), v)))"
    by (simp add: numeral_eq_Suc funpow_swap1)
  moreover have "cas_step cand (Round 16) v = (if cand \<le> v then Kept else Loaded 15 v, v)"
    using cas_step.simps(2) [of cand 15 v] by simp
  ultimately show ?thesis using fin by (cases "cand \<le> v") (auto simp: stats_update_max_def max_def)
qed

lemma swaps_update:
  "i < length us \<Longrightarrow> snd (us ! i) \<noteq> Swapped \<Longrightarrow> swaps (us[i := u]) = swaps us + of_bool (snd u = Swapped)"
proof (induction us arbitrary: i)
  case (Cons w us)
  then show ?case by (cases i) (auto simp: swaps_def)
qed simp

text \<open>
  What holds of a CPU when so many swaps have been made and the field is \<open>v\<close>. The rounds a CPU has lost are no more than the
  swaps, because the field has to change for a round to be lost, and it never returns to an old value.
\<close>

fun pc_ok :: "nat \<Rightarrow> u64 \<Rightarrow> u64 \<Rightarrow> cas_pc \<Rightarrow> bool" where
  "pc_ok k v c (Round n) \<longleftrightarrow> 16 \<le> k + n"
| "pc_ok k v c (Loaded n old) \<longleftrightarrow> old \<le> v \<and> old < c \<and> 15 \<le> k + n \<and> (old \<noteq> v \<longrightarrow> 16 \<le> k + n)"
| "pc_ok k v c Swapped \<longleftrightarrow> c \<le> v"
| "pc_ok k v c Kept \<longleftrightarrow> c \<le> v"
| "pc_ok k v c Gave_up \<longleftrightarrow> 16 \<le> k"

lemma pc_ok_mono:
  "pc_ok k v c pc \<Longrightarrow> k \<le> k' \<Longrightarrow> v \<le> v' \<Longrightarrow> (v \<noteq> v' \<longrightarrow> k < k') \<Longrightarrow> pc_ok k' v' c pc"
  by (cases pc) auto

lemma cas_step_ok:
  assumes "pc_ok k v c pc" and "cas_step c pc v = (pc', v')"
  shows "v \<le> v'" and "v' = v \<or> v' = c" and "v \<noteq> v' \<Longrightarrow> pc' = Swapped \<and> pc \<noteq> Swapped"
    and "pc = Swapped \<Longrightarrow> pc' = Swapped \<and> v' = v" and "pc_ok (k + of_bool (pc' = Swapped \<and> pc \<noteq> Swapped)) v' c pc'"
  using assms by (cases "(c, pc, v)" rule: cas_step.cases; auto simp: Let_def split: if_splits)+

definition cas_inv :: "u64 \<Rightarrow> u64 list \<Rightarrow> (u64 \<times> cas_pc) list \<Rightarrow> u64 \<Rightarrow> bool" where
  "cas_inv v0 cands us v \<longleftrightarrow> map fst us = cands \<and> v0 \<le> v \<and> v \<in> insert v0 (set cands)
     \<and> (\<forall>u \<in> set us. pc_ok (swaps us) v (fst u) (snd u))"

lemma cas_cpus_inv:
  assumes "cas_inv v0 cands us v" and "cas_cpus (us, v) (us', v')"
  shows "cas_inv v0 cands us' v' \<and> v \<le> v'"
  using assms(2)
proof (rule cas_cpusE)
  fix i c pc pc'
  assume us': "us' = us[i := (c, pc')]" and i: "i < length us" and u: "us ! i = (c, pc)" and st: "cas_step c pc v = (pc', v')"
  have "(c, pc) \<in> set us" using i u by (metis nth_mem)
  then have ok: "pc_ok (swaps us) v c pc" and c: "c \<in> set cands"
    using assms(1) unfolding cas_inv_def by (force, metis fst_conv image_eqI set_map)
  note step = cas_step_ok [OF ok st]
  have k: "swaps us' = swaps us + of_bool (pc' = Swapped \<and> pc \<noteq> Swapped)"
  proof (cases "pc = Swapped")
    case True
    then show ?thesis using step(4) u us' i by (simp add: list_update_same_conv [THEN iffD2])
  next
    case False
    then show ?thesis using swaps_update [OF i, of "(c, pc')"] u us' by simp
  qed
  have "pc_ok (swaps us') v' (fst w) (snd w)" if w: "w \<in> set us'" for w
  proof (cases "w = (c, pc')")
    case True
    then show ?thesis using step(5) k by simp
  next
    case False
    then have "w \<in> set us" using w set_update_subset_insert [of us i "(c, pc')"] us' by auto
    then have "pc_ok (swaps us) v (fst w) (snd w)" using assms(1) by (simp add: cas_inv_def)
    then show ?thesis using step(1,3) k by (rule_tac pc_ok_mono) auto
  qed
  moreover have "map fst us' = cands"
    using assms(1) i u unfolding us' cas_inv_def by (metis fst_conv list_update_id map_update)
  ultimately show ?thesis using assms(1) step(1,2) c by (auto simp: cas_inv_def)
qed

lemma cas_reaches_inv:
  "cas_reaches s t \<Longrightarrow> cas_inv v0 cands (fst s) (snd s) \<Longrightarrow> cas_inv v0 cands (fst t) (snd t)"
proof (induction rule: cas_reaches.induct)
  case (step s t u)
  then show ?case using cas_cpus_inv by (metis prod.collapse)
qed simp

lemma cas_start_inv: "cas_inv v0 cands (cas_start cands) v0"
  by (auto simp: cas_inv_def cas_start_def comp_def)

text \<open>A CPU that gave up is none of those that swapped.\<close>

lemma gave_up_swaps: "(c, Gave_up) \<in> set us \<Longrightarrow> swaps us < length us"
  unfolding swaps_def by (rule length_filter_less) auto

section \<open>Properties\<close>

text \<open>
  C11: however many CPUs update the maximum at the same time and however their accesses interleave: no access lowers the field, it
  always has its first value or one of the candidates, an update that ended without giving up is no larger than the field, and one
  gives up only after 16 others have stored a value. So when at most 16 updates run and all have ended, the field is exactly
  the largest of its first value and the candidates. A call nobody interferes with stores the larger of the two.
\<close>

theorem stats_update_max_correct:
  assumes "cas_reaches (cas_start cands, v0) (us, v)"
  shows "v0 \<le> v \<and> v \<in> insert v0 (set cands)
    \<and> (\<forall>us' v'. cas_cpus (us, v) (us', v') \<longrightarrow> v \<le> v')
    \<and> (\<forall>(c, pc) \<in> set us. (pc \<in> {Swapped, Kept} \<longrightarrow> c \<le> v) \<and> (pc = Gave_up \<longrightarrow> 16 \<le> swaps us))
    \<and> (length cands \<le> 16 \<and> cas_done us \<longrightarrow> v = Max (insert v0 (set cands)))
    \<and> stats_update_max c0 v0 = max v0 c0"
proof -
  have inv: "cas_inv v0 cands us v" using cas_reaches_inv [OF assms] cas_start_inv by simp
  then have ok: "pc_ok (swaps us) v c pc" if "(c, pc) \<in> set us" for c pc using that by (auto simp: cas_inv_def)
  have each: "\<forall>(c, pc) \<in> set us. (pc \<in> {Swapped, Kept} \<longrightarrow> c \<le> v) \<and> (pc = Gave_up \<longrightarrow> 16 \<le> swaps us)"
    using ok by (auto dest!: ok)
  have "v = Max (insert v0 (set cands))" if "length cands \<le> 16" "cas_done us"
  proof -
    have n: "length us = length cands" using inv by (auto simp: cas_inv_def)
    have "c \<le> v" if "c \<in> set cands" for c
    proof -
      have "c \<in> fst ` set us" using inv that unfolding cas_inv_def by (metis set_map)
      then obtain pc where u: "(c, pc) \<in> set us" by auto
      have "pc \<noteq> Gave_up" using gave_up_swaps [of c us] each u n \<open>length cands \<le> 16\<close> by fastforce
      then have "pc \<in> {Swapped, Kept}" using u \<open>cas_done us\<close> by (force simp: cas_done_def list_all_iff)
      then show ?thesis using each u by blast
    qed
    then show ?thesis using inv by (intro Max_eqI [symmetric]) (auto simp: cas_inv_def)
  qed
  then show ?thesis using inv each cas_cpus_inv [OF inv] by (auto simp: cas_inv_def)
qed

theorem stats_update_max_correct_witness:
  "\<exists>us. cas_reaches (cas_start [5, 9], 3) (us, 9) \<and> (9 :: u64) = Max {3, 5, 9}"
proof -
  let ?s = "(cas_start [5, 9], 3)"
  have e: "cas_turns [0, 1, 0, 1, 1, 1] ?s = ([(5, Swapped), (9, Swapped)], 9)" by code_simp
  then have r: "cas_reaches ?s ([(5, Swapped), (9, Swapped)], 9)" using cas_turns_reaches [of ?s "[0, 1, 0, 1, 1, 1]"] by metis
  then show ?thesis using stats_update_max_correct [OF r] by (auto simp: cas_done_def)
qed

end
