(* ===== verification/MsgQueue.thy ===== *)
theory MsgQueue
  imports Monitor PidNs RunLoop Logger CasMax
begin

section \<open>ipc/msgqueue: residence of POSIX messages\<close>

text \<open>
  \<^verbatim>\<open>ipc/msgqueue\<close>: how long a message stays in a POSIX message queue. A message is followed by its
  address: \<open>mq_load_msg_exit\<close> records it as pending, \<open>mq_msg_insert_exit\<close> moves it to the queued
  messages with the time of insertion, \<open>mq_send_exit\<close> moves one that was never inserted to the
  directly delivered ones, and \<open>consume_message\<close> takes it from wherever it is when it is copied
  out or freed. The contexts of the sending and of the receiving threads are kept in two
  more maps. The statistics are one shared copy, updated atomically.
\<close>

definition MQ_DELIVERY_QUEUED :: u32 where
  "MQ_DELIVERY_QUEUED = 0"

definition MQ_DELIVERY_DIRECT :: u32 where
  "MQ_DELIVERY_DIRECT = 1"

definition MQ_MAX_INFLIGHT_CALLS :: nat where
  "MQ_MAX_INFLIGHT_CALLS = 8192"

definition MQ_MAX_TRACKED_MESSAGES :: nat where
  "MQ_MAX_TRACKED_MESSAGES = 16384"

record Msgqueue_ctrl =
  enable :: bool
  min_delay_ns :: u64
  target_pid :: s32
  pidns_dev :: u64
  pidns_ino :: u64

record Msgqueue_event =
  ev_ts_ns :: u64
  ev_residence_ns :: u64
  ev_msg_len :: u64
  ev_sender_pid :: s32
  ev_receiver_pid :: s32
  ev_send_mqdes :: s32
  ev_recv_mqdes :: s32
  ev_msg_prio :: u32
  ev_delivery_type :: u32
  ev_sender_comm :: cstr
  ev_receiver_comm :: cstr

record Msgqueue_stats =
  queued_count :: u64
  queued_total_ns :: u64
  queued_max_ns :: u64
  direct_count :: u64
  unmatched_count :: u64
  tracking_drop_count :: u64
  ringbuf_drop_count :: u64

record mq_send_ctx =
  sc_msg_key :: u64
  sc_msg_len :: u64
  sc_sender_pid :: s32
  sc_mqdes :: s32
  sc_msg_prio :: u32
  sc_sender_comm :: cstr

record mq_recv_ctx =
  rc_receiver_pid :: s32
  rc_mqdes :: s32
  rc_receiver_comm :: cstr

record mq_pending_msg =
  pm_msg_len :: u64
  pm_sender_pid :: s32
  pm_mqdes :: s32
  pm_msg_prio :: u32
  pm_sender_comm :: cstr

record mq_queued_msg =
  qm_enqueue_ns :: u64
  qm_msg_len :: u64
  qm_sender_pid :: s32
  qm_mqdes :: s32
  qm_msg_prio :: u32
  qm_sender_comm :: cstr

text \<open>
  The maps: the contexts of threads inside a call are HASH maps by the global \<open>pid_tgid\<close>, the three
  message maps are LRU maps by the address of the message.
\<close>

record Msgqueue_state =
  ctrl_map :: "Msgqueue_ctrl option"
  stats_map :: "Msgqueue_stats option"
  active_sends :: "(u64, mq_send_ctx) bmap"
  active_receives :: "(u64, mq_recv_ctx) bmap"
  pending_messages :: "(u64, mq_pending_msg) bmap"
  queued_messages :: "(u64, mq_queued_msg) bmap"
  direct_messages :: "(u64, mq_pending_msg) bmap"
  rb :: "Msgqueue_event list"

definition current_tgid :: "bpf_env \<Rightarrow> Msgqueue_ctrl \<Rightarrow> s32" where
  "current_tgid env ctrl = hi32 (app_current_pid_tgid_ns env (pidns_dev ctrl) (pidns_ino ctrl))"

definition valid_msg_ptr :: "u64 \<Rightarrow> bool" where
  "valid_msg_ptr addr \<longleftrightarrow> addr \<noteq> 0 \<and> addr < - 4095"

definition stats_add :: "u64 \<Rightarrow> u64 \<Rightarrow> u64" where
  "stats_add value delta = value + delta"

definition pid_matches :: "Msgqueue_ctrl \<Rightarrow> s32 \<Rightarrow> s32 \<Rightarrow> bool" where
  "pid_matches ctrl sender_pid receiver_pid \<longleftrightarrow>
     target_pid ctrl = 0 \<or> target_pid ctrl = sender_pid \<or> target_pid ctrl = receiver_pid"

text \<open>\<open>if (stats) ...\<close> on the shared statistics.\<close>

definition mq_stat :: "(Msgqueue_stats \<Rightarrow> Msgqueue_stats) \<Rightarrow> Msgqueue_state \<Rightarrow> Msgqueue_state" where
  "mq_stat f s = s\<lparr>stats_map := map_option f (stats_map s)\<rparr>"

definition mq_track_drop :: "Msgqueue_state \<Rightarrow> Msgqueue_state" where
  "mq_track_drop s =
     mq_stat (\<lambda>c. c\<lparr>tracking_drop_count := stats_add (tracking_drop_count c) 1\<rparr>) s"

text \<open>The two events.\<close>

definition queued_event :: "bpf_env \<Rightarrow> mq_queued_msg \<Rightarrow> mq_recv_ctx \<Rightarrow> Msgqueue_event" where
  "queued_event env queued receiver =
     \<lparr>ev_ts_ns = env_ktime env, ev_residence_ns = env_ktime env - qm_enqueue_ns queued,
      ev_msg_len = qm_msg_len queued, ev_sender_pid = qm_sender_pid queued,
      ev_receiver_pid = rc_receiver_pid receiver, ev_send_mqdes = qm_mqdes queued,
      ev_recv_mqdes = rc_mqdes receiver, ev_msg_prio = qm_msg_prio queued,
      ev_delivery_type = MQ_DELIVERY_QUEUED, ev_sender_comm = qm_sender_comm queued,
      ev_receiver_comm = rc_receiver_comm receiver\<rparr>"

definition direct_event :: "bpf_env \<Rightarrow> mq_pending_msg \<Rightarrow> mq_recv_ctx \<Rightarrow> Msgqueue_event" where
  "direct_event env pending receiver =
     \<lparr>ev_ts_ns = env_ktime env, ev_residence_ns = 0,
      ev_msg_len = pm_msg_len pending, ev_sender_pid = pm_sender_pid pending,
      ev_receiver_pid = rc_receiver_pid receiver, ev_send_mqdes = pm_mqdes pending,
      ev_recv_mqdes = rc_mqdes receiver, ev_msg_prio = pm_msg_prio pending,
      ev_delivery_type = MQ_DELIVERY_DIRECT, ev_sender_comm = pm_sender_comm pending,
      ev_receiver_comm = rc_receiver_comm receiver\<rparr>"

definition submit_queued ::
  "bpf_env \<Rightarrow> mq_queued_msg \<Rightarrow> mq_recv_ctx \<Rightarrow> Msgqueue_state \<Rightarrow> Msgqueue_state" where
  "submit_queued env queued receiver s =
     (case ctrl_map s of None \<Rightarrow> s
      | Some ctrl \<Rightarrow>
        if \<not> enable ctrl then s
        else if \<not> pid_matches ctrl (qm_sender_pid queued) (rc_receiver_pid receiver) then s
        else let
          residence_ns = env_ktime env - qm_enqueue_ns queued;
          s1 = mq_stat (\<lambda>c. c\<lparr>queued_count := stats_add (queued_count c) 1,
                 queued_total_ns := stats_add (queued_total_ns c) residence_ns,
                 queued_max_ns := stats_update_max residence_ns (queued_max_ns c)\<rparr>) s
        in if min_delay_ns ctrl \<noteq> 0 \<and> residence_ns < min_delay_ns ctrl then s1
        else if \<not> env_reserve_ok env
        then mq_stat (\<lambda>c. c\<lparr>ringbuf_drop_count := stats_add (ringbuf_drop_count c) 1\<rparr>) s1
        else s1\<lparr>rb := rb s1 @ [queued_event env queued receiver]\<rparr>)"

definition submit_direct ::
  "bpf_env \<Rightarrow> mq_pending_msg \<Rightarrow> mq_recv_ctx \<Rightarrow> Msgqueue_state \<Rightarrow> Msgqueue_state" where
  "submit_direct env pending receiver s =
     (case ctrl_map s of None \<Rightarrow> s
      | Some ctrl \<Rightarrow>
        if \<not> enable ctrl \<or> \<not> pid_matches ctrl (pm_sender_pid pending) (rc_receiver_pid receiver)
        then s
        else let
          s1 = mq_stat (\<lambda>c. c\<lparr>direct_count := stats_add (direct_count c) 1\<rparr>) s
        in if min_delay_ns ctrl \<noteq> 0 then s1
        else if \<not> env_reserve_ok env
        then mq_stat (\<lambda>c. c\<lparr>ringbuf_drop_count := stats_add (ringbuf_drop_count c) 1\<rparr>) s1
        else s1\<lparr>rb := rb s1 @ [direct_event env pending receiver]\<rparr>)"

definition send_ctx_of :: "bpf_env \<Rightarrow> Msgqueue_ctrl \<Rightarrow> s32 \<Rightarrow> u64 \<Rightarrow> u32 \<Rightarrow> mq_send_ctx" where
  "send_ctx_of env ctrl mqdes msg_len msg_prio =
     \<lparr>sc_msg_key = 0, sc_msg_len = msg_len, sc_sender_pid = current_tgid env ctrl,
      sc_mqdes = mqdes, sc_msg_prio = msg_prio, sc_sender_comm = env_comm env\<rparr>"

definition mq_send_enter ::
  "bpf_env \<Rightarrow> s32 \<Rightarrow> u64 \<Rightarrow> u32 \<Rightarrow> Msgqueue_state \<Rightarrow> Msgqueue_state" where
  "mq_send_enter env mqdes msg_len msg_prio s =
     (case ctrl_map s of None \<Rightarrow> s
      | Some ctrl \<Rightarrow>
        if \<not> enable ctrl then s
        else let pid_tgid = env_pid_tgid env; sender_pid = current_tgid env ctrl in
        if sender_pid = 0 then s
        else let
          send = send_ctx_of env ctrl mqdes msg_len msg_prio
        in (case hash_update MQ_MAX_INFLIGHT_CALLS (env_update_ok env) pid_tgid send
                   (active_sends s) of
              None \<Rightarrow> mq_track_drop s
            | Some m \<Rightarrow> s\<lparr>active_sends := m\<rparr>))"

definition pending_of :: "mq_send_ctx \<Rightarrow> mq_pending_msg" where
  "pending_of send = \<lparr>pm_msg_len = sc_msg_len send, pm_sender_pid = sc_sender_pid send,
     pm_mqdes = sc_mqdes send, pm_msg_prio = sc_msg_prio send,
     pm_sender_comm = sc_sender_comm send\<rparr>"

definition mq_load_msg_exit :: "bpf_env \<Rightarrow> u64 \<Rightarrow> Msgqueue_state \<Rightarrow> Msgqueue_state" where
  "mq_load_msg_exit env ret s =
     (if \<not> valid_msg_ptr ret then s
      else let pid_tgid = env_pid_tgid env in
      case map_of (active_sends s) pid_tgid of
        None \<Rightarrow> s
      | Some send \<Rightarrow>
          (case lru_update MQ_MAX_TRACKED_MESSAGES (env_update_ok env, env_evict env) ret
                  (pending_of send) (pending_messages s) of
             None \<Rightarrow> mq_track_drop s
           | Some m \<Rightarrow> s\<lparr>pending_messages := m,
               active_sends := AList.update pid_tgid (send\<lparr>sc_msg_key := ret\<rparr>) (active_sends s)\<rparr>))"

definition queued_of :: "bpf_env \<Rightarrow> mq_pending_msg \<Rightarrow> mq_queued_msg" where
  "queued_of env pending = \<lparr>qm_enqueue_ns = env_ktime env, qm_msg_len = pm_msg_len pending,
     qm_sender_pid = pm_sender_pid pending, qm_mqdes = pm_mqdes pending,
     qm_msg_prio = pm_msg_prio pending, qm_sender_comm = pm_sender_comm pending\<rparr>"

definition mq_msg_insert_exit :: "bpf_env \<Rightarrow> u64 \<Rightarrow> s32 \<Rightarrow> Msgqueue_state \<Rightarrow> Msgqueue_state" where
  "mq_msg_insert_exit env msg ret s =
     (if ret \<noteq> 0 \<or> msg = 0 then s
      else case map_of (pending_messages s) msg of
        None \<Rightarrow> s
      | Some pending \<Rightarrow> let
          s1 = (case lru_update MQ_MAX_TRACKED_MESSAGES (env_update_ok env, env_evict env) msg
                       (queued_of env pending) (queued_messages s) of
                  None \<Rightarrow> mq_track_drop s
                | Some m \<Rightarrow> s\<lparr>queued_messages := m\<rparr>)
        in s1\<lparr>pending_messages := bpf_delete msg (pending_messages s1)\<rparr>)"

definition recv_ctx_of :: "bpf_env \<Rightarrow> Msgqueue_ctrl \<Rightarrow> s32 \<Rightarrow> mq_recv_ctx" where
  "recv_ctx_of env ctrl mqdes = \<lparr>rc_receiver_pid = current_tgid env ctrl, rc_mqdes = mqdes,
     rc_receiver_comm = env_comm env\<rparr>"

definition mq_recv_enter :: "bpf_env \<Rightarrow> s32 \<Rightarrow> Msgqueue_state \<Rightarrow> Msgqueue_state" where
  "mq_recv_enter env mqdes s =
     (case ctrl_map s of None \<Rightarrow> s
      | Some ctrl \<Rightarrow>
        if \<not> enable ctrl then s
        else if current_tgid env ctrl = 0 then s
        else (case hash_update MQ_MAX_INFLIGHT_CALLS (env_update_ok env) (env_pid_tgid env)
                     (recv_ctx_of env ctrl mqdes) (active_receives s) of
                None \<Rightarrow> mq_track_drop s
              | Some m \<Rightarrow> s\<lparr>active_receives := m\<rparr>))"

definition consume_message :: "bpf_env \<Rightarrow> u64 \<Rightarrow> bool \<Rightarrow> Msgqueue_state \<Rightarrow> Msgqueue_state" where
  "consume_message env msg count_unmatched s =
     (if msg = 0 then s
      else let receiver = map_of (active_receives s) (env_pid_tgid env) in
      case map_of (queued_messages s) msg of
        Some queued \<Rightarrow> let
            s1 = s\<lparr>queued_messages := bpf_delete msg (queued_messages s)\<rparr>
          in (case receiver of None \<Rightarrow> s1 | Some r \<Rightarrow> submit_queued env queued r s1)
      | None \<Rightarrow>
        (case map_of (direct_messages s) msg of
          Some direct \<Rightarrow> let
              s1 = s\<lparr>direct_messages := bpf_delete msg (direct_messages s)\<rparr>
            in (case receiver of None \<Rightarrow> s1 | Some r \<Rightarrow> submit_direct env direct r s1)
        | None \<Rightarrow>
          (case (map_of (pending_messages s) msg, receiver) of
            (Some direct, Some r) \<Rightarrow>
              submit_direct env direct r (s\<lparr>pending_messages := bpf_delete msg (pending_messages s)\<rparr>)
          | _ \<Rightarrow>
            (case receiver of None \<Rightarrow> s
             | Some r \<Rightarrow>
               if count_unmatched
               then (case ctrl_map s of None \<Rightarrow> s
                     | Some ctrl \<Rightarrow>
                       if enable ctrl \<and> (target_pid ctrl = 0 \<or> target_pid ctrl = rc_receiver_pid r)
                       then mq_stat (\<lambda>c. c\<lparr>unmatched_count := stats_add (unmatched_count c) 1\<rparr>) s
                       else s)
               else s))))"

definition mq_store_msg_enter :: "bpf_env \<Rightarrow> u64 \<Rightarrow> Msgqueue_state \<Rightarrow> Msgqueue_state" where
  "mq_store_msg_enter env msg s = consume_message env msg True s"

definition mq_free_msg_enter :: "bpf_env \<Rightarrow> u64 \<Rightarrow> Msgqueue_state \<Rightarrow> Msgqueue_state" where
  "mq_free_msg_enter env msg s = consume_message env msg False s"

definition mq_send_exit :: "bpf_env \<Rightarrow> s32 \<Rightarrow> Msgqueue_state \<Rightarrow> Msgqueue_state" where
  "mq_send_exit env ret s =
     (let pid_tgid = env_pid_tgid env in
      case map_of (active_sends s) pid_tgid of
        None \<Rightarrow> s
      | Some send \<Rightarrow> let
          k = sc_msg_key send;
          s1 = (if k = 0 then s
                else case map_of (pending_messages s) k of
                  None \<Rightarrow> s
                | Some pending \<Rightarrow> let
                    s0 = (if ret = 0
                          then (case lru_update MQ_MAX_TRACKED_MESSAGES
                                       (env_update_ok env, env_evict env) k pending
                                       (direct_messages s) of
                                  None \<Rightarrow> mq_track_drop s
                                | Some m \<Rightarrow> s\<lparr>direct_messages := m\<rparr>)
                          else s)
                  in s0\<lparr>pending_messages := bpf_delete k (pending_messages s0)\<rparr>)
        in s1\<lparr>active_sends := bpf_delete pid_tgid (active_sends s1)\<rparr>)"

definition mq_recv_exit :: "bpf_env \<Rightarrow> Msgqueue_state \<Rightarrow> Msgqueue_state" where
  "mq_recv_exit env s = s\<lparr>active_receives := bpf_delete (env_pid_tgid env) (active_receives s)\<rparr>"

datatype mq_firing =
    Send_enter bpf_env s32 u64 u32
  | Load_msg bpf_env u64
  | Msg_insert bpf_env u64 s32
  | Recv_enter bpf_env s32
  | Store_msg bpf_env u64
  | Free_msg bpf_env u64
  | Send_exit bpf_env s32
  | Recv_exit bpf_env

fun mq_step :: "mq_firing \<Rightarrow> Msgqueue_state \<Rightarrow> Msgqueue_state" where
  "mq_step (Send_enter env mqdes len prio) s = mq_send_enter env mqdes len prio s"
| "mq_step (Load_msg env ret) s = mq_load_msg_exit env ret s"
| "mq_step (Msg_insert env msg ret) s = mq_msg_insert_exit env msg ret s"
| "mq_step (Recv_enter env mqdes) s = mq_recv_enter env mqdes s"
| "mq_step (Store_msg env msg) s = mq_store_msg_enter env msg s"
| "mq_step (Free_msg env msg) s = mq_free_msg_enter env msg s"
| "mq_step (Send_exit env ret) s = mq_send_exit env ret s"
| "mq_step (Recv_exit env) s = mq_recv_exit env s"

subsection \<open>The user side\<close>

text \<open>
  The panel: the statistics and the average residence. \<open>None\<close>: the map cannot be read, or
  every count is 0 and nothing is printed.
\<close>

record Msgqueue_panel =
  panel_stats :: Msgqueue_stats
  panel_avg :: "u64 option"

definition mq_print_stats :: "Msgqueue_stats option \<Rightarrow> Msgqueue_panel option" where
  "mq_print_stats found =
     (case found of None \<Rightarrow> None
      | Some stats \<Rightarrow>
        if queued_count stats = 0 \<and> direct_count stats = 0 \<and> unmatched_count stats = 0 \<and>
           tracking_drop_count stats = 0 \<and> ringbuf_drop_count stats = 0 then None
        else Some \<lparr>panel_stats = stats,
          panel_avg = (if queued_count stats \<noteq> 0
                       then Some (queued_total_ns stats div queued_count stats) else None)\<rparr>)"

subsection \<open>The run function\<close>

text \<open>
  The configuration \<open>msgqueue_run\<close> builds from its arguments, and \<open>msgqueue_run\<close> itself over the calls it makes.
\<close>

definition msgqueue_ctrl_of :: "bool \<Rightarrow> s32 \<Rightarrow> u64 \<Rightarrow> u64 \<Rightarrow> u64 \<Rightarrow> Msgqueue_ctrl" where
  "msgqueue_ctrl_of en pid delay dev ino =
     \<lparr>enable = en, min_delay_ns = delay, target_pid = pid, pidns_dev = dev, pidns_ino = ino\<rparr>"

definition msgqueue_run ::
    "s32 \<Rightarrow> bool \<Rightarrow> s32 \<Rightarrow> u64 \<Rightarrow> run_env \<Rightarrow> (int \<times> Msgqueue_ctrl action list) option" where
  "msgqueue_run timeout en pid delay e =
     run_module (\<lambda>err. - err) (\<lambda>err. err \<noteq> 0) neg_or_zero (msgqueue_ctrl_of en pid delay) timeout e"

subsection \<open>The line of an event\<close>

text \<open>\<open>handle_event\<close>: a short record is reported on \<^verbatim>\<open>stderr\<close>; this module does not take the lock.\<close>

definition MSGQUEUE_EVENT_SIZE :: nat where
  "MSGQUEUE_EVENT_SIZE = 80"

definition mq_handle_event :: "nat \<Rightarrow> wall \<Rightarrow> Msgqueue_event \<Rightarrow> out_call list" where
  "mq_handle_event data_sz now event =
     (if data_sz < MSGQUEUE_EVENT_SIZE
      then eprintf (''msgqueue ''
        @ utf8 [0xE4, 0xBA, 0x8B, 0xE4, 0xBB, 0xB6, 0xE9, 0x95, 0xBF, 0xE5, 0xBA, 0xA6, 0xE5, 0xBC, 0x82, 0xE5, 0xB8, 0xB8]
        @ '': '' @ decimal data_sz @ '' < '' @ decimal MSGQUEUE_EVENT_SIZE @ endl)
      else LOG now ((if ev_delivery_type event = MQ_DELIVERY_DIRECT then C_YELLOW @ ''DIRECT'' @ C_RESET
                     else C_GREEN @ ''QUEUED'' @ C_RESET)
          @ '' | SEND='' @ fmt_d (ev_sender_pid event) @ ''/'' @ ljust 16 (ev_sender_comm event)
          @ '' fd='' @ ljust 4 (fmt_d (ev_send_mqdes event))
          @ '' -> RECV='' @ fmt_d (ev_receiver_pid event) @ ''/'' @ ljust 16 (ev_receiver_comm event)
          @ '' fd='' @ ljust 4 (fmt_d (ev_recv_mqdes event))
          @ '' | LEN='' @ ljust 6 (fmt_u (ev_msg_len event)) @ '' PRIO='' @ ljust 4 (fmt_u (ev_msg_prio event)) @ '' | '')
        @ log_col_ns (ev_residence_ns event) 100000 1000000
        @ printf endl)"

section \<open>Lemmas\<close>

interpretation msgqueue_runner: quiet_runner "\<lambda>err. err \<noteq> 0" neg_or_zero "\<lambda>err. - err"
  by unfold_locales (simp_all add: neg_or_zero_simps)

lemma mq_stat_simps [simp]:
  "ctrl_map (mq_stat f s) = ctrl_map s"
  "stats_map (mq_stat f s) = map_option f (stats_map s)"
  "active_sends (mq_stat f s) = active_sends s"
  "active_receives (mq_stat f s) = active_receives s"
  "pending_messages (mq_stat f s) = pending_messages s"
  "queued_messages (mq_stat f s) = queued_messages s"
  "direct_messages (mq_stat f s) = direct_messages s"
  "rb (mq_stat f s) = rb s"
  by (simp_all add: mq_stat_def)

lemma mq_track_drop_simps [simp]:
  "ctrl_map (mq_track_drop s) = ctrl_map s"
  "active_sends (mq_track_drop s) = active_sends s"
  "active_receives (mq_track_drop s) = active_receives s"
  "pending_messages (mq_track_drop s) = pending_messages s"
  "queued_messages (mq_track_drop s) = queued_messages s"
  "direct_messages (mq_track_drop s) = direct_messages s"
  "rb (mq_track_drop s) = rb s"
  by (simp_all add: mq_track_drop_def)

lemma submit_queued_simps [simp]:
  "ctrl_map (submit_queued env q r s) = ctrl_map s"
  "active_sends (submit_queued env q r s) = active_sends s"
  "active_receives (submit_queued env q r s) = active_receives s"
  "pending_messages (submit_queued env q r s) = pending_messages s"
  "queued_messages (submit_queued env q r s) = queued_messages s"
  "direct_messages (submit_queued env q r s) = direct_messages s"
  by (simp_all add: submit_queued_def Let_def split: option.split)

lemma submit_direct_simps [simp]:
  "ctrl_map (submit_direct env p r s) = ctrl_map s"
  "active_sends (submit_direct env p r s) = active_sends s"
  "active_receives (submit_direct env p r s) = active_receives s"
  "pending_messages (submit_direct env p r s) = pending_messages s"
  "queued_messages (submit_direct env p r s) = queued_messages s"
  "direct_messages (submit_direct env p r s) = direct_messages s"
  by (simp_all add: submit_direct_def Let_def split: option.split)

lemma queued_event_simps [simp]:
  "ev_residence_ns (queued_event env q r) = env_ktime env - qm_enqueue_ns q"
  "ev_delivery_type (queued_event env q r) = MQ_DELIVERY_QUEUED"
  "ev_sender_pid (queued_event env q r) = qm_sender_pid q"
  "ev_receiver_pid (queued_event env q r) = rc_receiver_pid r"
  "ev_msg_len (queued_event env q r) = qm_msg_len q"
  "ev_msg_prio (queued_event env q r) = qm_msg_prio q"
  by (simp_all add: queued_event_def)

lemma direct_event_simps [simp]:
  "ev_residence_ns (direct_event env p r) = 0"
  "ev_delivery_type (direct_event env p r) = MQ_DELIVERY_DIRECT"
  "ev_sender_pid (direct_event env p r) = pm_sender_pid p"
  "ev_receiver_pid (direct_event env p r) = rc_receiver_pid r"
  by (simp_all add: direct_event_def)

lemma mq_delivery_distinct [simp]:
  "MQ_DELIVERY_DIRECT \<noteq> MQ_DELIVERY_QUEUED" "MQ_DELIVERY_QUEUED \<noteq> MQ_DELIVERY_DIRECT"
  by (simp_all add: MQ_DELIVERY_DIRECT_def MQ_DELIVERY_QUEUED_def)

lemmas mq_handler_defs = mq_send_enter_def mq_load_msg_exit_def mq_msg_insert_exit_def
  mq_recv_enter_def mq_store_msg_enter_def mq_free_msg_enter_def consume_message_def
  mq_send_exit_def mq_recv_exit_def Let_def

lemma consume_simps [simp]:
  "ctrl_map (consume_message env msg u s) = ctrl_map s"
  "active_sends (consume_message env msg u s) = active_sends s"
  "active_receives (consume_message env msg u s) = active_receives s"
  by (simp_all add: consume_message_def Let_def split: option.split)

lemma consume_queued:
  "queued_messages (consume_message env msg u s) =
     (if msg = 0 then queued_messages s else bpf_delete msg (queued_messages s))"
  by (simp add: consume_message_def Let_def split: option.split)

lemma mq_step_ctrl [simp]: "ctrl_map (mq_step e s) = ctrl_map s"
  by (cases e) (simp_all add: mq_send_enter_def mq_load_msg_exit_def mq_msg_insert_exit_def
      mq_recv_enter_def mq_store_msg_enter_def mq_free_msg_enter_def mq_send_exit_def
      mq_recv_exit_def Let_def split: option.split)

lemma consume_pending:
  "pending_messages (consume_message env msg u s) \<in>
     {pending_messages s, bpf_delete msg (pending_messages s)}"
  by (simp add: consume_message_def Let_def split: option.split)

lemma consume_direct:
  "direct_messages (consume_message env msg u s) \<in>
     {direct_messages s, bpf_delete msg (direct_messages s)}"
  by (simp add: consume_message_def Let_def split: option.split)

definition mq_inv :: "Msgqueue_ctrl \<Rightarrow> Msgqueue_state \<Rightarrow> bool" where
  "mq_inv c s \<longleftrightarrow> ctrl_map s = Some c \<and>
     map_wf MQ_MAX_INFLIGHT_CALLS (active_sends s) \<and>
     map_wf MQ_MAX_INFLIGHT_CALLS (active_receives s) \<and>
     map_wf MQ_MAX_TRACKED_MESSAGES (pending_messages s) \<and>
     map_wf MQ_MAX_TRACKED_MESSAGES (queued_messages s) \<and>
     map_wf MQ_MAX_TRACKED_MESSAGES (direct_messages s)"

text \<open>What each firing does to each map.\<close>

lemma mq_load_msg_exit_maps:
  assumes "map_wf MQ_MAX_INFLIGHT_CALLS (active_sends s)"
    and "map_wf MQ_MAX_TRACKED_MESSAGES (pending_messages s)"
  shows "map_wf MQ_MAX_INFLIGHT_CALLS (active_sends (mq_load_msg_exit env k s)) \<and>
    map_wf MQ_MAX_TRACKED_MESSAGES (pending_messages (mq_load_msg_exit env k s))"
  using assms map_wf_update [OF assms(1)]
  by (auto simp: mq_load_msg_exit_def Let_def intro: lru.upd_wf split: option.split)

lemma mq_step_inv: "mq_inv c s \<Longrightarrow> mq_inv c (mq_step e s)"
proof (cases e)
  case (Load_msg env k)
  assume "mq_inv c s"
  then show ?thesis using Load_msg mq_load_msg_exit_maps [of s env k] mq_step_ctrl [of e s]
    by (auto simp: mq_inv_def) (simp_all add: mq_load_msg_exit_def Let_def split: option.splits)
next
  case (Store_msg env k)
  assume "mq_inv c s"
  then show ?thesis using Store_msg consume_pending [of env k True s] consume_direct [of env k True s]
    by (auto simp: mq_inv_def mq_store_msg_enter_def consume_queued delete_map_wf)
next
  case (Free_msg env k)
  assume "mq_inv c s"
  then show ?thesis using Free_msg consume_pending [of env k False s] consume_direct [of env k False s]
    by (auto simp: mq_inv_def mq_free_msg_enter_def consume_queued delete_map_wf)
qed (auto simp: mq_inv_def mq_send_enter_def mq_msg_insert_exit_def mq_recv_enter_def mq_send_exit_def
    mq_recv_exit_def Let_def delete_map_wf intro: hash.upd_wf lru.upd_wf split: option.splits)

definition mq_init :: "Msgqueue_ctrl \<Rightarrow> Msgqueue_state" where
  "mq_init c =
     \<lparr>ctrl_map = Some c,
      stats_map = Some \<lparr>queued_count = 0, queued_total_ns = 0, queued_max_ns = 0, direct_count = 0,
        unmatched_count = 0, tracking_drop_count = 0, ringbuf_drop_count = 0\<rparr>,
      active_sends = [], active_receives = [], pending_messages = [], queued_messages = [],
      direct_messages = [], rb = []\<rparr>"

lemma mq_inv_init: "mq_inv c (mq_init c)"
  by (simp add: mq_inv_def mq_init_def)

text \<open>Queued messages: opened by an insertion of a pending message, closed when consumed.\<close>

fun queued_starts :: "mq_firing \<Rightarrow> Msgqueue_state \<Rightarrow> (u64 \<times> mq_queued_msg) option" where
  "queued_starts (Msg_insert env msg ret) s =
     (if ret = 0 \<and> msg \<noteq> 0 \<and> env_update_ok env
      then map_option (\<lambda>p. (msg, queued_of env p)) (map_of (pending_messages s) msg) else None)"
| "queued_starts e s = None"

fun consumes :: "mq_firing \<Rightarrow> u64 \<Rightarrow> bool" where
  "consumes (Store_msg env msg) k = (msg = k \<and> msg \<noteq> 0)"
| "consumes (Free_msg env msg) k = (msg = k \<and> msg \<noteq> 0)"
| "consumes e k = False"

lemma mq_msg_insert_exit_queued:
  "queued_messages (mq_msg_insert_exit env msg ret s) =
    (case queued_starts (Msg_insert env msg ret) s of None \<Rightarrow> queued_messages s
     | Some (k, v) \<Rightarrow> map_or_same (lru_update MQ_MAX_TRACKED_MESSAGES (True, env_evict env) k v
         (queued_messages s)) (queued_messages s))"
  by (cases "env_update_ok env")
    (auto simp: mq_msg_insert_exit_def Let_def split: option.split)

lemma mq_other_queued:
  "queued_messages (mq_send_enter env d l p s) = queued_messages s"
  "queued_messages (mq_load_msg_exit env k s) = queued_messages s"
  "queued_messages (mq_recv_enter env d s) = queued_messages s"
  "queued_messages (mq_send_exit env ret s) = queued_messages s"
  "queued_messages (mq_recv_exit env s) = queued_messages s"
  by (simp_all add: mq_send_enter_def mq_load_msg_exit_def mq_recv_enter_def mq_send_exit_def
      mq_recv_exit_def Let_def split: option.split)

interpretation mq_queued: tracked_table mq_step "\<lambda>_ _. True" "mq_inv c" queued_messages
  queued_starts "\<lambda>e _. consumes e" for c
proof unfold_locales
  fix s e k v
  assume i: "mq_inv c s" and m: "map_of (queued_messages (mq_step e s)) k = Some v"
  show "queued_starts e s = Some (k, v) \<or> (map_of (queued_messages s) k = Some v \<and>
      \<not> consumes e k \<and> (\<forall>v'. queued_starts e s \<noteq> Some (k, v')))"
  proof (cases e)
    case (Msg_insert env msg ret)
    then show ?thesis using i m
        lru.upd_opened [of MQ_MAX_TRACKED_MESSAGES "queued_messages s" "(True, env_evict env)" _ _ k v]
      by (auto simp: mq_inv_def mq_msg_insert_exit_queued lru_update_None MQ_MAX_TRACKED_MESSAGES_def
          split: option.splits if_splits)
  qed (use m in \<open>auto simp: mq_other_queued mq_store_msg_enter_def mq_free_msg_enter_def
      consume_queued split: if_splits\<close>)
qed (simp add: mq_step_inv)

text \<open>Pending messages: opened when \<open>load_msg\<close> returns to a sending thread, closed by an insertion.\<close>

fun pending_starts :: "mq_firing \<Rightarrow> Msgqueue_state \<Rightarrow> (u64 \<times> mq_pending_msg) option" where
  "pending_starts (Load_msg env ret) s =
     (if valid_msg_ptr ret \<and> env_update_ok env
      then map_option (\<lambda>v. (ret, pending_of v)) (map_of (active_sends s) (env_pid_tgid env)) else None)"
| "pending_starts e s = None"

fun inserts :: "mq_firing \<Rightarrow> u64 \<Rightarrow> bool" where
  "inserts (Msg_insert env msg ret) k = (msg = k \<and> msg \<noteq> 0 \<and> ret = 0)"
| "inserts e k = False"

lemma mq_load_msg_exit_pending:
  "pending_messages (mq_load_msg_exit env ret s) =
    (case pending_starts (Load_msg env ret) s of None \<Rightarrow> pending_messages s
     | Some (k, v) \<Rightarrow> map_or_same (lru_update MQ_MAX_TRACKED_MESSAGES (True, env_evict env) k v
         (pending_messages s)) (pending_messages s))"
  by (cases "env_update_ok env")
    (auto simp: mq_load_msg_exit_def Let_def split: option.split)

lemma mq_other_pending:
  "pending_messages (mq_send_enter env d l p s) = pending_messages s"
  "pending_messages (mq_recv_enter env d s) = pending_messages s"
  "pending_messages (mq_recv_exit env s) = pending_messages s"
  "pending_messages (mq_msg_insert_exit env msg ret s) =
     (if ret = 0 \<and> msg \<noteq> 0 then bpf_delete msg (pending_messages s) else pending_messages s)"
  "map_of (pending_messages (mq_send_exit env ret s)) k = Some v \<Longrightarrow>
     map_of (pending_messages s) k = Some v"
  "map_of (pending_messages (consume_message env msg u s)) k = Some v \<Longrightarrow>
     map_of (pending_messages s) k = Some v"
  using consume_pending [of env msg u s]
  by (auto simp: mq_send_enter_def mq_recv_enter_def mq_recv_exit_def mq_msg_insert_exit_def
      mq_send_exit_def Let_def split: option.splits if_splits)

interpretation mq_pending: tracked_table mq_step "\<lambda>_ _. True" "mq_inv c" pending_messages
  pending_starts "\<lambda>e _. inserts e" for c
proof unfold_locales
  fix s e k v
  assume i: "mq_inv c s" and m: "map_of (pending_messages (mq_step e s)) k = Some v"
  show "pending_starts e s = Some (k, v) \<or> (map_of (pending_messages s) k = Some v \<and>
      \<not> inserts e k \<and> (\<forall>v'. pending_starts e s \<noteq> Some (k, v')))"
  proof (cases e)
    case (Load_msg env ret)
    then show ?thesis using i m
        lru.upd_opened [of MQ_MAX_TRACKED_MESSAGES "pending_messages s" "(True, env_evict env)" _ _ k v]
      by (auto simp: mq_inv_def mq_load_msg_exit_pending lru_update_None MQ_MAX_TRACKED_MESSAGES_def
          split: option.splits if_splits)
  qed (use m in \<open>auto simp: mq_other_pending(1-4) mq_store_msg_enter_def mq_free_msg_enter_def
      dest: mq_other_pending(5,6) split: if_splits\<close>)
qed

text \<open>Receiving threads: opened on entry to the call, closed on return.\<close>

fun recv_starts :: "Msgqueue_ctrl \<Rightarrow> mq_firing \<Rightarrow> (u64 \<times> mq_recv_ctx) option" where
  "recv_starts c (Recv_enter env mqdes) =
     (if enable c \<and> current_tgid env c \<noteq> 0 \<and> env_update_ok env
      then Some (env_pid_tgid env, recv_ctx_of env c mqdes) else None)"
| "recv_starts c e = None"

fun recv_returns :: "mq_firing \<Rightarrow> u64 \<Rightarrow> bool" where
  "recv_returns (Recv_exit env) k = (env_pid_tgid env = k)"
| "recv_returns e k = False"

lemma mq_recv_enter_tab:
  assumes "ctrl_map s = Some c"
  shows "active_receives (mq_recv_enter env mqdes s) =
    (case recv_starts c (Recv_enter env mqdes) of None \<Rightarrow> active_receives s
     | Some (k, v) \<Rightarrow> map_or_same (hash_update MQ_MAX_INFLIGHT_CALLS True k v (active_receives s))
         (active_receives s))"
  by (cases "env_update_ok env")
    (auto simp: assms mq_recv_enter_def split: option.split)

lemma mq_other_receives:
  "active_receives (mq_send_enter env d l p s) = active_receives s"
  "active_receives (mq_load_msg_exit env k s) = active_receives s"
  "active_receives (mq_msg_insert_exit env msg ret s) = active_receives s"
  "active_receives (mq_send_exit env ret s) = active_receives s"
  "active_receives (mq_recv_exit env s) = bpf_delete (env_pid_tgid env) (active_receives s)"
  by (simp_all add: mq_send_enter_def mq_load_msg_exit_def mq_msg_insert_exit_def mq_send_exit_def
      mq_recv_exit_def Let_def split: option.split)

interpretation mq_recv: tracked_table mq_step "\<lambda>_ _. True" "mq_inv c" active_receives
  "\<lambda>e _. recv_starts c e" "\<lambda>e _. recv_returns e" for c
proof unfold_locales
  fix s e k v
  assume i: "mq_inv c s" and m: "map_of (active_receives (mq_step e s)) k = Some v"
  show "recv_starts c e = Some (k, v) \<or> (map_of (active_receives s) k = Some v \<and>
      \<not> recv_returns e k \<and> (\<forall>v'. recv_starts c e \<noteq> Some (k, v')))"
  proof (cases e)
    case (Recv_enter env mqdes)
    then show ?thesis using i m
        hash.upd_opened [of MQ_MAX_INFLIGHT_CALLS "active_receives s" True _ _ k v]
      by (auto simp: mq_inv_def mq_recv_enter_tab hash_update_None split: if_splits)
  qed (use m in \<open>auto simp: mq_other_receives mq_store_msg_enter_def mq_free_msg_enter_def
      split: if_splits\<close>)
qed

text \<open>
  Sending threads: opened on entry to the call, closed on return. \<open>load_msg\<close> fills in the message's
  address, so the origin is stated for the context without it.
\<close>

definition send_meta :: "Msgqueue_state \<Rightarrow> (u64, mq_send_ctx) bmap" where
  "send_meta s = map (\<lambda>(k, v). (k, v\<lparr>sc_msg_key := 0\<rparr>)) (active_sends s)"

fun send_starts :: "Msgqueue_ctrl \<Rightarrow> mq_firing \<Rightarrow> (u64 \<times> mq_send_ctx) option" where
  "send_starts c (Send_enter env mqdes len prio) =
     (if enable c \<and> current_tgid env c \<noteq> 0 \<and> env_update_ok env
      then Some (env_pid_tgid env, send_ctx_of env c mqdes len prio) else None)"
| "send_starts c e = None"

fun send_returns :: "mq_firing \<Rightarrow> u64 \<Rightarrow> bool" where
  "send_returns (Send_exit env ret) k = (env_pid_tgid env = k)"
| "send_returns e k = False"

lemma map_of_send_meta:
  "map_of (send_meta s) k = map_option (\<lambda>v. v\<lparr>sc_msg_key := 0\<rparr>) (map_of (active_sends s) k)"
  by (simp add: send_meta_def map_of_map)

lemma mq_send_enter_tab:
  assumes "ctrl_map s = Some c"
  shows "active_sends (mq_send_enter env mqdes len prio s) =
    (case send_starts c (Send_enter env mqdes len prio) of None \<Rightarrow> active_sends s
     | Some (k, v) \<Rightarrow> map_or_same (hash_update MQ_MAX_INFLIGHT_CALLS True k v (active_sends s))
         (active_sends s))"
  by (cases "env_update_ok env")
    (auto simp: assms mq_send_enter_def Let_def split: option.split)

lemma mq_other_sends:
  "active_sends (mq_recv_enter env d s) = active_sends s"
  "active_sends (mq_recv_exit env s) = active_sends s"
  "active_sends (mq_msg_insert_exit env msg ret s) = active_sends s"
  "active_sends (mq_send_exit env ret s) = bpf_delete (env_pid_tgid env) (active_sends s)"
  by (simp_all add: mq_recv_enter_def mq_msg_insert_exit_def mq_send_exit_def
      mq_recv_exit_def Let_def split: option.split)

lemma mq_load_msg_exit_sends:
  "map_of (send_meta (mq_load_msg_exit env k s)) = map_of (send_meta s)"
  by (rule ext) (auto simp: map_of_send_meta mq_load_msg_exit_def Let_def update_conv' split: option.split)

interpretation mq_send: tracked_table mq_step "\<lambda>_ _. True" "mq_inv c" send_meta
  "\<lambda>e _. send_starts c e" "\<lambda>e _. send_returns e" for c
proof unfold_locales
  fix s e k v
  assume i: "mq_inv c s" and m: "map_of (send_meta (mq_step e s)) k = Some v"
  show "send_starts c e = Some (k, v) \<or> (map_of (send_meta s) k = Some v \<and>
      \<not> send_returns e k \<and> (\<forall>v'. send_starts c e \<noteq> Some (k, v')))"
  proof (cases e)
    case (Send_enter env mqdes len prio)
    then obtain w where w: "map_of (active_sends (mq_step e s)) k = Some w" "v = w\<lparr>sc_msg_key := 0\<rparr>"
      using m by (auto simp: map_of_send_meta)
    have z: "(send_ctx_of env c mqdes len prio)\<lparr>sc_msg_key := 0\<rparr> = send_ctx_of env c mqdes len prio"
      by (simp add: send_ctx_of_def)
    show ?thesis using i w z Send_enter
        hash.upd_opened [of MQ_MAX_INFLIGHT_CALLS "active_sends s" True "env_pid_tgid env"
          "send_ctx_of env c mqdes len prio" k w]
      by (auto simp: mq_inv_def mq_send_enter_tab hash_update_None map_of_send_meta split: if_splits)
  qed (use m in \<open>auto simp: mq_load_msg_exit_sends map_of_send_meta mq_other_sends
      mq_store_msg_enter_def mq_free_msg_enter_def split: if_splits\<close>)
qed

text \<open>What can reach the ring buffer.\<close>

definition reports_queued ::
  "Msgqueue_ctrl \<Rightarrow> bpf_env \<Rightarrow> u64 \<Rightarrow> Msgqueue_state \<Rightarrow> mq_queued_msg \<Rightarrow> mq_recv_ctx \<Rightarrow> bool" where
  "reports_queued c env msg s q r \<longleftrightarrow> enable c \<and> msg \<noteq> 0 \<and> map_of (queued_messages s) msg = Some q \<and>
     map_of (active_receives s) (env_pid_tgid env) = Some r \<and>
     pid_matches c (qm_sender_pid q) (rc_receiver_pid r) \<and>
     min_delay_ns c \<le> env_ktime env - qm_enqueue_ns q"

definition reports_direct ::
  "Msgqueue_ctrl \<Rightarrow> bpf_env \<Rightarrow> u64 \<Rightarrow> Msgqueue_state \<Rightarrow> mq_pending_msg \<Rightarrow> mq_recv_ctx \<Rightarrow> bool" where
  "reports_direct c env msg s p r \<longleftrightarrow> enable c \<and> msg \<noteq> 0 \<and> map_of (queued_messages s) msg = None \<and>
     (map_of (direct_messages s) msg = Some p \<or> map_of (pending_messages s) msg = Some p) \<and>
     map_of (active_receives s) (env_pid_tgid env) = Some r \<and>
     pid_matches c (pm_sender_pid p) (rc_receiver_pid r) \<and> min_delay_ns c = 0"

lemma submit_queued_rb:
  assumes "x \<in> set (rb (submit_queued env q r s))" and "ctrl_map s = Some c"
  shows "x \<in> set (rb s) \<or> (x = queued_event env q r \<and> enable c \<and>
    pid_matches c (qm_sender_pid q) (rc_receiver_pid r) \<and>
    min_delay_ns c \<le> env_ktime env - qm_enqueue_ns q)"
  using assms by (auto simp: submit_queued_def Let_def split: if_splits)

lemma submit_direct_rb:
  assumes "x \<in> set (rb (submit_direct env p r s))" and "ctrl_map s = Some c"
  shows "x \<in> set (rb s) \<or> (x = direct_event env p r \<and> enable c \<and>
    pid_matches c (pm_sender_pid p) (rc_receiver_pid r) \<and> min_delay_ns c = 0)"
  using assms by (auto simp: submit_direct_def Let_def split: if_splits)

lemma consume_rb:
  assumes "ctrl_map s = Some c" and "x \<in> set (rb (consume_message env msg u s))"
  shows "x \<in> set (rb s) \<or>
    (\<exists>q r. reports_queued c env msg s q r \<and> x = queued_event env q r) \<or>
    (\<exists>p r. reports_direct c env msg s p r \<and> x = direct_event env p r)"
  using assms
  by (auto simp: consume_message_def Let_def reports_queued_def reports_direct_def
      dest!: submit_queued_rb [where c = c] submit_direct_rb [where c = c]
      split: option.splits if_splits)

lemma mq_other_rb:
  "rb (mq_send_enter env d l p s) = rb s"
  "rb (mq_load_msg_exit env k s) = rb s"
  "rb (mq_msg_insert_exit env msg ret s) = rb s"
  "rb (mq_recv_enter env d s) = rb s"
  "rb (mq_send_exit env ret s) = rb s"
  "rb (mq_recv_exit env s) = rb s"
  by (simp_all add: mq_send_enter_def mq_load_msg_exit_def mq_msg_insert_exit_def mq_recv_enter_def
      mq_send_exit_def mq_recv_exit_def Let_def split: option.split)

lemma mq_step_rb:
  assumes "ctrl_map s = Some c" and "x \<in> set (rb (mq_step e s))" and "x \<notin> set (rb s)"
  obtains env msg where "e = Store_msg env msg \<or> e = Free_msg env msg"
    and "(\<exists>q r. reports_queued c env msg s q r \<and> x = queued_event env q r) \<or>
      (\<exists>p r. reports_direct c env msg s p r \<and> x = direct_event env p r)"
proof (cases e)
  case (Store_msg env msg)
  then show thesis using assms that consume_rb [OF assms(1), of x env msg True]
    by (auto simp: mq_store_msg_enter_def)
next
  case (Free_msg env msg)
  then show thesis using assms that consume_rb [OF assms(1), of x env msg False]
    by (auto simp: mq_free_msg_enter_def)
qed (use assms in \<open>simp_all add: mq_other_rb\<close>)

lemma mq_run_rb:
  assumes "x \<in> set (rb (fold mq_step tr (mq_init c)))"
  obtains pre e post env msg where "tr = pre @ e # post"
    and "e = Store_msg env msg \<or> e = Free_msg env msg" and "mq_inv c (fold mq_step pre (mq_init c))"
    and "(\<exists>q r. reports_queued c env msg (fold mq_step pre (mq_init c)) q r \<and> x = queued_event env q r) \<or>
      (\<exists>p r. reports_direct c env msg (fold mq_step pre (mq_init c)) p r \<and> x = direct_event env p r)"
proof -
  have "x \<notin> set (rb (mq_init c))" by (simp add: mq_init_def)
  from mq_queued.run_source [OF admissible_True mq_inv_init, of "\<lambda>s. x \<in> set (rb s)", OF this assms]
  obtain pre e post where p: "tr = pre @ e # post" "x \<notin> set (rb (fold mq_step pre (mq_init c)))"
    "x \<in> set (rb (mq_step e (fold mq_step pre (mq_init c))))" "mq_inv c (fold mq_step pre (mq_init c))"
    by blast
  then have "ctrl_map (fold mq_step pre (mq_init c)) = Some c" by (simp add: mq_inv_def)
  from mq_step_rb [OF this p(3) p(2)] p(1,4) that show thesis by metis
qed

text \<open>The sender of a message on record: the thread's call to send, then its \<open>load_msg\<close>.\<close>

lemma pending_origin:
  assumes "map_of (pending_messages (fold mq_step tr (mq_init c))) msg = Some p"
  obtains pre env_l mid pre2 env_s mqdes len prio mid2
  where "tr = pre @ Load_msg env_l msg # mid"
    and "pre = pre2 @ Send_enter env_s mqdes len prio # mid2"
    and "env_pid_tgid env_s = env_pid_tgid env_l"
    and "p = pending_of (send_ctx_of env_s c mqdes len prio)"
    and "\<forall>e \<in> set mid2. \<not> send_returns e (env_pid_tgid env_l)"
    and "\<forall>e \<in> set mid. \<not> inserts e msg"
proof -
  have e: "pending_messages (mq_init c) = []" "send_meta (mq_init c) = []"
    by (simp_all add: mq_init_def send_meta_def)
  obtain pre e1 mid where t: "tr = pre @ e1 # mid"
    and s1: "pending_starts e1 (fold mq_step pre (mq_init c)) = Some (msg, p)"
    and m1: "\<forall>e \<in> set mid. \<not> inserts e msg"
    using mq_pending.found_origin [OF admissible_True mq_inv_init e(1) assms]
    by (metis in_set_conv_decomp)
  obtain env_l v where l: "e1 = Load_msg env_l msg" and p: "p = pending_of v"
    and v: "map_of (active_sends (fold mq_step pre (mq_init c))) (env_pid_tgid env_l) = Some v"
    using s1 by (cases e1) (auto split: if_splits)
  have v0: "map_of (send_meta (fold mq_step pre (mq_init c))) (env_pid_tgid env_l) =
      Some (v\<lparr>sc_msg_key := 0\<rparr>)"
    using v by (simp add: map_of_send_meta)
  obtain pre2 e2 mid2 where t2: "pre = pre2 @ e2 # mid2"
    and s2: "send_starts c e2 = Some (env_pid_tgid env_l, v\<lparr>sc_msg_key := 0\<rparr>)"
    and m2: "\<forall>e \<in> set mid2. \<not> send_returns e (env_pid_tgid env_l)"
    using mq_send.found_origin [OF admissible_True mq_inv_init e(2) v0]
    by (metis in_set_conv_decomp)
  obtain env_s mqdes len prio where e2: "e2 = Send_enter env_s mqdes len prio"
    "env_pid_tgid env_s = env_pid_tgid env_l"
    "v\<lparr>sc_msg_key := 0\<rparr> = send_ctx_of env_s c mqdes len prio"
    using s2 by (cases e2) (auto split: if_splits)
  have "pending_of v = pending_of (v\<lparr>sc_msg_key := 0\<rparr>)" by (simp add: pending_of_def)
  then show thesis using that t l t2 e2 p m1 m2 by metis
qed

text \<open>The receiver on record: the thread's call to receive, not yet returned.\<close>

lemma receiver_origin:
  assumes "map_of (active_receives (fold mq_step tr (mq_init c))) k = Some r"
  obtains pre env_r mqdes mid where "tr = pre @ Recv_enter env_r mqdes # mid"
    and "env_pid_tgid env_r = k" and "r = recv_ctx_of env_r c mqdes"
    and "\<forall>e \<in> set mid. \<not> recv_returns e k"
proof -
  have e: "active_receives (mq_init c) = []" by (simp add: mq_init_def)
  obtain pre e1 mid where t: "tr = pre @ e1 # mid" and s: "recv_starts c e1 = Some (k, r)"
    and m: "\<forall>e \<in> set mid. \<not> recv_returns e k"
    using mq_recv.found_origin [OF admissible_True mq_inv_init e assms]
    by (metis in_set_conv_decomp)
  obtain env_r mqdes where "e1 = Recv_enter env_r mqdes" "env_pid_tgid env_r = k"
    "r = recv_ctx_of env_r c mqdes"
    using s by (cases e1) (auto split: if_splits)
  then show thesis using that t m by metis
qed

text \<open>A queued message on record: the insertion of a pending one.\<close>

lemma queued_origin:
  assumes "map_of (queued_messages (fold mq_step tr (mq_init c))) msg = Some q"
  obtains pre env_i mid p where "tr = pre @ Msg_insert env_i msg 0 # mid"
    and "map_of (pending_messages (fold mq_step pre (mq_init c))) msg = Some p"
    and "q = queued_of env_i p" and "\<forall>e \<in> set mid. \<not> consumes e msg"
proof -
  have e: "queued_messages (mq_init c) = []" by (simp add: mq_init_def)
  obtain pre e1 mid where t: "tr = pre @ e1 # mid"
    and s: "queued_starts e1 (fold mq_step pre (mq_init c)) = Some (msg, q)"
    and m: "\<forall>e \<in> set mid. \<not> consumes e msg"
    using mq_queued.found_origin [OF admissible_True mq_inv_init e assms]
    by (metis in_set_conv_decomp)
  obtain env_i p where "e1 = Msg_insert env_i msg 0" "q = queued_of env_i p"
    "map_of (pending_messages (fold mq_step pre (mq_init c))) msg = Some p"
    using s by (cases e1) (auto split: if_splits)
  then show thesis using that t m by metis
qed

text \<open>Deliveries counted against events submitted and dropped.\<close>

definition mq_flow :: "Msgqueue_state \<Rightarrow> u64" where
  "mq_flow s = (case stats_map s of None \<Rightarrow> 0
     | Some c \<Rightarrow> queued_count c + direct_count c - ringbuf_drop_count c - of_nat (length (rb s)))"

definition mq_live :: "Msgqueue_ctrl \<Rightarrow> Msgqueue_state \<Rightarrow> bool" where
  "mq_live c s \<longleftrightarrow> ctrl_map s = Some c \<and> stats_map s \<noteq> None \<and> min_delay_ns c = 0"

lemma mq_flow_track [simp]: "mq_flow (mq_track_drop s) = mq_flow s"
  by (simp add: mq_flow_def mq_track_drop_def split: option.split)

lemma mq_flow_maps [simp]:
  "mq_flow (s\<lparr>queued_messages := m1\<rparr>) = mq_flow s"
  "mq_flow (s\<lparr>direct_messages := m2\<rparr>) = mq_flow s"
  "mq_flow (s\<lparr>pending_messages := m3\<rparr>) = mq_flow s"
  "mq_flow (s\<lparr>active_sends := m4\<rparr>) = mq_flow s"
  "mq_flow (s\<lparr>active_receives := m5\<rparr>) = mq_flow s"
  by (simp_all add: mq_flow_def split: option.split)

lemma submit_flow:
  assumes "ctrl_map s = Some c" and "stats_map s \<noteq> None" and "min_delay_ns c = 0"
  shows "mq_flow (submit_queued env q r s) = mq_flow s" "mq_flow (submit_direct env p r s) = mq_flow s"
  using assms
  by (auto simp: submit_queued_def submit_direct_def Let_def mq_flow_def stats_add_def algebra_simps)

lemma consume_flow:
  assumes "mq_live c s"
  shows "mq_flow (consume_message env msg u s) = mq_flow s"
  using assms
  by (auto simp: consume_message_def Let_def mq_live_def submit_flow [where c = c] mq_flow_def [of "mq_stat _ _"]
      split: option.split)
    (auto simp: mq_flow_def)

lemma mq_step_flow:
  assumes "mq_live c s"
  shows "mq_flow (mq_step e s) = mq_flow s"
  using assms
  by (cases e) (simp_all add: mq_store_msg_enter_def mq_free_msg_enter_def consume_flow
      mq_send_enter_def mq_load_msg_exit_def mq_msg_insert_exit_def mq_recv_enter_def mq_send_exit_def
      mq_recv_exit_def Let_def split: option.split)

lemma submit_stats [simp]:
  "stats_map (submit_queued env q r s) = None \<longleftrightarrow> stats_map s = None"
  "stats_map (submit_direct env p r s) = None \<longleftrightarrow> stats_map s = None"
  by (simp_all add: submit_queued_def submit_direct_def Let_def split: option.split)

lemma mq_track_drop_stats [simp]: "stats_map (mq_track_drop s) = None \<longleftrightarrow> stats_map s = None"
  by (simp add: mq_track_drop_def)

lemma consume_stats [simp]: "stats_map (consume_message env msg u s) = None \<longleftrightarrow> stats_map s = None"
  by (simp add: consume_message_def Let_def split: option.split)

lemma mq_step_stats: "stats_map (mq_step e s) = None \<longleftrightarrow> stats_map s = None"
  by (cases e) (simp_all add: mq_store_msg_enter_def mq_free_msg_enter_def
      mq_send_enter_def mq_load_msg_exit_def mq_msg_insert_exit_def mq_recv_enter_def mq_send_exit_def
      mq_recv_exit_def Let_def split: option.split)

interpretation mq_cons: conserved_monitor mq_step "\<lambda>_ _. True" "mq_live c" mq_flow for c
proof unfold_locales
  fix s e assume "mq_live c s"
  then show "mq_live c (mq_step e s)" using mq_step_stats [of e s] by (simp add: mq_live_def)
  show "mq_flow (mq_step e s) = mq_flow s" using \<open>mq_live c s\<close> by (rule mq_step_flow)
qed

text \<open>A message is followed in one map at a time.\<close>

definition tracked_once :: "Msgqueue_state \<Rightarrow> bool" where
  "tracked_once s \<longleftrightarrow>
     dom (map_of (pending_messages s)) \<inter> dom (map_of (queued_messages s)) = {} \<and>
     dom (map_of (pending_messages s)) \<inter> dom (map_of (direct_messages s)) = {} \<and>
     dom (map_of (queued_messages s)) \<inter> dom (map_of (direct_messages s)) = {}"

fun fresh_load :: "mq_firing \<Rightarrow> Msgqueue_state \<Rightarrow> bool" where
  "fresh_load (Load_msg env ret) s =
     (map_of (pending_messages s) ret = None \<and> map_of (queued_messages s) ret = None \<and>
      map_of (direct_messages s) ret = None)"
| "fresh_load e s = True"

lemma mq_other_direct:
  "direct_messages (mq_send_enter env d l p s) = direct_messages s"
  "direct_messages (mq_load_msg_exit env k s) = direct_messages s"
  "direct_messages (mq_msg_insert_exit env msg ret s) = direct_messages s"
  "direct_messages (mq_recv_enter env d s) = direct_messages s"
  "direct_messages (mq_recv_exit env s) = direct_messages s"
  by (simp_all add: mq_send_enter_def mq_load_msg_exit_def mq_msg_insert_exit_def mq_recv_enter_def
      mq_recv_exit_def Let_def split: option.split)

lemma tracked_once_mono:
  assumes "tracked_once s"
    and "dom (map_of (pending_messages s')) \<subseteq> dom (map_of (pending_messages s))"
    and "dom (map_of (queued_messages s')) \<subseteq> dom (map_of (queued_messages s))"
    and "dom (map_of (direct_messages s')) \<subseteq> dom (map_of (direct_messages s))"
  shows "tracked_once s'"
  using assms unfolding tracked_once_def by blast

lemma consume_tracked:
  assumes "tracked_once s"
  shows "tracked_once (consume_message env msg u s)"
  by (rule tracked_once_mono [OF assms])
    (use consume_pending [of env msg u s] consume_direct [of env msg u s] in \<open>auto simp: consume_queued split: if_splits\<close>)

text \<open>Loading adds an address to the pending ones; inserting and returning move one on.\<close>

lemma load_doms:
  assumes "map_wf MQ_MAX_TRACKED_MESSAGES (pending_messages s)"
  shows "dom (map_of (pending_messages (mq_load_msg_exit env ret s))) \<subseteq>
    insert ret (dom (map_of (pending_messages s)))"
  using lru.upd_dom [OF assms]
  by (cases "map_of (active_sends s) (env_pid_tgid env)")
    (auto simp: mq_load_msg_exit_def Let_def split: option.split)

lemma insert_doms:
  assumes "map_wf MQ_MAX_TRACKED_MESSAGES (queued_messages s)"
  shows "mq_msg_insert_exit env msg ret s = s \<or> (msg \<in> dom (map_of (pending_messages s)) \<and>
    pending_messages (mq_msg_insert_exit env msg ret s) = bpf_delete msg (pending_messages s) \<and>
    dom (map_of (queued_messages (mq_msg_insert_exit env msg ret s))) \<subseteq>
      insert msg (dom (map_of (queued_messages s))))"
  using lru.upd_dom [OF assms, of "(env_update_ok env, env_evict env)" msg]
  by (cases "map_of (pending_messages s) msg")
    (auto simp: mq_msg_insert_exit_def Let_def split: option.split)

lemma send_exit_doms:
  assumes "map_wf MQ_MAX_TRACKED_MESSAGES (direct_messages s)"
  shows "(pending_messages (mq_send_exit env ret s) = pending_messages s \<and>
      direct_messages (mq_send_exit env ret s) = direct_messages s) \<or>
    (\<exists>k \<in> dom (map_of (pending_messages s)).
      pending_messages (mq_send_exit env ret s) = bpf_delete k (pending_messages s) \<and>
      dom (map_of (direct_messages (mq_send_exit env ret s))) \<subseteq>
        insert k (dom (map_of (direct_messages s))))"
proof (cases "map_of (active_sends s) (env_pid_tgid env)")
  case (Some v)
  show ?thesis
  proof (cases "sc_msg_key v = 0 \<or> map_of (pending_messages s) (sc_msg_key v) = None")
    case True
    then show ?thesis using Some by (auto simp: mq_send_exit_def Let_def)
  next
    case False
    then show ?thesis
      using Some lru.upd_dom [OF assms, of "(env_update_ok env, env_evict env)" "sc_msg_key v"]
      by (intro disjI2 bexI [of _ "sc_msg_key v"])
        (auto simp: mq_send_exit_def Let_def split: option.split)
  qed
qed (simp add: mq_send_exit_def)

lemma disjoint_move:
  assumes "P \<inter> Q = {}" and "P \<inter> D = {}" and "Q \<inter> D = {}" and "k \<in> P" and "Q' \<subseteq> insert k Q"
  shows "(P - {k}) \<inter> Q' = {} \<and> (P - {k}) \<inter> D = {} \<and> Q' \<inter> D = {}"
  using assms by blast

lemma dom_delete: "dom (map_of (bpf_delete k m)) = dom (map_of m) - {k}"
  by auto

lemma tracked_move_queued:
  assumes "tracked_once s" and "k \<in> dom (map_of (pending_messages s))"
    and "pending_messages s' = bpf_delete k (pending_messages s)"
    and "dom (map_of (queued_messages s')) \<subseteq> insert k (dom (map_of (queued_messages s)))"
    and "direct_messages s' = direct_messages s"
  shows "tracked_once s'"
  unfolding tracked_once_def assms(3,5) dom_delete
  by (rule disjoint_move [OF _ _ _ assms(2,4)]) (use assms(1) in \<open>auto simp: tracked_once_def\<close>)

lemma tracked_move_direct:
  assumes "tracked_once s" and "k \<in> dom (map_of (pending_messages s))"
    and "pending_messages s' = bpf_delete k (pending_messages s)"
    and "dom (map_of (direct_messages s')) \<subseteq> insert k (dom (map_of (direct_messages s)))"
    and "queued_messages s' = queued_messages s"
  shows "tracked_once s'"
  using disjoint_move [OF _ _ _ assms(2,4), of "dom (map_of (queued_messages s))"] assms(1)
  unfolding tracked_once_def assms(3,5) dom_delete by (simp only: Int_commute simp_thms)

lemma tracked_once_same:
  "tracked_once (mq_send_enter env d l p s) = tracked_once s"
  "tracked_once (mq_recv_enter env d s) = tracked_once s"
  "tracked_once (mq_recv_exit env s) = tracked_once s"
  by (simp_all add: tracked_once_def mq_other_queued mq_other_pending(1-4) mq_other_direct)

lemma mq_step_tracked:
  assumes "mq_inv c s" and "tracked_once s" and "fresh_load e s"
  shows "tracked_once (mq_step e s)"
proof -
  have w: "map_wf MQ_MAX_TRACKED_MESSAGES (pending_messages s)"
    "map_wf MQ_MAX_TRACKED_MESSAGES (queued_messages s)"
    "map_wf MQ_MAX_TRACKED_MESSAGES (direct_messages s)"
    using assms(1) by (auto simp: mq_inv_def)
  show ?thesis
  proof (cases e)
    case (Load_msg env ret)
    have "ret \<notin> dom (map_of (queued_messages s)) \<union> dom (map_of (direct_messages s))"
      using assms(3) Load_msg by auto
    then have "tracked_once (mq_load_msg_exit env ret s)"
      using assms(2) load_doms [OF w(1), of env ret]
      unfolding tracked_once_def mq_other_queued mq_other_direct by blast
    then show ?thesis using Load_msg by simp
  next
    case (Msg_insert env msg ret)
    have "tracked_once (mq_msg_insert_exit env msg ret s)"
      using insert_doms [OF w(2), of env msg ret]
    proof (elim disjE conjE)
      assume "mq_msg_insert_exit env msg ret s = s"
      then show ?thesis using assms(2) by simp
    qed (rule tracked_move_queued [OF assms(2)], simp_all add: mq_other_direct)
    then show ?thesis using Msg_insert by simp
  next
    case (Send_exit env ret)
    have "tracked_once (mq_send_exit env ret s)"
      using send_exit_doms [OF w(3), of env ret]
    proof (elim disjE conjE bexE)
      assume "pending_messages (mq_send_exit env ret s) = pending_messages s"
        "direct_messages (mq_send_exit env ret s) = direct_messages s"
      then show ?thesis using assms(2) by (simp add: tracked_once_def mq_other_queued)
    qed (rule tracked_move_direct [OF assms(2)], simp_all add: mq_other_queued)
    then show ?thesis using Send_exit by simp
  qed (use assms(2) in \<open>simp_all add: mq_store_msg_enter_def mq_free_msg_enter_def consume_tracked
      tracked_once_same\<close>)
qed

interpretation mq_once: probe_system mq_step fresh_load "\<lambda>s. mq_inv c s \<and> tracked_once s" for c
  by unfold_locales (auto intro: mq_step_inv mq_step_tracked)

text \<open>A run: a message is sent, inserted and received; the sender's return comes after.\<close>

definition mq_demo_ctrl :: Msgqueue_ctrl where
  "mq_demo_ctrl = \<lparr>enable = True, min_delay_ns = 0, target_pid = 0, pidns_dev = 1, pidns_ino = 4\<rparr>"

definition mq_demo_run :: "mq_firing list" where
  "mq_demo_run =
     [Send_enter (calm_env 0 10 7 8) 3 100 5, Load_msg (calm_env 0 11 7 8) 4096,
      Msg_insert (calm_env 0 12 7 8) 4096 0, Send_exit (calm_env 0 13 7 8) 0,
      Recv_enter (calm_env 1 20 9 9) 4, Store_msg (calm_env 1 27 9 9) 4096,
      Free_msg (calm_env 1 28 9 9) 4096, Recv_exit (calm_env 1 29 9 9)]"

lemmas mq_demo_defs = mq_demo_ctrl_def mq_demo_run_def mq_init_def mq_handler_defs
  current_tgid_def valid_msg_ptr_def send_ctx_of_def pending_of_def queued_of_def recv_ctx_of_def
  submit_queued_def submit_direct_def queued_event_def direct_event_def pid_matches_def mq_stat_def
  mq_track_drop_def stats_add_def MQ_MAX_INFLIGHT_CALLS_def
  MQ_MAX_TRACKED_MESSAGES_def hash_update_def lru_update_def lru_room_def lru_evict_def
  bpf_delete_def MQ_DELIVERY_QUEUED_def MQ_DELIVERY_DIRECT_def pack32_eq_iff

lemma mq_demo_rb: "rb (fold mq_step mq_demo_run (mq_init mq_demo_ctrl)) =
  [\<lparr>ev_ts_ns = 27, ev_residence_ns = 15, ev_msg_len = 100, ev_sender_pid = 7, ev_receiver_pid = 9,
    ev_send_mqdes = 3, ev_recv_mqdes = 4, ev_msg_prio = 5, ev_delivery_type = MQ_DELIVERY_QUEUED,
    ev_sender_comm = ''demo'', ev_receiver_comm = ''demo''\<rparr>]"
  by (simp add: mq_demo_defs)

interpretation mq_lines: line_printer "\<lambda>(sz, now, e). mq_handle_event sz now e"
  "\<lambda>(sz, now, e). printable (ev_sender_comm e) \<and> printable (ev_receiver_comm e)"
  by unfold_locales (auto simp: mq_handle_event_def line_simps split: if_splits)

text \<open>Every event passed the filters of the configuration.\<close>

lemma mq_filtered:
  assumes "x \<in> set (rb (fold mq_step tr (mq_init c)))"
  shows "enable c \<and> min_delay_ns c \<le> ev_residence_ns x \<and> (target_pid c = 0 \<or> target_pid c \<in> {ev_sender_pid x, ev_receiver_pid x})"
  using assms
  by (rule mq_run_rb)
     (auto simp: reports_queued_def reports_direct_def queued_event_def direct_event_def pid_matches_def)

section \<open>Properties\<close>

text \<open>
  C3: the life of a message reported as queued. It was loaded by a thread that had entered the
  send call and not returned from it, then inserted into the queue with success, then copied out or freed by
  a thread inside the receive call; nothing consumed it in between. The residence reported
  is the time from the insertion to the consumption, at least the threshold; sender, length and
  priority are those of the send call, the receiver that of the receive call, and one of the
  two is the target process when one is set.
\<close>

theorem mq_queued_life:
  assumes "x \<in> set (rb (fold mq_step tr (mq_init c)))" and "ev_delivery_type x = MQ_DELIVERY_QUEUED"
  shows "\<exists>pre env_i msg mid e2 env2 post.
    tr = pre @ Msg_insert env_i msg 0 # mid @ e2 # post \<and>
    (e2 = Store_msg env2 msg \<or> e2 = Free_msg env2 msg) \<and> (\<forall>e \<in> set mid. \<not> consumes e msg) \<and>
    ev_residence_ns x = env_ktime env2 - env_ktime env_i \<and> min_delay_ns c \<le> ev_residence_ns x \<and>
    pid_matches c (ev_sender_pid x) (ev_receiver_pid x) \<and>
    (\<exists>pre1 env_l mid1 pre2 env_s mqdes len prio mid2.
       pre = pre1 @ Load_msg env_l msg # mid1 \<and> pre1 = pre2 @ Send_enter env_s mqdes len prio # mid2 \<and>
       env_pid_tgid env_s = env_pid_tgid env_l \<and>
       (\<forall>e \<in> set mid2. \<not> send_returns e (env_pid_tgid env_l)) \<and>
       ev_sender_pid x = current_tgid env_s c \<and> ev_msg_len x = len \<and> ev_msg_prio x = prio) \<and>
    (\<exists>pre3 env_r mqdes mid3. pre @ Msg_insert env_i msg 0 # mid = pre3 @ Recv_enter env_r mqdes # mid3 \<and>
       env_pid_tgid env_r = env_pid_tgid env2 \<and>
       (\<forall>e \<in> set mid3. \<not> recv_returns e (env_pid_tgid env2)) \<and>
       ev_receiver_pid x = current_tgid env_r c)"
proof -
  obtain p0 e2 post env2 msg where t: "tr = p0 @ e2 # post"
    and e2: "e2 = Store_msg env2 msg \<or> e2 = Free_msg env2 msg"
    and r: "(\<exists>q r. reports_queued c env2 msg (fold mq_step p0 (mq_init c)) q r \<and> x = queued_event env2 q r) \<or>
      (\<exists>p r. reports_direct c env2 msg (fold mq_step p0 (mq_init c)) p r \<and> x = direct_event env2 p r)"
    by (rule mq_run_rb [OF assms(1)])
  obtain q r where q: "map_of (queued_messages (fold mq_step p0 (mq_init c))) msg = Some q"
    and rc: "map_of (active_receives (fold mq_step p0 (mq_init c))) (env_pid_tgid env2) = Some r"
    and x: "x = queued_event env2 q r" and pm: "pid_matches c (qm_sender_pid q) (rc_receiver_pid r)"
    and d: "min_delay_ns c \<le> env_ktime env2 - qm_enqueue_ns q"
    using r assms(2) by (auto simp: reports_queued_def)
  obtain pre env_i mid p where i: "p0 = pre @ Msg_insert env_i msg 0 # mid"
    and p: "map_of (pending_messages (fold mq_step pre (mq_init c))) msg = Some p"
    and qp: "q = queued_of env_i p" and m: "\<forall>e \<in> set mid. \<not> consumes e msg"
    by (rule queued_origin [OF q])
  obtain pre1 env_l mid1 pre2 env_s mqdes len prio mid2 where l: "pre = pre1 @ Load_msg env_l msg # mid1"
    "pre1 = pre2 @ Send_enter env_s mqdes len prio # mid2" "env_pid_tgid env_s = env_pid_tgid env_l"
    "p = pending_of (send_ctx_of env_s c mqdes len prio)"
    "\<forall>e \<in> set mid2. \<not> send_returns e (env_pid_tgid env_l)"
    by (rule pending_origin [OF p])
  obtain pre3 env_r mq mid3 where v: "p0 = pre3 @ Recv_enter env_r mq # mid3"
    "env_pid_tgid env_r = env_pid_tgid env2" "r = recv_ctx_of env_r c mq"
    "\<forall>e \<in> set mid3. \<not> recv_returns e (env_pid_tgid env2)"
    by (rule receiver_origin [OF rc])
  have s: "ev_residence_ns x = env_ktime env2 - env_ktime env_i" "ev_sender_pid x = current_tgid env_s c"
    "ev_msg_len x = len" "ev_msg_prio x = prio" "ev_receiver_pid x = current_tgid env_r c"
    "pid_matches c (ev_sender_pid x) (ev_receiver_pid x)" "min_delay_ns c \<le> ev_residence_ns x"
    using x qp l(4) v(3) pm d by (simp_all add: queued_of_def pending_of_def send_ctx_of_def recv_ctx_of_def)
  have w: "tr = pre @ Msg_insert env_i msg 0 # mid @ e2 # post" using t i by simp
  have recv: "\<exists>pre3 env_r mqdes mid3.
      pre @ Msg_insert env_i msg 0 # mid = pre3 @ Recv_enter env_r mqdes # mid3 \<and>
      env_pid_tgid env_r = env_pid_tgid env2 \<and> (\<forall>e \<in> set mid3. \<not> recv_returns e (env_pid_tgid env2)) \<and>
      ev_receiver_pid x = current_tgid env_r c"
    using v(1) [unfolded i] v(2,4) s(5) by blast
  have sent: "\<exists>pre1 env_l mid1 pre2 env_s mqdes len prio mid2.
      pre = pre1 @ Load_msg env_l msg # mid1 \<and> pre1 = pre2 @ Send_enter env_s mqdes len prio # mid2 \<and>
      env_pid_tgid env_s = env_pid_tgid env_l \<and>
      (\<forall>e \<in> set mid2. \<not> send_returns e (env_pid_tgid env_l)) \<and>
      ev_sender_pid x = current_tgid env_s c \<and> ev_msg_len x = len \<and> ev_msg_prio x = prio"
    using l s(2-4) by blast
  show ?thesis
    by (intro exI [of _ pre] exI [of _ env_i] exI [of _ msg] exI [of _ mid] exI [of _ e2]
        exI [of _ env2] exI [of _ post] conjI w e2 m s(1) s(7) s(6) sent recv)
qed

theorem mq_queued_life_witness:
  "\<exists>pre env_i msg mid e2 env2 post.
    mq_demo_run = pre @ Msg_insert env_i msg 0 # mid @ e2 # post \<and>
    (e2 = Store_msg env2 msg \<or> e2 = Free_msg env2 msg) \<and> 15 = env_ktime env2 - env_ktime env_i"
proof -
  let ?x = "hd (rb (fold mq_step mq_demo_run (mq_init mq_demo_ctrl)))"
  have x: "?x \<in> set (rb (fold mq_step mq_demo_run (mq_init mq_demo_ctrl)))"
    "ev_delivery_type ?x = MQ_DELIVERY_QUEUED" "ev_residence_ns ?x = 15"
    by (simp_all add: mq_demo_rb)
  show ?thesis using mq_queued_life [OF x(1,2)] x(3) by metis
qed

text \<open>
  Direct deliveries are reported with no residence, only when no threshold is set, and only for
  a message whose record was not in the queue when a receiving thread took it; the process
  filter holds of sender or receiver.
\<close>

lemma mq_direct_report:
  assumes "x \<in> set (rb (fold mq_step tr (mq_init c)))" and "ev_delivery_type x = MQ_DELIVERY_DIRECT"
  shows "ev_residence_ns x = 0 \<and> min_delay_ns c = 0 \<and>
    pid_matches c (ev_sender_pid x) (ev_receiver_pid x) \<and>
    (\<exists>pre e env msg post pre3 env_r mqdes mid3. tr = pre @ e # post \<and>
      (e = Store_msg env msg \<or> e = Free_msg env msg) \<and>
      map_of (queued_messages (fold mq_step pre (mq_init c))) msg = None \<and>
      pre = pre3 @ Recv_enter env_r mqdes # mid3 \<and> env_pid_tgid env_r = env_pid_tgid env \<and>
      ev_receiver_pid x = current_tgid env_r c)"
proof -
  obtain pre e post env msg where t: "tr = pre @ e # post" "e = Store_msg env msg \<or> e = Free_msg env msg"
    and r: "(\<exists>q r. reports_queued c env msg (fold mq_step pre (mq_init c)) q r \<and> x = queued_event env q r) \<or>
      (\<exists>p r. reports_direct c env msg (fold mq_step pre (mq_init c)) p r \<and> x = direct_event env p r)"
    by (rule mq_run_rb [OF assms(1)])
  obtain p r where p: "reports_direct c env msg (fold mq_step pre (mq_init c)) p r"
    and x: "x = direct_event env p r"
    using r assms(2) by auto
  then obtain pre3 env_r mqdes mid3 where v: "pre = pre3 @ Recv_enter env_r mqdes # mid3"
    "env_pid_tgid env_r = env_pid_tgid env" "r = recv_ctx_of env_r c mqdes"
    using receiver_origin [of pre c "env_pid_tgid env" r] by (metis reports_direct_def)
  have "\<exists>pre e env msg post pre3 env_r mqdes mid3. tr = pre @ e # post \<and>
      (e = Store_msg env msg \<or> e = Free_msg env msg) \<and>
      map_of (queued_messages (fold mq_step pre (mq_init c))) msg = None \<and>
      pre = pre3 @ Recv_enter env_r mqdes # mid3 \<and> env_pid_tgid env_r = env_pid_tgid env \<and>
      ev_receiver_pid x = current_tgid env_r c"
    by (intro exI conjI, rule t(1), rule t(2), use p in \<open>simp add: reports_direct_def\<close>,
      rule v(1), rule v(2), simp add: x v(3) recv_ctx_of_def)
  then show ?thesis using p x by (simp add: reports_direct_def)
qed

definition mq_direct_run :: "mq_firing list" where
  "mq_direct_run =
     [Recv_enter (calm_env 1 5 9 9) 4, Send_enter (calm_env 0 10 7 8) 3 100 5,
      Load_msg (calm_env 0 11 7 8) 4096, Store_msg (calm_env 1 12 9 9) 4096,
      Send_exit (calm_env 0 13 7 8) 0]"

lemma mq_direct_rb: "rb (fold mq_step mq_direct_run (mq_init mq_demo_ctrl)) =
  [\<lparr>ev_ts_ns = 12, ev_residence_ns = 0, ev_msg_len = 100, ev_sender_pid = 7, ev_receiver_pid = 9,
    ev_send_mqdes = 3, ev_recv_mqdes = 4, ev_msg_prio = 5, ev_delivery_type = MQ_DELIVERY_DIRECT,
    ev_sender_comm = ''demo'', ev_receiver_comm = ''demo''\<rparr>]"
  by (simp add: mq_demo_defs mq_direct_run_def)

text \<open>
  Without a threshold every delivery counted is an event in the ring buffer or counted as
  dropped: queued and direct counts together are the events submitted plus the drops, after
  every sequence of firings.
\<close>

lemma mq_accounting:
  assumes "min_delay_ns c = 0" and "stats_map (fold mq_step tr (mq_init c)) = Some st"
  shows "queued_count st + direct_count st =
    of_nat (length (rb (fold mq_step tr (mq_init c)))) + ringbuf_drop_count st"
proof -
  have "mq_live c (mq_init c)" using assms(1) by (simp add: mq_live_def mq_init_def)
  from mq_cons.run_quantity [OF admissible_True this, of tr]
  have "mq_flow (fold mq_step tr (mq_init c)) = mq_flow (mq_init c)" .
  also have "\<dots> = 0" by (simp add: mq_flow_def mq_init_def)
  finally have "mq_flow (fold mq_step tr (mq_init c)) = 0" .
  then show ?thesis using assms(2) by (simp add: mq_flow_def algebra_simps)
qed

text \<open>
  C10: as long as \<open>load_msg\<close> never returns an address that is still on record, every message is on
  record in at most one of the pending, queued and direct maps, and the maps stay within
  their sizes.
\<close>

theorem mq_tracked_once:
  assumes "admissible fresh_load mq_step tr (mq_init c)"
  shows "tracked_once (fold mq_step tr (mq_init c)) \<and>
    length (pending_messages (fold mq_step tr (mq_init c))) \<le> 16384 \<and>
    length (queued_messages (fold mq_step tr (mq_init c))) \<le> 16384 \<and>
    length (direct_messages (fold mq_step tr (mq_init c))) \<le> 16384 \<and>
    length (active_sends (fold mq_step tr (mq_init c))) \<le> 8192 \<and>
    length (active_receives (fold mq_step tr (mq_init c))) \<le> 8192"
proof -
  have "tracked_once (mq_init c)" by (simp add: tracked_once_def mq_init_def)
  then show ?thesis using mq_once.run_inv [OF assms] mq_inv_init [of c]
    by (auto simp: mq_inv_def map_wf_def MQ_MAX_TRACKED_MESSAGES_def MQ_MAX_INFLIGHT_CALLS_def)
qed

theorem mq_tracked_once_witness:
  "tracked_once (fold mq_step mq_demo_run (mq_init mq_demo_ctrl))"
proof -
  have "admissible fresh_load mq_step mq_demo_run (mq_init mq_demo_ctrl)"
    by (simp add: mq_demo_defs)
  then show ?thesis using mq_tracked_once [of mq_demo_run mq_demo_ctrl] by simp
qed

text \<open>
  A message with the address \<open>m\<close> from process \<open>a\<close> to the waiting process \<open>r\<close>, and then one from process \<open>b\<close> to \<open>r\<close> that is given
  the same address. \<open>t\<close> has the times of the firings.
\<close>

definition mq_reuse_run :: "u64 \<Rightarrow> u32 \<Rightarrow> u32 \<Rightarrow> u32 \<Rightarrow> (nat \<Rightarrow> u64) \<Rightarrow> u64 \<Rightarrow> u64 \<Rightarrow> mq_firing list" where
  "mq_reuse_run m a b r t len1 len2 =
     [Recv_enter (calm_env 1 (t 0) r r) 4, Send_enter (calm_env 0 (t 1) a a) 3 len1 5,
      Load_msg (calm_env 0 (t 2) a a) m, Store_msg (calm_env 1 (t 3) r r) m,
      Free_msg (calm_env 1 (t 4) r r) m, Recv_exit (calm_env 1 (t 5) r r),
      Send_enter (calm_env 2 (t 6) b b) 3 len2 5, Load_msg (calm_env 2 (t 7) b b) m,
      Send_exit (calm_env 0 (t 8) a a) 0, Msg_insert (calm_env 2 (t 9) b b) m 0,
      Send_exit (calm_env 2 (t 10) b b) 0, Recv_enter (calm_env 1 (t 11) r r) 4,
      Store_msg (calm_env 1 (t 12) r r) m]"

text \<open>
  The handlers on a state in which nothing fails, field by field: what the longer runs are computed with.
\<close>

abbreviation mq_st where
  "mq_st c st se re pe qu di r \<equiv>
     \<lparr>ctrl_map = Some c, stats_map = Some st, active_sends = se, active_receives = re, pending_messages = pe,
      queued_messages = qu, direct_messages = di, rb = r\<rparr>"

lemma calm_recv_enter:
  assumes "enable c" and "k \<noteq> 0" and "length re < MQ_MAX_INFLIGHT_CALLS"
  shows "mq_step (Recv_enter (calm_env p t k k) q) (mq_st c st se re pe qu di r) =
    mq_st c st se (AList.update (pack32 k k) \<lparr>rc_receiver_pid = k, rc_mqdes = q, rc_receiver_comm = ''demo''\<rparr> re) pe qu di r"
  using assms by (simp add: mq_recv_enter_def current_tgid_def recv_ctx_of_def hash_update_def)

lemma calm_recv_exit:
  "mq_step (Recv_exit (calm_env p t k k)) (mq_st c st se re pe qu di r) = mq_st c st se (bpf_delete (pack32 k k) re) pe qu di r"
  by (simp add: mq_recv_exit_def)

lemma calm_send_enter:
  assumes "enable c" and "k \<noteq> 0" and "length se < MQ_MAX_INFLIGHT_CALLS"
  shows "mq_step (Send_enter (calm_env p t k k) q len prio) (mq_st c st se re pe qu di r) =
    mq_st c st (AList.update (pack32 k k) \<lparr>sc_msg_key = 0, sc_msg_len = len, sc_sender_pid = k, sc_mqdes = q,
      sc_msg_prio = prio, sc_sender_comm = ''demo''\<rparr> se) re pe qu di r"
  using assms by (simp add: mq_send_enter_def current_tgid_def send_ctx_of_def hash_update_def)

lemma calm_lru_update:
  "length m < MQ_MAX_TRACKED_MESSAGES \<Longrightarrow> lru_update MQ_MAX_TRACKED_MESSAGES (True, []) k v m = Some (AList.update k v m)"
  by (simp add: lru_update_def lru_room_def lru_evict_def MQ_MAX_TRACKED_MESSAGES_def)

lemma calm_load:
  assumes "valid_msg_ptr m" and "map_of se (pack32 k k) = Some x" and "length pe < MQ_MAX_TRACKED_MESSAGES"
  shows "mq_step (Load_msg (calm_env p t k k) m) (mq_st c st se re pe qu di r) =
    mq_st c st (AList.update (pack32 k k) (x\<lparr>sc_msg_key := m\<rparr>) se) re (AList.update m (pending_of x) pe) qu di r"
  using assms by (simp add: mq_load_msg_exit_def calm_lru_update)

lemma calm_insert:
  assumes "m \<noteq> 0"
  shows "mq_step (Msg_insert (calm_env p t k k) m 0) (mq_st c st se re [] qu di r) = mq_st c st se re [] qu di r"
  using assms by (simp add: mq_msg_insert_exit_def)

lemma calm_send_exit:
  assumes "map_of se (pack32 k k) = Some x" and "sc_msg_key x \<noteq> 0" and "length di < MQ_MAX_TRACKED_MESSAGES"
  shows "mq_step (Send_exit (calm_env p t k k) 0) (mq_st c st se re pe qu di r) =
    (case map_of pe (sc_msg_key x) of
       None \<Rightarrow> mq_st c st (bpf_delete (pack32 k k) se) re pe qu di r
     | Some v \<Rightarrow> mq_st c st (bpf_delete (pack32 k k) se) re (bpf_delete (sc_msg_key x) pe) qu
                  (AList.update (sc_msg_key x) v di) r)"
  using assms by (simp add: mq_send_exit_def calm_lru_update Let_def split: option.split)

lemma calm_submit_direct:
  assumes "enable c" and "target_pid c = 0"
  shows "submit_direct (calm_env p t k k) d rc (mq_st c st se re pe qu di r) =
    mq_st c (st\<lparr>direct_count := direct_count st + 1\<rparr>) se re pe qu di
      (r @ (if min_delay_ns c = 0 then [direct_event (calm_env p t k k) d rc] else []))"
  using assms by (simp add: submit_direct_def pid_matches_def mq_stat_def stats_add_def)

lemma calm_store:
  assumes "enable c" and "target_pid c = 0" and "m \<noteq> 0" and "map_of re (pack32 k k) = Some rc"
    and "(pe = [(m, d)] \<and> di = []) \<or> (pe = [] \<and> di = [(m, d)])"
  shows "mq_step (Store_msg (calm_env p t k k) m) (mq_st c st se re pe [] di r) =
    mq_st c (st\<lparr>direct_count := direct_count st + 1\<rparr>) se re [] [] []
      (r @ (if min_delay_ns c = 0 then [direct_event (calm_env p t k k) d rc] else []))"
  using assms(4,5) by (auto simp: mq_store_msg_enter_def consume_message_def calm_submit_direct assms(1-3) bpf_delete_def)

lemma calm_free:
  assumes "m \<noteq> 0" and "map_of re (pack32 k k) = Some rc"
  shows "mq_step (Free_msg (calm_env p t k k) m) (mq_st c st se re [] [] [] r) = mq_st c st se re [] [] [] r"
  using assms by (simp add: mq_free_msg_enter_def consume_message_def)

lemmas calm_steps = calm_recv_enter calm_recv_exit calm_send_enter calm_load calm_insert calm_send_exit calm_store calm_free



end
