(* ===== verification/NetSock.thy ===== *)
theory NetSock
  imports Prelude
begin

section \<open>Sockets as the network probes read them\<close>

text \<open>
  What \<^verbatim>\<open>net/tcp_monitor\<close> and \<^verbatim>\<open>net/udp_monitor\<close> read of a \<^verbatim>\<open>struct sock\<close> in one firing. An IPv6 address is
  the list of its 16 bytes. Ports in packets and in \<^verbatim>\<open>skc_dport\<close> are in network order; \<open>bpf_ntohs\<close>
  swaps the two bytes, as on the little-endian targets the toolbox is built for.
\<close>

type_synonym addr6 = "u8 list"

record sock =
  skc_family :: u16
  skc_num :: u16
  skc_dport :: u16
  skc_rcv_saddr :: u32
  skc_daddr :: u32
  inet_saddr :: u32
  skc_v6_rcv_saddr :: addr6
  skc_v6_daddr :: addr6
  skc_state :: u8

definition AF_INET :: s32 where
  "AF_INET = 2"

definition AF_INET6 :: s32 where
  "AF_INET6 = 10"

definition no_addr6 :: addr6 where
  "no_addr6 = replicate 16 0"

definition bpf_ntohs :: "u16 \<Rightarrow> u16" where
  "bpf_ntohs w = push_bit 8 w OR drop_bit 8 w"

text \<open>A TCP or UDP socket of a local and a remote port and IPv4 addresses.\<close>

definition demo_sock :: "u16 \<Rightarrow> u16 \<Rightarrow> sock" where
  "demo_sock lport rport =
     \<lparr>skc_family = 2, skc_num = lport, skc_dport = rport, skc_rcv_saddr = 0x0100007F, skc_daddr = 0x0200007F,
      inet_saddr = 0x0100007F, skc_v6_rcv_saddr = no_addr6, skc_v6_daddr = no_addr6, skc_state = 1\<rparr>"

section \<open>Lemmas\<close>

lemma bpf_ntohs_twice [simp]: "bpf_ntohs (bpf_ntohs w) = w"
  unfolding bpf_ntohs_def
  by (rule bit_word_eqI) (auto simp: bit_simps dest: bit_imp_le_length)

lemma af_distinct [simp]: "AF_INET \<noteq> AF_INET6" "AF_INET6 \<noteq> AF_INET"
  by (simp_all add: AF_INET_def AF_INET6_def)

end
