(* ===== verification/InetText.thy ===== *)
theory InetText
  imports Printf NetSock
begin

section \<open>Addresses as text\<close>

text \<open>
  \<^verbatim>\<open>inet_ntop\<close> as the GNU C library has it, which the network modules call to print addresses: an IPv4 address is
  its four bytes in memory order, in decimal; an IPv6 address is its eight groups in hexadecimal with the first longest run of
  at least two zero groups left out, and with the last two groups as an IPv4 address when the zeros (and
  \<open>ffff\<close>) in front make it an IPv4-compatible or IPv4-mapped one.
\<close>

definition INET6_ADDRSTRLEN :: nat where
  "INET6_ADDRSTRLEN = 46"

definition dotted :: "u8 list \<Rightarrow> string" where
  "dotted bs = concat (map (\<lambda>i. (if i = 0 then [] else ''.'') @ fmt_u (bs ! i)) [0, 1, 2, 3])"

text \<open>The bytes of an IPv4 address in the memory of a little-endian machine.\<close>

definition bytes4 :: "u32 \<Rightarrow> u8 list" where
  "bytes4 w = [ucast w, ucast (drop_bit 8 w), ucast (drop_bit 16 w), ucast (drop_bit 24 w)]"

definition inet_ntop4 :: "u32 \<Rightarrow> string" where
  "inet_ntop4 w = dotted (bytes4 w)"

text \<open>
  \<^verbatim>\<open>inet_pton\<close> for IPv4: four decimal numbers up to 255 with no leading zero; \<open>None\<close> when the text is
  not an address.
\<close>

definition octet :: "string \<Rightarrow> u8 option" where
  "octet t = (if t \<noteq> [] \<and> list_all c_isdigit t \<and> (hd t = CHR ''0'' \<longrightarrow> length t = 1) \<and> digits_val t \<le> 255
     then Some (of_nat (digits_val t)) else None)"

definition inet_pton4 :: "string \<Rightarrow> u32 option" where
  "inet_pton4 t = (case map octet (split_on (CHR ''.'') t) of
     [Some a, Some b, Some c, Some d] \<Rightarrow>
       Some (ucast a OR push_bit 8 (ucast b) OR push_bit 16 (ucast c) OR push_bit 24 (ucast d))
   | _ \<Rightarrow> None)"

definition groups6 :: "addr6 \<Rightarrow> u16 list" where
  "groups6 bs = map (\<lambda>i. push_bit 8 (ucast (bs ! (2 * i))) OR ucast (bs ! (2 * i + 1))) [0, 1, 2, 3, 4, 5, 6, 7]"

text \<open>The first longest run of zero groups: where it begins and how many they are.\<close>

definition zero_run :: "u16 list \<Rightarrow> nat \<Rightarrow> nat" where
  "zero_run ws i = length (takeWhile (\<lambda>w. w = 0) (drop i ws))"

definition best_run :: "u16 list \<Rightarrow> nat \<times> nat" where
  "best_run ws = fold (\<lambda>i (b, l). if l < zero_run ws i then (i, zero_run ws i) else (b, l)) [0, 1, 2, 3, 4, 5, 6, 7] (0, 0)"

text \<open>What the loop of \<^verbatim>\<open>inet_ntop6\<close> writes for group \<open>i\<close>, given the run \<open>(b, l)\<close> left out, \<open>l = 0\<close> for none.\<close>

definition embeds4 :: "u16 list \<Rightarrow> nat \<Rightarrow> nat \<Rightarrow> bool" where
  "embeds4 ws b l \<longleftrightarrow> b = 0 \<and> (l = 6 \<or> (l = 5 \<and> ws ! 5 = 0xFFFF))"

definition group6 :: "addr6 \<Rightarrow> u16 list \<Rightarrow> nat \<Rightarrow> nat \<Rightarrow> nat \<Rightarrow> string" where
  "group6 bs ws b l i =
     (if b \<le> i \<and> i < b + l then if i = b then '':'' else []
      else if embeds4 ws b l \<and> i = 7 then []
      else (if i = 0 then [] else '':'') @ (if embeds4 ws b l \<and> i = 6 then dotted (drop 12 bs) else fmt_x (ws ! i)))"

definition inet_ntop6 :: "addr6 \<Rightarrow> string" where
  "inet_ntop6 bs = (let ws = groups6 bs; (b, l0) = best_run ws; l = (if l0 < 2 then 0 else l0) in
     concat (map (group6 bs ws b l) [0, 1, 2, 3, 4, 5, 6, 7]) @ (if l \<noteq> 0 \<and> b + l = 8 then '':'' else []))"

section \<open>Lemmas\<close>

text \<open>Evaluation of the text of a given address.\<close>

lemmas text_eval = inet_ntop6_def groups6_def best_run_def zero_run_def group6_def embeds4_def dotted_def
  fmt_x_def fmt_u_def hexadecimal.simps decimal.simps hex_digit_def char_of_def bit_0 ljust_def

lemma unat_word_less: "unat (w :: 'a :: len word) < 2 ^ LENGTH('a)"
  by (rule unsigned_less)

lemma length_fmt_u8: "length (fmt_u (w :: u8)) \<le> 3"
proof -
  have "unat w < 10 ^ 3" using unat_word_less [of w] by simp
  from length_decimal [OF this] show ?thesis by (simp add: fmt_u_def)
qed

lemma length_fmt_x16: "length (fmt_x (w :: u16)) \<le> 4"
proof -
  have "unat w < 16 ^ 4" using unat_word_less [of w] by simp
  from length_hexadecimal [OF this] show ?thesis by (simp add: fmt_x_def)
qed

lemma length_fmt_u16: "length (fmt_u (w :: u16)) \<le> 5"
proof -
  have "unat w < 10 ^ 5" using unat_word_less [of w] by simp
  from length_decimal [OF this] show ?thesis by (simp add: fmt_u_def)
qed

lemma length_dotted: "length (dotted bs) \<le> 15"
  using length_fmt_u8 [of "bs ! 0"] length_fmt_u8 [of "bs ! 1"] length_fmt_u8 [of "bs ! 2"] length_fmt_u8 [of "bs ! 3"]
  by (simp add: dotted_def)

lemma length_inet_ntop4: "length (inet_ntop4 w) \<le> 15"
  by (simp add: inet_ntop4_def length_dotted)

lemma length_group6:
  assumes "\<not> embeds4 ws b l"
  shows "length (group6 bs ws b l i) \<le> (if b \<le> i \<and> i < b + l then if i = b then 1 else 0 else if i = 0 then 4 else 5)"
  using assms length_fmt_x16 [of "ws ! i"] by (auto simp: group6_def)

text \<open>A group takes at most five characters, the first four; a run that is left out takes one.\<close>

lemma length_inet_ntop6: "length (inet_ntop6 bs) \<le> 39"
proof -
  let ?ws = "groups6 bs"
  obtain b l0 where r: "best_run ?ws = (b, l0)" by (cases "best_run ?ws")
  define l where "l = (if l0 < 2 then 0 else l0)"
  define g where "g i = length (group6 bs ?ws b l i)" for i
  define e where "e = (if l \<noteq> 0 \<and> b + l = 8 then 1 else 0 :: nat)"
  have len: "length (inet_ntop6 bs) = g 0 + g 1 + g 2 + g 3 + g 4 + g 5 + g 6 + g 7 + e"
    by (simp add: inet_ntop6_def r l_def g_def e_def Let_def)
  show ?thesis
  proof (cases "embeds4 ?ws b l")
    case True
    have "g i \<le> (if i = 0 then 1 else if i < 5 then 0 else if i = 5 then 5 else if i = 6 then 16 else 0)" if "i < 8" for i
      using that True length_fmt_x16 [of "?ws ! i"] length_dotted [of "drop 12 bs"]
      by (auto simp: g_def group6_def embeds4_def)
    from this [of 0] this [of 1] this [of 2] this [of 3] this [of 4] this [of 5] this [of 6] this [of 7]
    show ?thesis unfolding len by (simp add: e_def split: if_splits)
  next
    case False
    have g: "g i \<le> (if i = 0 then 4 else 5)" for i
      using length_group6 [OF False, of bs i] by (auto simp: g_def split: if_splits)
    note gs = g [of 0] g [of 1] g [of 2] g [of 3] g [of 4] g [of 5] g [of 6] g [of 7]
    show ?thesis
    proof (cases "l = 0")
      case True
      then show ?thesis using gs unfolding len e_def by simp
    next
      case l: False
      then have l2: "2 \<le> l" by (auto simp: l_def)
      have b: "g b \<le> 1" "g (b + 1) = 0"
        using l2 length_group6 [OF False, of bs b] length_group6 [OF False, of bs "b + 1"] by (auto simp: g_def)
      have e: "e \<le> 1" "6 < b \<Longrightarrow> e = 0" using l2 by (auto simp: e_def)
      consider "b = 0" | "b = 1" | "b = 2" | "b = 3" | "b = 4" | "b = 5" | "b = 6" | "6 < b" by linarith
      then show ?thesis using gs b e unfolding len by cases simp_all
    qed
  qed
qed

subsection \<open>Reading back what was written\<close>

lemma decimal_no_lead: "hd (decimal n) = CHR ''0'' \<Longrightarrow> length (decimal n) = 1"
proof (induction n rule: decimal.induct)
  case (1 n)
  show ?case
  proof (cases "n < 10")
    case False
    then have h: "hd (decimal n) = hd (decimal (n div 10))" by (subst decimal.simps) simp
    then have "length (decimal (n div 10)) = 1" using 1 False by simp
    then obtain c where c: "decimal (n div 10) = [c]" by (auto simp: length_Suc_conv)
    have "n div 10 = 0" using decimal_val [of "n div 10"] c h 1(2) by (auto simp: digits_val_def digit_val_def)
    then show ?thesis using False by simp
  qed (subst decimal.simps, simp)
qed

lemma octet_fmt [simp]: "octet (fmt_u w) = Some w"
proof -
  have "unat w \<le> 255" using unat_word_less [of w] by simp
  then show ?thesis
    using decimal_no_lead [of "unat w"] by (simp add: octet_def fmt_u_def decimal_digits decimal_val)
qed

lemma no_dot: "CHR ''.'' \<notin> set (fmt_u w)"
  using decimal_digits [of "unat w"] by (auto simp: fmt_u_def list_all_iff c_isdigit_def)

lemma split_dotted: "split_on (CHR ''.'') (dotted [a, b, c, d]) = [fmt_u a, fmt_u b, fmt_u c, fmt_u d]"
  by (simp add: dotted_def split_on_join split_on_whole no_dot)

lemma bytes4_word:
  "ucast (ucast w :: u8) OR push_bit 8 (ucast (ucast (drop_bit 8 w) :: u8))
     OR push_bit 16 (ucast (ucast (drop_bit 16 w) :: u8)) OR push_bit 24 (ucast (ucast (drop_bit 24 w) :: u8)) = (w :: u32)" (is "?l = w")
proof (rule bit_word_eqI)
  fix n
  assume "n < LENGTH(32)"
  then consider "n < 8" | "8 \<le> n" "n < 16" | "16 \<le> n" "n < 24" | "24 \<le> n" "n < 32" by fastforce
  then show "bit ?l n = bit w n"
    by cases (auto simp: bit_simps)
qed

text \<open>Every IPv4 address is read back from its text.\<close>

lemma inet_pton4_ntop4: "inet_pton4 (inet_ntop4 w) = Some w"
  by (simp add: inet_pton4_def inet_ntop4_def bytes4_def split_dotted bytes4_word)

lemma printable_dotted [simp]: "printable (dotted bs)"
  by (simp add: dotted_def)

lemma printable_inet [simp]: "printable (inet_ntop4 w)" "printable (inet_ntop6 bs)"
  by (simp_all add: inet_ntop4_def inet_ntop6_def group6_def Let_def case_prod_beta)

lemma no_colon: "CHR '':'' \<notin> set (inet_ntop4 w)"
proof -
  have "CHR '':'' \<notin> set (fmt_u b)" for b :: u8
    using decimal_digits [of "unat b"] by (auto simp: fmt_u_def list_all_iff c_isdigit_def)
  then show ?thesis by (simp add: inet_ntop4_def dotted_def)
qed

text \<open>An IPv4-mapped address.\<close>

lemma inet_ntop6_mapped: "inet_ntop6 (replicate 10 0 @ [0xFF, 0xFF] @ bytes4 w) = ''::ffff:'' @ inet_ntop4 w"
proof -
  let ?a = "replicate 10 0 @ [0xFF, 0xFF] @ bytes4 w"
  have a: "?a = [0, 0, 0, 0, 0, 0, 0, 0, 0, 0, 0xFF, 0xFF] @ bytes4 w" by (simp add: numeral_eq_Suc)
  obtain g h where ws: "groups6 ?a = [0, 0, 0, 0, 0, 0xFFFF, g, h]"
    unfolding a by (simp add: groups6_def bytes4_def)
  have z: "zero_run [0, 0, 0, 0, 0, 0xFFFF, g, h] i = 5 - i" if "i \<in> {0, 1, 2, 3, 4, 5}" for i
    using that by (auto simp: zero_run_def)
  have "zero_run [0, 0, 0, 0, 0, 0xFFFF, g, h] 6 \<le> 2" "zero_run [0, 0, 0, 0, 0, 0xFFFF, g, h] 7 \<le> 1"
    by (simp_all add: zero_run_def)
  then have "best_run [0, 0, 0, 0, 0, 0xFFFF, g, h] = (0, 5)" by (simp add: best_run_def z)
  moreover have "fmt_x (0xFFFF :: u16) = ''ffff''"
    by (simp add: fmt_x_def hexadecimal.simps hex_digit_def char_of_def bit_0)
  moreover have "drop 12 ?a = bytes4 w" unfolding a by simp
  ultimately show ?thesis
    by (simp add: inet_ntop6_def ws group6_def embeds4_def inet_ntop4_def del: append_assoc append_Cons)
qed

end
