(* ===== verification/TcpMonitor.thy ===== *)
theory TcpMonitor
  imports Monitor PidNs RunLoop InetText Logger
begin

section \<open>net/tcp\_monitor: the life of client connections\<close>

text \<open>
  \<^verbatim>\<open>net/tcp_monitor\<close>: a connect creates a session under the address of its socket, its return fills in the
  addresses or removes the session, and the end of the handshake, each retransmission and the close look the
  session up, update it in place and report with the ids of the connecting thread. The close removes it.
\<close>

definition TCP_EV_HANDSHAKE :: u32 where
  "TCP_EV_HANDSHAKE = 0"

definition TCP_EV_RETRANSMIT :: u32 where
  "TCP_EV_RETRANSMIT = 1"

definition TCP_EV_CLOSE :: u32 where
  "TCP_EV_CLOSE = 2"

record TcpMonitor_ctrl =
  enable :: bool
  min_latency_ns :: u64
  target_pid :: s32
  pid_ns_dev :: u64
  pid_ns_ino :: u64

record tcp_sess =
  start_ts :: u64
  se_tgid :: u32
  se_tid :: u32
  se_retrans_cnt :: u32
  handshake_reported :: bool
  se_sport :: u16
  se_dport :: u16
  se_af :: s32
  se_saddr_v4 :: u32
  se_daddr_v4 :: u32
  se_saddr_v6 :: addr6
  se_daddr_v6 :: addr6
  se_comm :: cstr

record TcpMonitor_event =
  ev_type :: u32
  ev_ts_ns :: u64
  ev_latency_ns :: u64
  ev_retrans_cnt :: u32
  ev_tgid :: u32
  ev_tid :: u32
  ev_sport :: u16
  ev_dport :: u16
  ev_saddr_v4 :: u32
  ev_daddr_v4 :: u32
  ev_af :: s32
  ev_state :: u32
  ev_comm :: cstr
  ev_saddr_v6 :: addr6
  ev_daddr_v6 :: addr6

record TcpMonitor_stats =
  connect_attempted :: u64
  hs_count :: u64
  hs_total_ns :: u64
  hs_max_ns :: u64
  rt_count :: u64
  cl_count :: u64
  cl_total_ns :: u64
  cl_max_ns :: u64
  filtered_latency :: u64
  ringbuf_dropped :: u64
  map_update_failed :: u64
  untracked_events :: u64
  hs_max_sport :: u16
  hs_max_dport :: u16
  hs_max_af :: s32
  hs_max_saddr :: u32
  hs_max_daddr :: u32
  hs_max_saddr_v6 :: addr6
  hs_max_daddr_v6 :: addr6
  hs_max_comm :: cstr

text \<open>The maps; \<open>sess_map\<close> is an LRU map of 16384 entries.\<close>

record TcpMonitor_state =
  sess_map :: "(u64, tcp_sess) bmap"
  ctrl_map :: "TcpMonitor_ctrl option"
  stats_map :: "TcpMonitor_stats list"
  rb :: "TcpMonitor_event list"

definition SESS_MAP_MAX :: nat where
  "SESS_MAP_MAX = 16384"

definition tcp_count ::
    "bpf_env \<Rightarrow> (TcpMonitor_stats \<Rightarrow> TcpMonitor_stats) \<Rightarrow> TcpMonitor_state \<Rightarrow> TcpMonitor_state" where
  "tcp_count env f s = s\<lparr>stats_map := percpu_upd (env_cpu env) f (stats_map s)\<rparr>"

definition session_allowed :: "TcpMonitor_ctrl option \<Rightarrow> tcp_sess \<Rightarrow> bool" where
  "session_allowed ctrl sess =
     (case ctrl of None \<Rightarrow> False
      | Some c \<Rightarrow> enable c \<and> (target_pid c = 0 \<or> target_pid c = se_tgid sess))"

definition fill_sock :: "sock \<Rightarrow> TcpMonitor_event \<Rightarrow> TcpMonitor_event" where
  "fill_sock sk e0 = (let
     e1 = e0\<lparr>ev_af := ucast (skc_family sk), ev_sport := skc_num sk, ev_dport := bpf_ntohs (skc_dport sk)\<rparr>
     in if ev_af e1 = AF_INET
        then e1\<lparr>ev_saddr_v4 := skc_rcv_saddr sk, ev_daddr_v4 := skc_daddr sk,
                ev_saddr_v6 := no_addr6, ev_daddr_v6 := no_addr6\<rparr>
        else if ev_af e1 = AF_INET6
        then e1\<lparr>ev_saddr_v4 := 0, ev_daddr_v4 := 0,
                ev_saddr_v6 := skc_v6_rcv_saddr sk, ev_daddr_v6 := skc_v6_daddr sk\<rparr>
        else e1)"

definition fill_process :: "tcp_sess \<Rightarrow> TcpMonitor_event \<Rightarrow> TcpMonitor_event" where
  "fill_process sess e = e\<lparr>ev_tgid := se_tgid sess, ev_tid := se_tid sess, ev_comm := se_comm sess\<rparr>"

definition save_sock :: "sock \<Rightarrow> tcp_sess \<Rightarrow> tcp_sess" where
  "save_sock sk v0 = (let
     v1 = v0\<lparr>se_af := ucast (skc_family sk), se_sport := skc_num sk, se_dport := bpf_ntohs (skc_dport sk)\<rparr>
     in if se_af v1 = AF_INET then v1\<lparr>se_saddr_v4 := skc_rcv_saddr sk, se_daddr_v4 := skc_daddr sk\<rparr>
        else if se_af v1 = AF_INET6
        then v1\<lparr>se_saddr_v6 := skc_v6_rcv_saddr sk, se_daddr_v6 := skc_v6_daddr sk\<rparr>
        else v1)"

definition fill_saved_sock :: "tcp_sess \<Rightarrow> TcpMonitor_event \<Rightarrow> TcpMonitor_event" where
  "fill_saved_sock sess e =
     e\<lparr>ev_af := se_af sess, ev_sport := se_sport sess, ev_dport := se_dport sess,
       ev_saddr_v4 := se_saddr_v4 sess, ev_daddr_v4 := se_daddr_v4 sess,
       ev_saddr_v6 := se_saddr_v6 sess, ev_daddr_v6 := se_daddr_v6 sess\<rparr>"

text \<open>The event after \<^verbatim>\<open>memset\<close>, and the session a connect creates.\<close>

definition event_zero :: TcpMonitor_event where
  "event_zero =
     \<lparr>ev_type = 0, ev_ts_ns = 0, ev_latency_ns = 0, ev_retrans_cnt = 0, ev_tgid = 0, ev_tid = 0, ev_sport = 0,
      ev_dport = 0, ev_saddr_v4 = 0, ev_daddr_v4 = 0, ev_af = 0, ev_state = 0, ev_comm = '''',
      ev_saddr_v6 = no_addr6, ev_daddr_v6 = no_addr6\<rparr>"

definition sess_of :: "bpf_env \<Rightarrow> u64 \<Rightarrow> tcp_sess" where
  "sess_of env pid_tgid =
     \<lparr>start_ts = env_ktime env, se_tgid = hi32 pid_tgid, se_tid = lo32 pid_tgid, se_retrans_cnt = 0,
      handshake_reported = False, se_sport = 0, se_dport = 0, se_af = 0, se_saddr_v4 = 0, se_daddr_v4 = 0,
      se_saddr_v6 = no_addr6, se_daddr_v6 = no_addr6, se_comm = env_comm env\<rparr>"

definition record_connect :: "bpf_env \<Rightarrow> u64 \<Rightarrow> TcpMonitor_state \<Rightarrow> TcpMonitor_state" where
  "record_connect env key s =
     (case ctrl_map s of None \<Rightarrow> s
      | Some ctrl \<Rightarrow>
        if \<not> enable ctrl then s
        else let pid_tgid = app_current_pid_tgid_ns env (pid_ns_dev ctrl) (pid_ns_ino ctrl) in
        if pid_tgid = 0 then s
        else if target_pid ctrl \<noteq> 0 \<and> target_pid ctrl \<noteq> hi32 pid_tgid then s
        else let s1 = tcp_count env (\<lambda>c. c\<lparr>connect_attempted := connect_attempted c + 1\<rparr>) s in
        (case lru_update SESS_MAP_MAX (env_update_ok env, env_evict env) key (sess_of env pid_tgid) (sess_map s1) of
           None \<Rightarrow> tcp_count env (\<lambda>c. c\<lparr>map_update_failed := map_update_failed c + 1\<rparr>) s1
         | Some m \<Rightarrow> s1\<lparr>sess_map := m\<rparr>))"

definition finish_connect_call :: "u64 \<Rightarrow> sock \<Rightarrow> s32 \<Rightarrow> TcpMonitor_state \<Rightarrow> TcpMonitor_state" where
  "finish_connect_call key sk ret s =
     (if sint ret < 0 then s\<lparr>sess_map := bpf_delete key (sess_map s)\<rparr>
      else case map_of (sess_map s) key of None \<Rightarrow> s
      | Some sess \<Rightarrow> s\<lparr>sess_map := AList.update key (save_sock sk sess) (sess_map s)\<rparr>)"

text \<open>The blocks of \<open>trace_tcp_finish_connect\<close>: the aggregate and the event.\<close>

definition tcp_hs_stats :: "u64 \<Rightarrow> tcp_sess \<Rightarrow> TcpMonitor_stats \<Rightarrow> TcpMonitor_stats" where
  "tcp_hs_stats latency_ns sess c0 = (let
     c1 = c0\<lparr>hs_count := hs_count c0 + 1, hs_total_ns := hs_total_ns c0 + latency_ns\<rparr>
     in if latency_ns > hs_max_ns c1
        then c1\<lparr>hs_max_ns := latency_ns, hs_max_sport := se_sport sess, hs_max_dport := se_dport sess,
                hs_max_af := se_af sess, hs_max_saddr := se_saddr_v4 sess, hs_max_daddr := se_daddr_v4 sess,
                hs_max_saddr_v6 := se_saddr_v6 sess, hs_max_daddr_v6 := se_daddr_v6 sess,
                hs_max_comm := se_comm sess\<rparr>
        else c1)"

definition handshake_event :: "bpf_env \<Rightarrow> sock \<Rightarrow> tcp_sess \<Rightarrow> TcpMonitor_event" where
  "handshake_event env sk sess =
     fill_saved_sock sess (fill_process sess
       (event_zero\<lparr>ev_type := TCP_EV_HANDSHAKE, ev_ts_ns := env_ktime env,
          ev_latency_ns := env_ktime env - start_ts sess, ev_state := ucast (skc_state sk)\<rparr>))"

definition trace_tcp_finish_connect :: "bpf_env \<Rightarrow> u64 \<Rightarrow> sock \<Rightarrow> TcpMonitor_state \<Rightarrow> TcpMonitor_state" where
  "trace_tcp_finish_connect env key sk s =
     (case ctrl_map s of None \<Rightarrow> s
      | Some ctrl \<Rightarrow>
        if \<not> enable ctrl then s
        else (case map_of (sess_map s) key of
          None \<Rightarrow>
            if target_pid ctrl = 0
            then tcp_count env (\<lambda>c. c\<lparr>untracked_events := untracked_events c + 1\<rparr>) s else s
        | Some sess \<Rightarrow>
            if \<not> session_allowed (Some ctrl) sess \<or> handshake_reported sess then s
            else let
              latency_ns = env_ktime env - start_ts sess;
              sess1 = sess\<lparr>handshake_reported := True\<rparr>
            in if min_latency_ns ctrl \<noteq> 0 \<and> latency_ns < min_latency_ns ctrl
            then tcp_count env (\<lambda>c. c\<lparr>filtered_latency := filtered_latency c + 1\<rparr>)
                   (s\<lparr>sess_map := AList.update key sess1 (sess_map s)\<rparr>)
            else let
              sess2 = save_sock sk sess1;
              s1 = tcp_count env (tcp_hs_stats latency_ns sess2)
                     (s\<lparr>sess_map := AList.update key sess2 (sess_map s)\<rparr>)
            in if \<not> env_reserve_ok env
            then tcp_count env (\<lambda>c. c\<lparr>ringbuf_dropped := ringbuf_dropped c + 1\<rparr>) s1
            else s1\<lparr>rb := rb s1 @ [handshake_event env sk sess2]\<rparr>))"

definition retransmit_event :: "bpf_env \<Rightarrow> sock \<Rightarrow> tcp_sess \<Rightarrow> TcpMonitor_event" where
  "retransmit_event env sk sess =
     fill_sock sk (fill_process sess
       (event_zero\<lparr>ev_type := TCP_EV_RETRANSMIT, ev_ts_ns := env_ktime env, ev_state := ucast (skc_state sk),
          ev_retrans_cnt := se_retrans_cnt sess\<rparr>))"

definition trace_tcp_retransmit :: "bpf_env \<Rightarrow> u64 \<Rightarrow> sock \<Rightarrow> TcpMonitor_state \<Rightarrow> TcpMonitor_state" where
  "trace_tcp_retransmit env key sk s =
     (case ctrl_map s of None \<Rightarrow> s
      | Some ctrl \<Rightarrow>
        if \<not> enable ctrl then s
        else (case map_of (sess_map s) key of
          None \<Rightarrow>
            if target_pid ctrl = 0
            then tcp_count env (\<lambda>c. c\<lparr>untracked_events := untracked_events c + 1\<rparr>) s else s
        | Some sess \<Rightarrow>
            if \<not> session_allowed (Some ctrl) sess then s
            else let
              sess1 = sess\<lparr>se_retrans_cnt := se_retrans_cnt sess + 1\<rparr>;
              s1 = tcp_count env (\<lambda>c. c\<lparr>rt_count := rt_count c + 1\<rparr>)
                     (s\<lparr>sess_map := AList.update key sess1 (sess_map s)\<rparr>)
            in if \<not> env_reserve_ok env
            then tcp_count env (\<lambda>c. c\<lparr>ringbuf_dropped := ringbuf_dropped c + 1\<rparr>) s1
            else s1\<lparr>rb := rb s1 @ [retransmit_event env sk sess1]\<rparr>))"

definition tcp_close_stats :: "u64 \<Rightarrow> TcpMonitor_stats \<Rightarrow> TcpMonitor_stats" where
  "tcp_close_stats lifetime_ns c0 = (let
     c1 = c0\<lparr>cl_count := cl_count c0 + 1, cl_total_ns := cl_total_ns c0 + lifetime_ns\<rparr>
     in if lifetime_ns > cl_max_ns c1 then c1\<lparr>cl_max_ns := lifetime_ns\<rparr> else c1)"

definition close_event :: "bpf_env \<Rightarrow> sock \<Rightarrow> tcp_sess \<Rightarrow> TcpMonitor_event" where
  "close_event env sk snapshot =
     fill_saved_sock snapshot (fill_process snapshot
       (event_zero\<lparr>ev_type := TCP_EV_CLOSE, ev_ts_ns := env_ktime env,
          ev_latency_ns := env_ktime env - start_ts snapshot, ev_state := ucast (skc_state sk),
          ev_retrans_cnt := se_retrans_cnt snapshot\<rparr>))"

definition trace_tcp_close :: "bpf_env \<Rightarrow> u64 \<Rightarrow> sock \<Rightarrow> TcpMonitor_state \<Rightarrow> TcpMonitor_state" where
  "trace_tcp_close env key sk s =
     (case map_of (sess_map s) key of None \<Rightarrow> s
      | Some snapshot \<Rightarrow> let
          s1 = s\<lparr>sess_map := bpf_delete key (sess_map s)\<rparr>
        in if \<not> session_allowed (ctrl_map s) snapshot then s1
        else let
          s2 = tcp_count env (tcp_close_stats (env_ktime env - start_ts snapshot)) s1
        in if \<not> env_reserve_ok env
        then tcp_count env (\<lambda>c. c\<lparr>ringbuf_dropped := ringbuf_dropped c + 1\<rparr>) s2
        else s2\<lparr>rb := rb s2 @ [close_event env sk snapshot]\<rparr>)"

text \<open>The firings, with the address of the socket; the probes for IPv4 and IPv6 are the same code.\<close>

datatype tcp_firing =
    Connect bpf_env u64
  | Connect_ret u64 sock s32
  | Finish bpf_env u64 sock
  | Retransmit bpf_env u64 sock
  | Close bpf_env u64 sock

fun tcp_step :: "tcp_firing \<Rightarrow> TcpMonitor_state \<Rightarrow> TcpMonitor_state" where
  "tcp_step (Connect env key) s = record_connect env key s"
| "tcp_step (Connect_ret key sk ret) s = finish_connect_call key sk ret s"
| "tcp_step (Finish env key sk) s = trace_tcp_finish_connect env key sk s"
| "tcp_step (Retransmit env key sk) s = trace_tcp_retransmit env key sk s"
| "tcp_step (Close env key sk) s = trace_tcp_close env key sk s"

subsection \<open>The user side\<close>

definition tcp_zero :: TcpMonitor_stats where
  "tcp_zero =
     \<lparr>connect_attempted = 0, hs_count = 0, hs_total_ns = 0, hs_max_ns = 0, rt_count = 0, cl_count = 0,
      cl_total_ns = 0, cl_max_ns = 0, filtered_latency = 0, ringbuf_dropped = 0, map_update_failed = 0,
      untracked_events = 0, hs_max_sport = 0, hs_max_dport = 0, hs_max_af = 0, hs_max_saddr = 0,
      hs_max_daddr = 0, hs_max_saddr_v6 = no_addr6, hs_max_daddr_v6 = no_addr6, hs_max_comm = ''''\<rparr>"

definition tcp_merge :: "TcpMonitor_stats \<Rightarrow> TcpMonitor_stats \<Rightarrow> TcpMonitor_stats" where
  "tcp_merge s v = (let
     s1 = s\<lparr>connect_attempted := connect_attempted s + connect_attempted v,
            hs_count := hs_count s + hs_count v,
            hs_total_ns := hs_total_ns s + hs_total_ns v,
            rt_count := rt_count s + rt_count v,
            cl_count := cl_count s + cl_count v,
            cl_total_ns := cl_total_ns s + cl_total_ns v\<rparr>;
     s2 = (if cl_max_ns v > cl_max_ns s1 then s1\<lparr>cl_max_ns := cl_max_ns v\<rparr> else s1);
     s3 = s2\<lparr>filtered_latency := filtered_latency s2 + filtered_latency v,
             ringbuf_dropped := ringbuf_dropped s2 + ringbuf_dropped v,
             map_update_failed := map_update_failed s2 + map_update_failed v,
             untracked_events := untracked_events s2 + untracked_events v\<rparr>
     in if hs_max_ns v > hs_max_ns s3
        then s3\<lparr>hs_max_ns := hs_max_ns v, hs_max_sport := hs_max_sport v, hs_max_dport := hs_max_dport v,
                hs_max_af := hs_max_af v, hs_max_saddr := hs_max_saddr v, hs_max_daddr := hs_max_daddr v,
                hs_max_saddr_v6 := hs_max_saddr_v6 v, hs_max_daddr_v6 := hs_max_daddr_v6 v,
                hs_max_comm := hs_max_comm v\<rparr>
        else s3)"

text \<open>
  The panel: the merged statistics; average and maximum of the handshakes in microseconds and of the life times in
  milliseconds, each when there was one. The C division by \<open>hs_count * 1000\<close> is one of 64-bit words.
\<close>

record Tcp_panel =
  panel_stats :: TcpMonitor_stats
  panel_hs :: "(u64 \<times> u64) option"
  panel_cl :: "(u64 \<times> u64) option"

definition tcp_print_stats :: "int \<Rightarrow> bool \<Rightarrow> TcpMonitor_stats list option \<Rightarrow> Tcp_panel option" where
  "tcp_print_stats ncpus alloc_ok values =
     (if ncpus \<le> 0 \<or> \<not> alloc_ok then None
      else case values of None \<Rightarrow> None
      | Some vs \<Rightarrow> let s = foldl tcp_merge tcp_zero (take (nat ncpus) vs) in
        if connect_attempted s = 0 \<and> hs_count s = 0 \<and> rt_count s = 0 \<and> cl_count s = 0 then None
        else Some \<lparr>panel_stats = s,
          panel_hs = (if hs_count s \<noteq> 0
            then Some (hs_total_ns s div (hs_count s * 1000), hs_max_ns s div 1000) else None),
          panel_cl = (if cl_count s \<noteq> 0
            then Some (cl_total_ns s div cl_count s div 1000000, cl_max_ns s div 1000000) else None)\<rparr>)"

definition tcp_state_str :: "u32 \<Rightarrow> string" where
  "tcp_state_str state =
     (if state = 1 then ''ESTAB'' else if state = 2 then ''SYN_SENT'' else if state = 3 then ''SYN_RECV''
      else if state = 4 then ''FIN_W1'' else if state = 5 then ''FIN_W2'' else if state = 6 then ''TIME_W''
      else if state = 7 then ''CLOSED'' else if state = 8 then ''CLOSE_W'' else if state = 9 then ''LAST_ACK''
      else if state = 10 then ''LISTEN'' else if state = 11 then ''CLOSING''
      else if state = 12 then ''NEW_SYN_RECV'' else ''???'')"

definition tcp_monitor_ctrl_of :: "bool \<Rightarrow> s32 \<Rightarrow> u64 \<Rightarrow> u64 \<Rightarrow> u64 \<Rightarrow> TcpMonitor_ctrl" where
  "tcp_monitor_ctrl_of en pid delay dev ino =
     \<lparr>enable = en, min_latency_ns = delay, target_pid = pid, pid_ns_dev = dev, pid_ns_ino = ino\<rparr>"

definition tcp_monitor_run ::
    "s32 \<Rightarrow> bool \<Rightarrow> s32 \<Rightarrow> u64 \<Rightarrow> run_env \<Rightarrow> (int \<times> TcpMonitor_ctrl action list) option" where
  "tcp_monitor_run timeout en pid delay e =
     run_module (\<lambda>_. 1) (\<lambda>err. err < 0) neg_or_zero (tcp_monitor_ctrl_of en pid delay) timeout e"

subsection \<open>The line of an event\<close>

text \<open>
  \<open>fmt_addr\<close>: an address with its port in a buffer of \<open>len\<close> bytes. \<^verbatim>\<open>inet_ntop\<close> writes into a buffer of
  \<^verbatim>\<open>INET6_ADDRSTRLEN\<close> bytes, which every address fits. Then \<open>handle_event\<close>, with two buffers of 48 bytes.
\<close>

definition fmt_addr :: "nat \<Rightarrow> s32 \<Rightarrow> u32 \<Rightarrow> addr6 \<Rightarrow> u16 \<Rightarrow> string" where
  "fmt_addr len af v4 v6 port =
     (if af = AF_INET then snprintf len (inet_ntop4 v4 @ '':'' @ ljust 5 (fmt_u port))
      else if af = AF_INET6 then
        (let ip = inet_ntop6 v6 in
         if take 7 ip = ''::ffff:'' then snprintf len (drop 7 ip @ '':'' @ ljust 5 (fmt_u port))
         else snprintf len (''['' @ ip @ '']:'' @ ljust 5 (fmt_u port)))
      else snprintf len (''?:'' @ ljust 5 (fmt_u port)))"

definition tcp_handle_event :: "wall \<Rightarrow> TcpMonitor_event \<Rightarrow> out_call list" where
  "tcp_handle_event now e = (let
     src = fmt_addr 48 (ev_af e) (ev_saddr_v4 e) (ev_saddr_v6 e) (ev_sport e);
     dst = fmt_addr 48 (ev_af e) (ev_daddr_v4 e) (ev_daddr_v6 e) (ev_dport e);
     who = '' | TGID='' @ ljust 6 (fmt_u (ev_tgid e)) @ '' TID='' @ ljust 6 (fmt_u (ev_tid e)) @ '' ''
       @ ljust 16 (ev_comm e) @ '' '' @ ljust 25 src @ '' '' @ ARROW @ '' '' @ ljust 25 dst @ '' | ''
     in log_output_lock
     @ (if ev_type e = TCP_EV_HANDSHAKE
        then LOG now (ljust 10 (C_GREEN @ ''HANDSHAKE'' @ C_RESET) @ who)
          @ log_col_us (ev_latency_ns e div 1000) 1000 10000 @ printf endl
        else if ev_type e = TCP_EV_RETRANSMIT
        then LOG now (ljust 10 (C_YELLOW @ ''RETRANSMIT'' @ C_RESET) @ who
          @ ''R#'' @ ljust 3 (fmt_u (ev_retrans_cnt e)) @ '' '' @ tcp_state_str (ev_state e) @ endl)
        else if ev_type e = TCP_EV_CLOSE
        then LOG now (ljust 10 (C_CYAN @ ''CLOSE'' @ C_RESET) @ who
          @ ''R#'' @ ljust 3 (fmt_u (ev_retrans_cnt e)) @ '' PRE='' @ tcp_state_str (ev_state e)
          @ '' LIFE='' @ fmt_u (ev_latency_ns e div 1000000) @ ''ms'' @ endl)
        else [])
     @ log_output_unlock)"

section \<open>Lemmas\<close>

interpretation tcp_runner: quiet_runner "\<lambda>err. err < 0" neg_or_zero "\<lambda>_. 1"
  by unfold_locales (simp_all add: neg_or_zero_simps)

text \<open>A connect of the traced process, and what a firing makes of the session of socket \<open>k\<close>.\<close>

definition tcp_ids :: "TcpMonitor_ctrl \<Rightarrow> bpf_env \<Rightarrow> u64" where
  "tcp_ids c env = app_current_pid_tgid_ns env (pid_ns_dev c) (pid_ns_ino c)"

definition tcp_tracked :: "TcpMonitor_ctrl \<Rightarrow> bpf_env \<Rightarrow> bool" where
  "tcp_tracked c env \<longleftrightarrow> enable c \<and> tcp_ids c env \<noteq> 0 \<and>
     (target_pid c = 0 \<or> target_pid c = hi32 (tcp_ids c env))"

definition tcp_below :: "TcpMonitor_ctrl \<Rightarrow> u64 \<Rightarrow> bool" where
  "tcp_below c latency \<longleftrightarrow> min_latency_ns c \<noteq> 0 \<and> latency < min_latency_ns c"

fun tcp_starts :: "TcpMonitor_ctrl \<Rightarrow> tcp_firing \<Rightarrow> (u64 \<times> tcp_sess) option" where
  "tcp_starts c (Connect env key) =
     (if tcp_tracked c env \<and> env_update_ok env then Some (key, sess_of env (tcp_ids c env)) else None)"
| "tcp_starts c _ = None"

fun tcp_touch :: "TcpMonitor_ctrl \<Rightarrow> tcp_firing \<Rightarrow> u64 \<Rightarrow> tcp_sess \<Rightarrow> tcp_sess option" where
  "tcp_touch c (Connect env key) k v =
     (if key = k \<and> tcp_tracked c env \<and> env_update_ok env then None else Some v)"
| "tcp_touch c (Connect_ret key sk ret) k v =
     (if key \<noteq> k then Some v else if sint ret < 0 then None else Some (save_sock sk v))"
| "tcp_touch c (Finish env key sk) k v =
     (if key = k \<and> session_allowed (Some c) v \<and> \<not> handshake_reported v
      then Some (if tcp_below c (env_ktime env - start_ts v) then v\<lparr>handshake_reported := True\<rparr>
                 else save_sock sk (v\<lparr>handshake_reported := True\<rparr>))
      else Some v)"
| "tcp_touch c (Retransmit env key sk) k v =
     (if key = k \<and> session_allowed (Some c) v then Some (v\<lparr>se_retrans_cnt := se_retrans_cnt v + 1\<rparr>) else Some v)"
| "tcp_touch c (Close env key sk) k v = (if key = k then None else Some v)"

fun tcp_reports :: "TcpMonitor_ctrl \<Rightarrow> tcp_firing \<Rightarrow> u64 \<Rightarrow> tcp_sess \<Rightarrow> TcpMonitor_event option" where
  "tcp_reports c (Finish env key sk) k v =
     (if key = k \<and> session_allowed (Some c) v \<and> \<not> handshake_reported v \<and>
         \<not> tcp_below c (env_ktime env - start_ts v) \<and> env_reserve_ok env
      then Some (handshake_event env sk (save_sock sk (v\<lparr>handshake_reported := True\<rparr>))) else None)"
| "tcp_reports c (Retransmit env key sk) k v =
     (if key = k \<and> session_allowed (Some c) v \<and> env_reserve_ok env
      then Some (retransmit_event env sk (v\<lparr>se_retrans_cnt := se_retrans_cnt v + 1\<rparr>)) else None)"
| "tcp_reports c (Close env key sk) k v =
     (if key = k \<and> session_allowed (Some c) v \<and> env_reserve_ok env then Some (close_event env sk v) else None)"
| "tcp_reports c _ k v = None"

definition tcp_inv :: "TcpMonitor_ctrl \<Rightarrow> nat \<Rightarrow> TcpMonitor_state \<Rightarrow> bool" where
  "tcp_inv c n s \<longleftrightarrow> ctrl_map s = Some c \<and> length (stats_map s) = n \<and> map_wf SESS_MAP_MAX (sess_map s)"

definition tcp_init :: "TcpMonitor_ctrl \<Rightarrow> nat \<Rightarrow> TcpMonitor_state" where
  "tcp_init c n = \<lparr>sess_map = [], ctrl_map = Some c, stats_map = replicate n tcp_zero, rb = []\<rparr>"

lemma tcp_count_simps [simp]:
  "sess_map (tcp_count env f s) = sess_map s"
  "ctrl_map (tcp_count env f s) = ctrl_map s"
  "rb (tcp_count env f s) = rb s"
  "stats_map (tcp_count env f s) = percpu_upd (env_cpu env) f (stats_map s)"
  by (simp_all add: tcp_count_def)

lemma save_sock_simps [simp]:
  "start_ts (save_sock sk v) = start_ts v"
  "se_tgid (save_sock sk v) = se_tgid v"
  "se_tid (save_sock sk v) = se_tid v"
  "se_comm (save_sock sk v) = se_comm v"
  "se_retrans_cnt (save_sock sk v) = se_retrans_cnt v"
  "handshake_reported (save_sock sk v) = handshake_reported v"
  by (simp_all add: save_sock_def Let_def)

lemmas tcp_handler_defs = record_connect_def finish_connect_call_def trace_tcp_finish_connect_def
  trace_tcp_retransmit_def trace_tcp_close_def Let_def tcp_ids_def [symmetric] tcp_below_def [symmetric]

text \<open>The table of sessions after each firing.\<close>

lemma connect_tab:
  assumes "ctrl_map s = Some c"
  shows "sess_map (record_connect env key s) =
    (if tcp_tracked c env
     then map_or_same (lru_update SESS_MAP_MAX (env_update_ok env, env_evict env) key (sess_of env (tcp_ids c env)) (sess_map s)) (sess_map s)
     else sess_map s)"
  using assms by (auto simp: tcp_handler_defs tcp_tracked_def split: option.split)

fun tcp_key :: "tcp_firing \<Rightarrow> u64" where
  "tcp_key (Connect env key) = key"
| "tcp_key (Connect_ret key sk ret) = key"
| "tcp_key (Finish env key sk) = key"
| "tcp_key (Retransmit env key sk) = key"
| "tcp_key (Close env key sk) = key"

text \<open>All other firings change the session of their socket in place and leave the others alone.\<close>

lemma update_tab:
  assumes "ctrl_map s = Some c" and "\<And>env key. e \<noteq> Connect env key"
  shows "map_of (sess_map (tcp_step e s)) =
    (map_of (sess_map s))(tcp_key e := Option.bind (map_of (sess_map s) (tcp_key e)) (tcp_touch c e (tcp_key e)))"
  using assms
  by (cases e; cases "map_of (sess_map s) (tcp_key e)")
     (auto simp: tcp_handler_defs update_conv' session_allowed_def fun_upd_idem)

lemma tcp_touch_other: "k \<noteq> tcp_key e \<Longrightarrow> tcp_touch c e k v = Some v"
  by (cases e) auto

lemma tcp_step_tab:
  assumes "tcp_inv c n s" and "map_of (sess_map (tcp_step e s)) k = Some v'"
  shows "tcp_starts c e = Some (k, v') \<or> (\<exists>v. map_of (sess_map s) k = Some v \<and> tcp_touch c e k v = Some v')"
proof -
  have c: "ctrl_map s = Some c" and wf: "map_wf SESS_MAP_MAX (sess_map s)" using assms(1) by (simp_all add: tcp_inv_def)
  show ?thesis
  proof (cases "\<exists>env key. e = Connect env key")
    case True
    then obtain env key where e: "e = Connect env key" by blast
    let ?u = "lru_update SESS_MAP_MAX (env_update_ok env, env_evict env) key (sess_of env (tcp_ids c env)) (sess_map s)"
    have none: "?u = None \<longleftrightarrow> \<not> env_update_ok env" by (simp add: lru_update_None SESS_MAP_MAX_def)
    show ?thesis
    proof (cases "tcp_tracked c env")
      case True
      then have "map_of (map_or_same ?u (sess_map s)) k = Some v'" using assms(2) c e by (simp add: connect_tab)
      from lru.upd_found [OF wf this] show ?thesis using none True e by auto
    next
      case False
      then show ?thesis using assms(2) c e by (simp add: connect_tab)
    qed
  next
    case False
    then show ?thesis
      using assms(2) update_tab [OF c, of e] tcp_touch_other [of k e c]
      by (cases "k = tcp_key e") (auto simp: bind_eq_Some_conv)
  qed
qed

lemma tcp_step_rb:
  assumes "tcp_inv c n s" and "x \<in> set (rb (tcp_step e s))"
  shows "x \<in> set (rb s) \<or> (\<exists>k v. map_of (sess_map s) k = Some v \<and> tcp_reports c e k v = Some x)"
proof -
  have c: "ctrl_map s = Some c" using assms(1) by (simp add: tcp_inv_def)
  have "rb (tcp_step e s) = rb s @ reported (tcp_reports c e (tcp_key e)) (sess_map s) (tcp_key e)"
    using c by (cases e; cases "map_of (sess_map s) (tcp_key e)")
      (auto simp: tcp_handler_defs session_allowed_def split: option.split)
  then show ?thesis using assms(2) by (auto simp: in_reported)
qed

lemma map_wf_same_keys: "map_wf mx m \<Longrightarrow> map_of m k \<noteq> None \<Longrightarrow> map_wf mx (AList.update k v m)"
  by (simp add: map_wf_update)

lemma tcp_step_inv:
  assumes "tcp_inv c n s"
  shows "tcp_inv c n (tcp_step e s)"
proof (cases e)
  case (Connect env key)
  then show ?thesis
    using assms lru.map_or_same_wf [of SESS_MAP_MAX "sess_map s"] connect_tab [of s c env key]
    by (auto simp: tcp_inv_def) (auto simp: tcp_handler_defs split: option.split)
qed (use assms in \<open>auto simp: tcp_inv_def tcp_handler_defs delete_map_wf map_wf_same_keys split: option.split\<close>)

lemma tcp_inv_init: "tcp_inv c n (tcp_init c n)"
  by (simp add: tcp_inv_def tcp_init_def)

interpretation tcp_mon: evolving_monitor tcp_step "\<lambda>_ _. True" "tcp_inv c n" "\<lambda>s. map_of (sess_map s)" rb
  "\<lambda>e _. tcp_starts c e" "tcp_touch c" "tcp_reports c" for c n
  by unfold_locales (use tcp_step_inv tcp_step_tab tcp_step_rb in blast)+

text \<open>What a session remembers of the firings since its connect.\<close>

fun retransmits :: "u64 \<Rightarrow> tcp_firing \<Rightarrow> bool" where
  "retransmits k (Retransmit env key sk) \<longleftrightarrow> key = k"
| "retransmits k _ \<longleftrightarrow> False"

fun finishes :: "u64 \<Rightarrow> tcp_firing \<Rightarrow> bool" where
  "finishes k (Finish env key sk) \<longleftrightarrow> key = k"
| "finishes k _ \<longleftrightarrow> False"

fun tcp_ends :: "TcpMonitor_ctrl \<Rightarrow> u64 \<Rightarrow> tcp_firing \<Rightarrow> bool" where
  "tcp_ends c k (Connect env key) \<longleftrightarrow> key = k \<and> tcp_tracked c env \<and> env_update_ok env"
| "tcp_ends c k (Connect_ret key sk ret) \<longleftrightarrow> key = k \<and> sint ret < 0"
| "tcp_ends c k (Close env key sk) \<longleftrightarrow> key = k"
| "tcp_ends c k _ \<longleftrightarrow> False"

definition same_owner :: "tcp_sess \<Rightarrow> tcp_sess \<Rightarrow> bool" where
  "same_owner v w \<longleftrightarrow> start_ts v = start_ts w \<and> se_tgid v = se_tgid w \<and> se_tid v = se_tid w \<and> se_comm v = se_comm w"

lemma tcp_touch_facts:
  assumes "tcp_touch c e k v = Some w" and "session_allowed (Some c) v"
  shows "same_owner w v \<and> session_allowed (Some c) w \<and> \<not> tcp_ends c k e
    \<and> se_retrans_cnt w = se_retrans_cnt v + of_bool (retransmits k e)
    \<and> (handshake_reported w \<longleftrightarrow> handshake_reported v \<or> finishes k e)"
  using assms by (cases e) (auto simp: session_allowed_def same_owner_def split: if_splits)

lemma tcp_touched_facts:
  assumes "touched (tcp_touch c) k es v = Some w" and "session_allowed (Some c) v"
  shows "same_owner w v \<and> session_allowed (Some c) w \<and> list_all (\<lambda>e. \<not> tcp_ends c k e) es
    \<and> se_retrans_cnt w = se_retrans_cnt v + of_nat (length (filter (retransmits k) es))
    \<and> (handshake_reported w \<longleftrightarrow> handshake_reported v \<or> list_ex (finishes k) es)"
  using assms
proof (induction es arbitrary: v)
  case (Cons e es)
  then obtain u where u: "tcp_touch c e k v = Some u" "touched (tcp_touch c) k es u = Some w"
    by (auto simp: bind_eq_Some_conv)
  note f = tcp_touch_facts [OF u(1) Cons.prems(2)]
  then show ?case using Cons.IH [OF u(2)] by (auto simp: same_owner_def)
qed (simp add: same_owner_def)

lemma event_simps [simp]:
  "ev_type (handshake_event env sk v) = TCP_EV_HANDSHAKE" "ev_latency_ns (handshake_event env sk v) = env_ktime env - start_ts v"
  "ev_tgid (handshake_event env sk v) = se_tgid v" "ev_tid (handshake_event env sk v) = se_tid v"
  "ev_comm (handshake_event env sk v) = se_comm v" "ev_retrans_cnt (handshake_event env sk v) = 0"
  "ev_sport (handshake_event env sk v) = se_sport v" "ev_dport (handshake_event env sk v) = se_dport v"
  "ev_type (retransmit_event env sk v) = TCP_EV_RETRANSMIT" "ev_retrans_cnt (retransmit_event env sk v) = se_retrans_cnt v"
  "ev_tgid (retransmit_event env sk v) = se_tgid v" "ev_tid (retransmit_event env sk v) = se_tid v"
  "ev_comm (retransmit_event env sk v) = se_comm v" "ev_latency_ns (retransmit_event env sk v) = 0"
  "ev_sport (retransmit_event env sk v) = skc_num sk" "ev_dport (retransmit_event env sk v) = bpf_ntohs (skc_dport sk)"
  "ev_type (close_event env sk v) = TCP_EV_CLOSE" "ev_latency_ns (close_event env sk v) = env_ktime env - start_ts v"
  "ev_tgid (close_event env sk v) = se_tgid v" "ev_tid (close_event env sk v) = se_tid v"
  "ev_comm (close_event env sk v) = se_comm v" "ev_retrans_cnt (close_event env sk v) = se_retrans_cnt v"
  by (simp_all add: handshake_event_def retransmit_event_def close_event_def fill_saved_sock_def fill_process_def
      fill_sock_def event_zero_def Let_def)

lemma save_sock_ports [simp]: "se_sport (save_sock sk v) = skc_num sk" "se_dport (save_sock sk v) = bpf_ntohs (skc_dport sk)"
  by (simp_all add: save_sock_def Let_def)

text \<open>What the three kinds of event say, given the firings of the socket since its connect.\<close>

fun tcp_true :: "TcpMonitor_ctrl \<Rightarrow> bpf_env \<Rightarrow> u64 \<Rightarrow> tcp_firing list \<Rightarrow> tcp_firing \<Rightarrow> TcpMonitor_event \<Rightarrow> bool" where
  "tcp_true c env1 k mid (Finish env2 key sk) x \<longleftrightarrow> key = k \<and> ev_type x = TCP_EV_HANDSHAKE
     \<and> \<not> list_ex (finishes k) mid \<and> ev_latency_ns x = env_ktime env2 - env_ktime env1 \<and> min_latency_ns c \<le> ev_latency_ns x
     \<and> ev_sport x = skc_num sk \<and> ev_dport x = bpf_ntohs (skc_dport sk)"
| "tcp_true c env1 k mid (Retransmit env2 key sk) x \<longleftrightarrow> key = k \<and> ev_type x = TCP_EV_RETRANSMIT
     \<and> ev_retrans_cnt x = of_nat (Suc (length (filter (retransmits k) mid)))
     \<and> ev_sport x = skc_num sk \<and> ev_dport x = bpf_ntohs (skc_dport sk)"
| "tcp_true c env1 k mid (Close env2 key sk) x \<longleftrightarrow> key = k \<and> ev_type x = TCP_EV_CLOSE
     \<and> ev_latency_ns x = env_ktime env2 - env_ktime env1
     \<and> ev_retrans_cnt x = of_nat (length (filter (retransmits k) mid))"
| "tcp_true c env1 k mid _ x \<longleftrightarrow> False"

lemma tcp_report_true:
  assumes "tcp_reports c e2 k v = Some x" and "same_owner v (sess_of env1 (tcp_ids c env1))"
    and "se_retrans_cnt v = of_nat (length (filter (retransmits k) mid))"
    and "handshake_reported v \<longleftrightarrow> list_ex (finishes k) mid"
  shows "tcp_true c env1 k mid e2 x \<and> ev_tgid x = hi32 (tcp_ids c env1) \<and> ev_tid x = lo32 (tcp_ids c env1)
    \<and> ev_comm x = env_comm env1"
  using assms
  by (cases e2) (auto simp: same_owner_def sess_of_def tcp_below_def split: if_splits)

text \<open>Every aggregated event is in the ring buffer or was dropped.\<close>

fun tcp_on_cpu :: "tcp_firing \<Rightarrow> TcpMonitor_state \<Rightarrow> bool" where
  "tcp_on_cpu (Finish env key sk) s \<longleftrightarrow> env_cpu env < length (stats_map s)"
| "tcp_on_cpu (Retransmit env key sk) s \<longleftrightarrow> env_cpu env < length (stats_map s)"
| "tcp_on_cpu (Close env key sk) s \<longleftrightarrow> env_cpu env < length (stats_map s)"
| "tcp_on_cpu _ s \<longleftrightarrow> True"

definition tcp_flow :: "TcpMonitor_stats \<Rightarrow> u64" where
  "tcp_flow v = hs_count v + rt_count v + cl_count v - ringbuf_dropped v"

definition tcp_quantity :: "TcpMonitor_state \<Rightarrow> u64" where
  "tcp_quantity s = sum_list (map tcp_flow (stats_map s)) - of_nat (length (rb s))"

lemma tcp_stats_simps [simp]:
  "tcp_flow (tcp_hs_stats l v c) = tcp_flow c + 1"
  "tcp_flow (tcp_close_stats l c) = tcp_flow c + 1"
  "tcp_flow (c\<lparr>rt_count := rt_count c + 1\<rparr>) = tcp_flow c + 1"
  "tcp_flow (c\<lparr>ringbuf_dropped := ringbuf_dropped c + 1\<rparr>) = tcp_flow c - 1"
  "tcp_flow (c\<lparr>untracked_events := u\<rparr>) = tcp_flow c"
  "tcp_flow (c\<lparr>filtered_latency := u\<rparr>) = tcp_flow c"
  "tcp_flow (c\<lparr>connect_attempted := u\<rparr>) = tcp_flow c"
  "tcp_flow (c\<lparr>map_update_failed := u\<rparr>) = tcp_flow c"
  by (simp_all add: tcp_flow_def tcp_hs_stats_def tcp_close_stats_def Let_def algebra_simps)

lemma tcp_quantity_count:
  assumes "\<And>x. tcp_flow (f x) = tcp_flow x + d" and "d = 0 \<or> env_cpu env < length (stats_map s)"
  shows "tcp_quantity (tcp_count env f s) = tcp_quantity s + d"
  using assms sum_percpu_upd [of tcp_flow f d "env_cpu env" "stats_map s"] by (auto simp: tcp_quantity_def)

lemma tcp_quantity_rules:
  "env_cpu env < length (stats_map s) \<Longrightarrow> tcp_quantity (tcp_count env (tcp_hs_stats l v) s) = tcp_quantity s + 1"
  "env_cpu env < length (stats_map s) \<Longrightarrow> tcp_quantity (tcp_count env (tcp_close_stats l) s) = tcp_quantity s + 1"
  "env_cpu env < length (stats_map s) \<Longrightarrow>
     tcp_quantity (tcp_count env (\<lambda>c. c\<lparr>rt_count := rt_count c + 1\<rparr>) s) = tcp_quantity s + 1"
  "env_cpu env < length (stats_map s) \<Longrightarrow>
     tcp_quantity (tcp_count env (\<lambda>c. c\<lparr>ringbuf_dropped := ringbuf_dropped c + 1\<rparr>) s) = tcp_quantity s - 1"
  "tcp_quantity (tcp_count env (\<lambda>c. c\<lparr>untracked_events := untracked_events c + 1\<rparr>) s) = tcp_quantity s"
  "tcp_quantity (tcp_count env (\<lambda>c. c\<lparr>filtered_latency := filtered_latency c + 1\<rparr>) s) = tcp_quantity s"
  "tcp_quantity (tcp_count env (\<lambda>c. c\<lparr>connect_attempted := connect_attempted c + 1\<rparr>) s) = tcp_quantity s"
  "tcp_quantity (tcp_count env (\<lambda>c. c\<lparr>map_update_failed := map_update_failed c + 1\<rparr>) s) = tcp_quantity s"
  "tcp_quantity (s\<lparr>sess_map := m\<rparr>) = tcp_quantity s"
  "tcp_quantity (s\<lparr>rb := es\<rparr>) = tcp_quantity s + of_nat (length (rb s)) - of_nat (length es)"
  using tcp_quantity_count [of _ 0 env s] tcp_quantity_count [of _ 1 env s] tcp_quantity_count [of _ "- 1" env s]
  by simp_all (simp_all add: tcp_quantity_def)

lemma tcp_step_quantity:
  assumes "tcp_on_cpu e s"
  shows "tcp_quantity (tcp_step e s) = tcp_quantity s"
  using assms
  by (cases e) (simp_all add: tcp_handler_defs tcp_quantity_rules split: option.split)

interpretation tcp_cons: conserved_monitor tcp_step tcp_on_cpu "tcp_inv c n" tcp_quantity for c n
  by unfold_locales (simp_all add: tcp_step_inv tcp_step_quantity)

interpretation tcp_rep: percpu_report tcp_zero tcp_merge
  "{connect_attempted, hs_count, hs_total_ns, rt_count, cl_count, cl_total_ns, filtered_latency, ringbuf_dropped,
    map_update_failed, untracked_events}"
  hs_max_ns "\<lambda>v. (hs_max_sport v, hs_max_dport v, hs_max_af v, hs_max_saddr v, hs_max_daddr v, hs_max_saddr_v6 v,
    hs_max_daddr_v6 v, hs_max_comm v)"
  by unfold_locales (auto simp: tcp_zero_def tcp_merge_def Let_def max_def)

lemma printable_drop: "printable s \<Longrightarrow> printable (drop n s)"
  by (auto simp: printable_def dest: in_set_dropD)

lemma printable_tcp [simp]: "printable (tcp_state_str st)" "printable (fmt_addr n af v4 v6 port)"
  by (simp_all add: tcp_state_str_def fmt_addr_def printable_drop Let_def)

interpretation tcp_lines: whole_printer "\<lambda>(now, e). tcp_handle_event now e" "\<lambda>(now, e). printable (ev_comm e)"
  by unfold_locales (auto simp: tcp_handle_event_def line_simps Let_def split: if_splits)

text \<open>Every event passed the filters of the configuration.\<close>

lemma tcp_filtered:
  assumes "x \<in> set (rb (fold tcp_step tr (tcp_init c n)))"
  shows "enable c \<and> (target_pid c = 0 \<or> ev_tgid x = target_pid c)
    \<and> (ev_type x = TCP_EV_HANDSHAKE \<longrightarrow> min_latency_ns c \<le> ev_latency_ns x)"
proof -
  have "\<exists>e k v. tcp_reports c e k v = Some x"
    using tcp_mon.reported_evolved [OF admissible_True tcp_inv_init _ _ assms] by (auto simp: tcp_init_def)
  then show ?thesis
    by (auto simp: session_allowed_def tcp_below_def TCP_EV_HANDSHAKE_def TCP_EV_RETRANSMIT_def TCP_EV_CLOSE_def
        elim!: tcp_reports.elims split: if_splits)
qed

section \<open>Properties\<close>

text \<open>
  C15: every event reported is about one connection. It belongs to a connect of the traced process on
  the same socket, after which the socket was neither closed nor reconnected and the connect did not fail, and it
  carries the ids and the name of the connecting thread, in whatever context the event arose. A handshake is
  reported at most once per connection, with the time since the connect, at least the threshold; a retransmission
  with its number within the connection; a close with the life time and the number of all retransmissions.
\<close>

theorem tcp_reported_event:
  assumes "x \<in> set (rb (fold tcp_step tr (tcp_init c n)))"
  shows "\<exists>pre env1 k mid e2 post. tr = pre @ Connect env1 k # mid @ e2 # post \<and> tcp_tracked c env1
    \<and> list_all (\<lambda>e. \<not> tcp_ends c k e) mid \<and> tcp_true c env1 k mid e2 x
    \<and> ev_tgid x = hi32 (tcp_ids c env1) \<and> ev_tid x = lo32 (tcp_ids c env1) \<and> ev_comm x = env_comm env1
    \<and> (target_pid c = 0 \<or> ev_tgid x = target_pid c)"
proof -
  obtain pre e1 mid e2 post k v0 v where t: "tr = pre @ e1 # mid @ e2 # post"
    and s: "tcp_starts c e1 = Some (k, v0)" and m: "touched (tcp_touch c) k mid v0 = Some v"
    and r: "tcp_reports c e2 k v = Some x"
    using tcp_mon.reported_evolved [OF admissible_True tcp_inv_init _ _ assms] by (auto simp: tcp_init_def)
  obtain env1 where e1: "e1 = Connect env1 k" and v0: "v0 = sess_of env1 (tcp_ids c env1)" and tk: "tcp_tracked c env1"
    using s by (cases e1) (auto split: if_splits)
  have "session_allowed (Some c) v0" using tk by (simp add: v0 session_allowed_def tcp_tracked_def sess_of_def)
  note f = tcp_touched_facts [OF m this]
  have true: "tcp_true c env1 k mid e2 x \<and> ev_tgid x = hi32 (tcp_ids c env1) \<and> ev_tid x = lo32 (tcp_ids c env1)
      \<and> ev_comm x = env_comm env1"
    using tcp_report_true [OF r, of env1 mid] f by (simp add: v0) (simp add: sess_of_def)
  then have q: "target_pid c = 0 \<or> ev_tgid x = target_pid c" using tk by (auto simp: tcp_tracked_def)
  have p: "tr = pre @ Connect env1 k # mid @ e2 # post" using t e1 by simp
  show ?thesis by (intro exI conjI, rule p) (use f true tk q in simp_all)
qed

definition tcp_demo_ctrl :: TcpMonitor_ctrl where
  "tcp_demo_ctrl = \<lparr>enable = True, min_latency_ns = 0, target_pid = 7, pid_ns_dev = 1, pid_ns_ino = 4\<rparr>"

definition tcp_demo_run :: "tcp_firing list" where
  "tcp_demo_run =
     [Connect (calm_env 0 10 7 8) 0x100, Connect (calm_env 1 11 9 9) 0x200, Connect_ret 0x100 (demo_sock 4000 0x5000) 0,
      Finish (calm_env 1 50 0 0) 0x100 (demo_sock 4000 0x5000), Finish (calm_env 1 60 0 0) 0x100 (demo_sock 4000 0x5000),
      Retransmit (calm_env 0 70 0 0) 0x100 (demo_sock 4000 0x5000), Close (calm_env 1 110 7 9) 0x100 (demo_sock 4000 0x5000)]"

lemma tcp_demo_rb:
  "map (\<lambda>x. (ev_type x, ev_tgid x, ev_tid x, ev_latency_ns x, ev_retrans_cnt x))
     (rb (fold tcp_step tcp_demo_run (tcp_init tcp_demo_ctrl 2))) = [(0, 7, 8, 40, 0), (1, 7, 8, 0, 1), (2, 7, 8, 100, 1)]"
  by code_simp

theorem tcp_reported_event_witness:
  "\<exists>pre env1 k mid e2 post x. tcp_demo_run = pre @ Connect env1 k # mid @ e2 # post
    \<and> ev_latency_ns x = 100 \<and> tcp_true tcp_demo_ctrl env1 k mid e2 x"
proof -
  let ?x = "rb (fold tcp_step tcp_demo_run (tcp_init tcp_demo_ctrl 2)) ! 2"
  have len: "length (rb (fold tcp_step tcp_demo_run (tcp_init tcp_demo_ctrl 2))) = 3"
    using arg_cong [OF tcp_demo_rb, of length] by simp
  have "ev_latency_ns ?x = 100" using arg_cong [OF tcp_demo_rb, of "\<lambda>l. fst (snd (snd (snd (l ! 2))))"] len by simp
  moreover have "?x \<in> set (rb (fold tcp_step tcp_demo_run (tcp_init tcp_demo_ctrl 2)))" using len by (intro nth_mem) simp
  ultimately show ?thesis using tcp_reported_event [of ?x tcp_demo_run tcp_demo_ctrl 2] by blast
qed

text \<open>
  The aggregates and the events agree. After any run on possible CPUs, the handshakes,
  retransmissions and closes counted are the events submitted plus those the full ring buffer dropped; when the
  panel appears it shows these sums, its maximal handshake time is the largest of all CPUs, shown with the
  addresses of the CPU that saw it; and at most 16384 sessions are kept.
\<close>

lemma tcp_accounting:
  assumes "admissible tcp_on_cpu tcp_step tr (tcp_init c n)"
    and "tcp_print_stats (int n) True (Some (stats_map (fold tcp_step tr (tcp_init c n)))) = Some p"
  defines "s \<equiv> fold tcp_step tr (tcp_init c n)"
  shows "hs_count (panel_stats p) + rt_count (panel_stats p) + cl_count (panel_stats p) =
      of_nat (length (rb s)) + ringbuf_dropped (panel_stats p)
    \<and> hs_count (panel_stats p) = sum_list (map hs_count (stats_map s))
    \<and> (\<forall>v \<in> set (stats_map s). hs_max_ns v \<le> hs_max_ns (panel_stats p))
    \<and> (hs_max_ns (panel_stats p) \<noteq> 0 \<longrightarrow> (\<exists>v \<in> set (stats_map s). hs_max_ns (panel_stats p) = hs_max_ns v
         \<and> hs_max_sport (panel_stats p) = hs_max_sport v \<and> hs_max_comm (panel_stats p) = hs_max_comm v))
    \<and> length (sess_map s) \<le> 16384"
proof -
  have inv: "tcp_inv c n s"
    using tcp_cons.run_inv [OF assms(1) tcp_inv_init] by (simp add: s_def)
  let ?m = "foldl tcp_merge tcp_zero (stats_map s)"
  have p: "panel_stats p = ?m"
    using assms(2) inv by (auto simp: tcp_print_stats_def s_def tcp_inv_def Let_def split: if_splits)
  have "tcp_quantity s = 0"
    using tcp_cons.run_quantity [OF assms(1) tcp_inv_init]
    by (simp add: s_def tcp_quantity_def tcp_init_def tcp_flow_def tcp_zero_def sum_list_replicate)
  then have q: "sum_list (map hs_count (stats_map s)) + sum_list (map rt_count (stats_map s)) + sum_list (map cl_count (stats_map s))
      = of_nat (length (rb s)) + sum_list (map ringbuf_dropped (stats_map s))"
    by (simp add: tcp_quantity_def tcp_flow_def [abs_def] sum_list_map_diff sum_list_addf algebra_simps)
  have sums: "hs_count ?m = sum_list (map hs_count (stats_map s))" "rt_count ?m = sum_list (map rt_count (stats_map s))"
    "cl_count ?m = sum_list (map cl_count (stats_map s))" "ringbuf_dropped ?m = sum_list (map ringbuf_dropped (stats_map s))"
    by (simp_all add: tcp_rep.report_counter)
  have "length (sess_map s) \<le> 16384" using inv by (simp add: tcp_inv_def map_wf_def SESS_MAP_MAX_def)
  moreover have "hs_max_ns ?m \<noteq> 0 \<longrightarrow> (\<exists>v \<in> set (stats_map s). hs_max_ns ?m = hs_max_ns v
      \<and> hs_max_sport ?m = hs_max_sport v \<and> hs_max_comm ?m = hs_max_comm v)"
    using tcp_rep.report_source [of "stats_map s"] by auto
  ultimately show ?thesis unfolding p
    using sums q tcp_rep.report_mx_ge [of _ "stats_map s" tcp_zero] by simp
qed

text \<open>
  The buffers of a line are large enough for every address. The text of an address with its port has
  at most 47 characters, so 48 bytes never cut it, whatever the family, the bytes and the port; and they are
  just enough, the longest IPv6 address with a port of five digits fills them.
\<close>

lemma fmt_addr_fits:
  "length (fmt_addr (48 + n) af v4 v6 port) < 48 \<and> fmt_addr (48 + n) af v4 v6 port = fmt_addr 48 af v4 v6 port
   \<and> length (inet_ntop6 v6) < INET6_ADDRSTRLEN
   \<and> length (fmt_addr 48 AF_INET6 0 (replicate 16 255) 65535) = 47"
proof -
  have p: "max 5 (length (fmt_u port)) = 5" using length_fmt_u16 [of port] by simp
  note len = length_inet_ntop4 [of v4] length_inet_ntop6 [of v6]
  have "length (fmt_addr (48 + n) af v4 v6 port) < 48"
    using len p by (auto simp: fmt_addr_def snprintf_def Let_def)
  moreover have "fmt_addr (48 + n) af v4 v6 port = fmt_addr 48 af v4 v6 port"
    using len p by (auto simp: fmt_addr_def Let_def)
  moreover have "length (fmt_addr 48 AF_INET6 0 (replicate 16 255) 65535) = 47" by (simp add: fmt_addr_def text_eval)
  ultimately show ?thesis using len by (simp add: INET6_ADDRSTRLEN_def)
qed

text \<open>
  An IPv4 address in a line reads back: what stands before the colon is the text of exactly the address of
  the event, and a connection over IPv6 to an IPv4-mapped address is shown as the same
  connection over IPv4.
\<close>

lemma fmt_addr_reads_back:
  "inet_pton4 (takeWhile (\<lambda>c. c \<noteq> CHR '':'') (fmt_addr 48 AF_INET v4 v6 port)) = Some v4
   \<and> fmt_addr 48 AF_INET6 w4 (replicate 10 0 @ [0xFF, 0xFF] @ bytes4 v4) port = fmt_addr 48 AF_INET v4 v6 port"
proof -
  have p: "max 5 (length (fmt_u port)) = 5" using length_fmt_u16 [of port] by simp
  have "fmt_addr 48 AF_INET v4 v6 port = inet_ntop4 v4 @ CHR '':'' # ljust 5 (fmt_u port)"
    using length_inet_ntop4 [of v4] p by (simp add: fmt_addr_def)
  moreover have "CHR '':'' \<notin> set (inet_ntop4 v4)" by (rule no_colon)
  ultimately have "takeWhile (\<lambda>c. c \<noteq> CHR '':'') (fmt_addr 48 AF_INET v4 v6 port) = inet_ntop4 v4"
    using takeWhile_upto [of "CHR '':''" "inet_ntop4 v4" "ljust 5 (fmt_u port)"] by simp
  moreover have "fmt_addr 48 AF_INET6 w4 (replicate 10 0 @ [0xFF, 0xFF] @ bytes4 v4) port = fmt_addr 48 AF_INET v4 v6 port"
    unfolding fmt_addr_def inet_ntop6_mapped by (simp add: Let_def)
  ultimately show ?thesis by (simp add: inet_pton4_ntop4)
qed

text \<open>
  C39: not only IPv4-mapped addresses lose their prefix. Any IPv6 address whose text begins with
  \<open>::ffff:\<close> is printed without it and without brackets, for example the IPv4-translated address
  \<open>::ffff:0:1.2.3.4\<close>, which \<^verbatim>\<open>inet_ntop\<close> writes as \<open>::ffff:0:102:304\<close>.
\<close>

theorem fmt_addr_cuts_ipv6:
  "(take 7 (inet_ntop6 v6) = ''::ffff:'' \<longrightarrow>
      fmt_addr 48 AF_INET6 v4 v6 port = drop 7 (inet_ntop6 v6) @ '':'' @ ljust 5 (fmt_u port))
   \<and> inet_ntop6 [0, 0, 0, 0, 0, 0, 0, 0, 0xFF, 0xFF, 0, 0, 1, 2, 3, 4] = ''::ffff:0:102:304''
   \<and> fmt_addr 48 AF_INET6 0 [0, 0, 0, 0, 0, 0, 0, 0, 0xFF, 0xFF, 0, 0, 1, 2, 3, 4] 443 = ''0:102:304:443  ''"
proof -
  have p: "max 5 (length (fmt_u port)) = 5" using length_fmt_u16 [of port] by simp
  have "length (drop 7 (inet_ntop6 v6) @ '':'' @ ljust 5 (fmt_u port)) < 48"
    using length_inet_ntop6 [of v6] p by simp
  then have "take 7 (inet_ntop6 v6) = ''::ffff:'' \<longrightarrow>
      fmt_addr 48 AF_INET6 v4 v6 port = drop 7 (inet_ntop6 v6) @ '':'' @ ljust 5 (fmt_u port)"
    by (simp add: fmt_addr_def)
  moreover have "inet_ntop6 [0, 0, 0, 0, 0, 0, 0, 0, 0xFF, 0xFF, 0, 0, 1, 2, 3, 4] = ''::ffff:0:102:304''"
    by (simp add: text_eval)
  moreover have "fmt_addr 48 AF_INET6 0 [0, 0, 0, 0, 0, 0, 0, 0, 0xFF, 0xFF, 0, 0, 1, 2, 3, 4] 443 = ''0:102:304:443  ''"
    by (simp add: fmt_addr_def text_eval)
  ultimately show ?thesis by blast
qed

theorem fmt_addr_cuts_ipv6_witness:
  "fmt_addr 48 AF_INET6 0 [0, 0, 0, 0, 0, 0, 0, 0, 0xFF, 0xFF, 0, 9, 0, 8, 0, 7] 8080 = ''9:8:7:8080 ''"
proof -
  let ?a = "[0, 0, 0, 0, 0, 0, 0, 0, 0xFF, 0xFF, 0, 9, 0, 8, 0, 7] :: addr6"
  have a: "inet_ntop6 ?a = ''::ffff:9:8:7''" by (simp add: text_eval)
  then have "take 7 (inet_ntop6 ?a) = ''::ffff:''" by simp
  then have "fmt_addr 48 AF_INET6 0 ?a 8080 = drop 7 (inet_ntop6 ?a) @ '':'' @ ljust 5 (fmt_u (8080 :: u16))"
    using fmt_addr_cuts_ipv6 [of ?a 0 8080] by blast
  moreover have "drop 7 (inet_ntop6 ?a) @ '':'' @ ljust 5 (fmt_u (8080 :: u16)) = ''9:8:7:8080 ''"
    by (simp add: a) (simp add: text_eval)
  ultimately show ?thesis by simp
qed

end
