(* ===== verification/UdpMonitor.thy ===== *)
theory UdpMonitor
  imports Monitor PidNs RunLoop InetText Logger
begin

section \<open>net/udp\_monitor: latency of UDP sends\<close>

text \<open>
  \<^verbatim>\<open>net/udp_monitor\<close>: the entry of \<^verbatim>\<open>udp_sendmsg\<close> or \<^verbatim>\<open>udpv6_sendmsg\<close> stores a context under the thread, the
  probes on the functions that build the packet replace its addresses by the routed ones, and the return takes
  the context back, counts and reports. One call may contain another (IPv4-mapped addresses): \<open>depth_map\<close> counts
  the calls a thread is in, and only the outermost one is reported.
\<close>

datatype UdpTupleSource = UDP_TUPLE_SOCKET | UDP_TUPLE_MSG | UDP_TUPLE_FLOW

record UdpMonitor_ctrl =
  enable :: bool
  min_latency_ns :: u64
  target_pid :: s32
  pid_ns_dev :: u64
  pid_ns_ino :: u64

record UdpMonitor_event =
  ev_ts_ns :: u64
  ev_latency_ns :: u64
  ev_len :: u64
  ev_pid :: s32
  ev_tgid :: u32
  ev_result :: s32
  ev_sport :: u16
  ev_dport :: u16
  ev_saddr_v4 :: u32
  ev_daddr_v4 :: u32
  ev_af :: s32
  ev_tuple_source :: UdpTupleSource
  ev_comm :: cstr
  ev_saddr_v6 :: addr6
  ev_daddr_v6 :: addr6

record UdpMonitor_stats =
  attempted :: u64
  count :: u64
  failed :: u64
  total_ns :: u64
  max_ns :: u64
  total_bytes :: u64
  filtered_pid :: u64
  filtered_latency :: u64
  ringbuf_dropped :: u64
  map_update_failed :: u64
  lookup_missed :: u64
  nested_calls :: u64
  flow_tuple :: u64
  fallback_tuple :: u64
  max_pid :: u32
  max_tid :: u32
  max_comm :: cstr

record udp_start =
  start_ts :: u64
  us_len :: u64
  us_tgid :: u32
  us_pid :: s32
  us_sport :: u16
  us_dport :: u16
  us_saddr_v4 :: u32
  us_daddr_v4 :: u32
  us_af :: s32
  us_comm :: cstr
  us_saddr_v6 :: addr6
  us_daddr_v6 :: addr6
  us_tuple_source :: UdpTupleSource

text \<open>The maps: \<open>start_map\<close> is an LRU map, \<open>depth_map\<close> a HASH, both of 16384 entries.\<close>

record UdpMonitor_state =
  start_map :: "(u64, udp_start) bmap"
  depth_map :: "(u64, u32) bmap"
  ctrl_map :: "UdpMonitor_ctrl option"
  stats_map :: "UdpMonitor_stats list"
  rb :: "UdpMonitor_event list"

definition UDP_MAP_MAX :: nat where
  "UDP_MAP_MAX = 16384"

definition udp_count ::
    "bpf_env \<Rightarrow> (UdpMonitor_stats \<Rightarrow> UdpMonitor_stats) \<Rightarrow> UdpMonitor_state \<Rightarrow> UdpMonitor_state" where
  "udp_count env f s = s\<lparr>stats_map := percpu_upd (env_cpu env) f (stats_map s)\<rparr>"

text \<open>
  What the entry reads of its \<^verbatim>\<open>msghdr\<close>: the pointer \<open>msg_name\<close> with its length, and what reading the family, a
  \<^verbatim>\<open>sockaddr_in\<close> (port and address) or a \<^verbatim>\<open>sockaddr_in6\<close> there gives, \<open>None\<close> on a fault. \<open>send_start_ok\<close>
  says whether the update of \<open>start_map\<close> succeeds; that of \<open>depth_map\<close> is \<open>env_update_ok\<close>.
\<close>

record send_args =
  send_sk :: sock
  msg_name :: u64
  msg_namelen :: s32
  name_family :: "u16 option"
  name_sin :: "(u16 \<times> u32) option"
  name_sin6 :: "(u16 \<times> addr6) option"
  send_len :: u64
  send_start_ok :: bool

definition SIZEOF_SOCKADDR :: int where
  "SIZEOF_SOCKADDR = 16"

definition SIZEOF_SOCKADDR_IN :: int where
  "SIZEOF_SOCKADDR_IN = 16"

definition SIZEOF_SOCKADDR_IN6 :: int where
  "SIZEOF_SOCKADDR_IN6 = 28"

text \<open>The destination taken from \<open>msg_name\<close>: the context with it, and \<open>got_dst\<close>.\<close>

definition read_msg_name :: "send_args \<Rightarrow> udp_start \<Rightarrow> udp_start \<times> bool" where
  "read_msg_name a v =
     (if msg_name a = 0 then (v, False)
      else if sint (msg_namelen a) \<ge> SIZEOF_SOCKADDR then
        (case name_family a of None \<Rightarrow> (v, False)
         | Some family \<Rightarrow>
           if ucast family = AF_INET \<and> sint (msg_namelen a) \<ge> SIZEOF_SOCKADDR_IN then
             (case name_sin a of None \<Rightarrow> (v, False)
              | Some (port, addr) \<Rightarrow>
                (v\<lparr>us_af := AF_INET, us_dport := bpf_ntohs port, us_daddr_v4 := addr,
                   us_tuple_source := UDP_TUPLE_MSG\<rparr>, True))
           else if ucast family = AF_INET6 \<and> sint (msg_namelen a) \<ge> SIZEOF_SOCKADDR_IN6 then
             (case name_sin6 a of None \<Rightarrow> (v, False)
              | Some (port, addr) \<Rightarrow>
                (v\<lparr>us_af := AF_INET6, us_dport := bpf_ntohs port, us_daddr_v6 := addr,
                   us_tuple_source := UDP_TUPLE_MSG\<rparr>, True))
           else (v, False))
      else (v, False))"

definition udp_start_of :: "bpf_env \<Rightarrow> u64 \<Rightarrow> send_args \<Rightarrow> udp_start" where
  "udp_start_of env visible a = (let
     sk = send_sk a;
     v0 = \<lparr>start_ts = env_ktime env, us_len = send_len a, us_tgid = hi32 visible, us_pid = lo32 visible,
           us_sport = skc_num sk, us_dport = 0, us_saddr_v4 = 0, us_daddr_v4 = 0, us_af = ucast (skc_family sk),
           us_comm = env_comm env, us_saddr_v6 = no_addr6, us_daddr_v6 = no_addr6,
           us_tuple_source = UDP_TUPLE_SOCKET\<rparr>;
     v1 = (if us_af v0 = AF_INET then v0\<lparr>us_saddr_v4 := inet_saddr sk\<rparr>
           else v0\<lparr>us_saddr_v6 := skc_v6_rcv_saddr sk\<rparr>);
     (v2, got_dst) = read_msg_name a v1
     in if got_dst then v2
        else let v3 = v2\<lparr>us_dport := bpf_ntohs (skc_dport sk), us_tuple_source := UDP_TUPLE_SOCKET\<rparr> in
          if us_af v3 = AF_INET then v3\<lparr>us_daddr_v4 := skc_daddr sk\<rparr>
          else v3\<lparr>us_daddr_v6 := skc_v6_daddr sk\<rparr>)"

definition record_udp_send :: "bpf_env \<Rightarrow> send_args \<Rightarrow> UdpMonitor_state \<Rightarrow> UdpMonitor_state" where
  "record_udp_send env a s = (let key = env_pid_tgid env in
     (case ctrl_map s of None \<Rightarrow> s
      | Some c \<Rightarrow>
        if \<not> enable c then s
        else let visible = app_current_pid_tgid_ns env (pid_ns_dev c) (pid_ns_ino c) in
        if visible = 0 then udp_count env (\<lambda>v. v\<lparr>filtered_pid := filtered_pid v + 1\<rparr>) s
        else if target_pid c \<noteq> 0 \<and> target_pid c \<noteq> hi32 visible
        then udp_count env (\<lambda>v. v\<lparr>filtered_pid := filtered_pid v + 1\<rparr>) s
        else (case map_of (depth_map s) key of
          Some depth \<Rightarrow>
            udp_count env (\<lambda>v. v\<lparr>nested_calls := nested_calls v + 1\<rparr>)
              (s\<lparr>depth_map := AList.update key (depth + 1) (depth_map s)\<rparr>)
        | None \<Rightarrow>
          (case hash_update_noexist UDP_MAP_MAX (env_update_ok env) key 1 (depth_map s) of
             None \<Rightarrow> udp_count env (\<lambda>v. v\<lparr>map_update_failed := map_update_failed v + 1\<rparr>) s
           | Some dm \<Rightarrow> let s1 = s\<lparr>depth_map := dm\<rparr> in
             (case lru_update UDP_MAP_MAX (send_start_ok a, env_evict env) key (udp_start_of env visible a) (start_map s1) of
                None \<Rightarrow> udp_count env (\<lambda>v. v\<lparr>map_update_failed := map_update_failed v + 1\<rparr>)
                          (s1\<lparr>depth_map := bpf_delete key (depth_map s1)\<rparr>)
              | Some sm \<Rightarrow> udp_count env (\<lambda>v. v\<lparr>attempted := attempted v + 1\<rparr>) (s1\<lparr>start_map := sm\<rparr>))))))"

text \<open>
  The routed addresses: what the flow structure holds (\<open>None\<close> for a NULL pointer) and what reading the
  header of the packet gives, \<open>None\<close> without a head or on a fault.
\<close>

record flow4 =
  fl4_saddr :: u32
  fl4_daddr :: u32
  fl4_sport :: u16
  fl4_dport :: u16

record iphdr =
  ip_version :: nat
  ip_saddr :: u32
  ip_daddr :: u32

record flow6 =
  fl6_saddr :: addr6
  fl6_daddr :: addr6
  fl6_sport :: u16
  fl6_dport :: u16

record ipv6hdr =
  ip6_version :: nat
  ip6_saddr :: addr6
  ip6_daddr :: addr6

definition route4 :: "flow4 \<Rightarrow> iphdr option \<Rightarrow> udp_start \<Rightarrow> udp_start" where
  "route4 fl hdr v0 = (let
     v1 = v0\<lparr>us_af := AF_INET, us_saddr_v4 := fl4_saddr fl, us_daddr_v4 := fl4_daddr fl\<rparr>;
     v2 = (case hdr of None \<Rightarrow> v1
           | Some h \<Rightarrow> if ip_version h = 4 then v1\<lparr>us_saddr_v4 := ip_saddr h, us_daddr_v4 := ip_daddr h\<rparr> else v1)
     in v2\<lparr>us_sport := bpf_ntohs (fl4_sport fl), us_dport := bpf_ntohs (fl4_dport fl),
           us_tuple_source := UDP_TUPLE_FLOW\<rparr>)"

definition trace_udp_send_skb ::
    "bpf_env \<Rightarrow> flow4 option \<Rightarrow> iphdr option \<Rightarrow> UdpMonitor_state \<Rightarrow> UdpMonitor_state" where
  "trace_udp_send_skb env fl4 hdr s = (let key = env_pid_tgid env in
     (case (map_of (start_map s) key, fl4) of
        (Some v, Some fl) \<Rightarrow> s\<lparr>start_map := AList.update key (route4 fl hdr v) (start_map s)\<rparr>
      | _ \<Rightarrow> s))"

definition route6 :: "flow6 \<Rightarrow> ipv6hdr option \<Rightarrow> udp_start \<Rightarrow> udp_start" where
  "route6 fl hdr v0 = (let
     v1 = v0\<lparr>us_af := AF_INET6, us_saddr_v6 := fl6_saddr fl, us_daddr_v6 := fl6_daddr fl\<rparr>;
     v2 = (case hdr of None \<Rightarrow> v1
           | Some h \<Rightarrow> if ip6_version h = 6 then v1\<lparr>us_saddr_v6 := ip6_saddr h, us_daddr_v6 := ip6_daddr h\<rparr> else v1)
     in v2\<lparr>us_sport := bpf_ntohs (fl6_sport fl), us_dport := bpf_ntohs (fl6_dport fl),
           us_tuple_source := UDP_TUPLE_FLOW\<rparr>)"

definition trace_udp_v6_send_skb ::
    "bpf_env \<Rightarrow> flow6 option \<Rightarrow> ipv6hdr option \<Rightarrow> UdpMonitor_state \<Rightarrow> UdpMonitor_state" where
  "trace_udp_v6_send_skb env fl6 hdr s = (let key = env_pid_tgid env in
     (case (map_of (start_map s) key, fl6) of
        (Some v, Some fl) \<Rightarrow> s\<lparr>start_map := AList.update key (route6 fl hdr v) (start_map s)\<rparr>
      | _ \<Rightarrow> s))"

text \<open>The return: the statistics of a successful send, and the event.\<close>

definition udp_send_stats :: "u64 \<Rightarrow> s32 \<Rightarrow> udp_start \<Rightarrow> UdpMonitor_stats \<Rightarrow> UdpMonitor_stats" where
  "udp_send_stats lat retval snapshot c0 = (let
     c1 = c0\<lparr>count := count c0 + 1, total_ns := total_ns c0 + lat, total_bytes := total_bytes c0 + scast retval\<rparr>;
     c2 = (if us_tuple_source snapshot = UDP_TUPLE_FLOW then c1\<lparr>flow_tuple := flow_tuple c1 + 1\<rparr>
           else c1\<lparr>fallback_tuple := fallback_tuple c1 + 1\<rparr>)
     in if lat > max_ns c2
        then c2\<lparr>max_ns := lat, max_pid := us_tgid snapshot, max_tid := us_pid snapshot,
                max_comm := us_comm snapshot\<rparr>
        else c2)"

definition udp_event_of :: "bpf_env \<Rightarrow> udp_start \<Rightarrow> s32 \<Rightarrow> UdpMonitor_event" where
  "udp_event_of env v retval =
     \<lparr>ev_ts_ns = env_ktime env, ev_latency_ns = env_ktime env - start_ts v, ev_len = scast retval,
      ev_pid = us_pid v, ev_tgid = us_tgid v, ev_result = retval, ev_sport = us_sport v, ev_dport = us_dport v,
      ev_saddr_v4 = us_saddr_v4 v, ev_daddr_v4 = us_daddr_v4 v, ev_af = us_af v,
      ev_tuple_source = us_tuple_source v, ev_comm = us_comm v, ev_saddr_v6 = us_saddr_v6 v,
      ev_daddr_v6 = us_daddr_v6 v\<rparr>"

definition udp_enabled :: "UdpMonitor_state \<Rightarrow> bool" where
  "udp_enabled s = (case ctrl_map s of None \<Rightarrow> False | Some c \<Rightarrow> enable c)"

definition udp_miss :: "bpf_env \<Rightarrow> UdpMonitor_state \<Rightarrow> UdpMonitor_state" where
  "udp_miss env s =
     (if udp_enabled s then udp_count env (\<lambda>v. v\<lparr>lookup_missed := lookup_missed v + 1\<rparr>) s else s)"

definition finish_udp_send :: "bpf_env \<Rightarrow> s32 \<Rightarrow> UdpMonitor_state \<Rightarrow> UdpMonitor_state" where
  "finish_udp_send env retval s = (let key = env_pid_tgid env in
     (case map_of (depth_map s) key of
        None \<Rightarrow> udp_miss env s
      | Some depth \<Rightarrow>
        if depth > 1 then s\<lparr>depth_map := AList.update key (depth - 1) (depth_map s)\<rparr>
        else let s1 = s\<lparr>depth_map := bpf_delete key (depth_map s)\<rparr> in
        (case map_of (start_map s1) key of
           None \<Rightarrow> udp_miss env s1
         | Some v \<Rightarrow>
           if start_ts v = 0 then udp_miss env s1
           else let s2 = s1\<lparr>start_map := bpf_delete key (start_map s1)\<rparr> in
           (case ctrl_map s2 of None \<Rightarrow> s2
            | Some c \<Rightarrow>
              if \<not> enable c then s2
              else let lat = env_ktime env - start_ts v in
              if sint retval < 0 then udp_count env (\<lambda>v. v\<lparr>failed := failed v + 1\<rparr>) s2
              else let s3 = udp_count env (udp_send_stats lat retval v) s2 in
              if min_latency_ns c \<noteq> 0 \<and> lat < min_latency_ns c
              then udp_count env (\<lambda>v. v\<lparr>filtered_latency := filtered_latency v + 1\<rparr>) s3
              else if \<not> env_reserve_ok env
              then udp_count env (\<lambda>v. v\<lparr>ringbuf_dropped := ringbuf_dropped v + 1\<rparr>) s3
              else s3\<lparr>rb := rb s3 @ [udp_event_of env v retval]\<rparr>))))"

text \<open>The firings; the probes of the two protocol families share their code.\<close>

datatype udp_firing =
    Send bpf_env send_args
  | Send_skb bpf_env "flow4 option" "iphdr option"
  | Send_skb6 bpf_env "flow6 option" "ipv6hdr option"
  | Return bpf_env s32

fun udp_step :: "udp_firing \<Rightarrow> UdpMonitor_state \<Rightarrow> UdpMonitor_state" where
  "udp_step (Send env a) s = record_udp_send env a s"
| "udp_step (Send_skb env fl hdr) s = trace_udp_send_skb env fl hdr s"
| "udp_step (Send_skb6 env fl hdr) s = trace_udp_v6_send_skb env fl hdr s"
| "udp_step (Return env retval) s = finish_udp_send env retval s"

subsection \<open>The user side\<close>

definition tuple_source_str :: "UdpTupleSource \<Rightarrow> string" where
  "tuple_source_str src =
     (case src of UDP_TUPLE_FLOW \<Rightarrow> ''FLOW'' | UDP_TUPLE_MSG \<Rightarrow> ''MSG'' | UDP_TUPLE_SOCKET \<Rightarrow> ''SOCKET'')"

definition udp_zero :: UdpMonitor_stats where
  "udp_zero =
     \<lparr>attempted = 0, count = 0, failed = 0, total_ns = 0, max_ns = 0, total_bytes = 0, filtered_pid = 0,
      filtered_latency = 0, ringbuf_dropped = 0, map_update_failed = 0, lookup_missed = 0, nested_calls = 0,
      flow_tuple = 0, fallback_tuple = 0, max_pid = 0, max_tid = 0, max_comm = ''''\<rparr>"

definition udp_merge :: "UdpMonitor_stats \<Rightarrow> UdpMonitor_stats \<Rightarrow> UdpMonitor_stats" where
  "udp_merge s v = (let
     s1 = s\<lparr>attempted := attempted s + attempted v, count := count s + count v, failed := failed s + failed v,
            total_ns := total_ns s + total_ns v, total_bytes := total_bytes s + total_bytes v,
            filtered_pid := filtered_pid s + filtered_pid v,
            filtered_latency := filtered_latency s + filtered_latency v,
            ringbuf_dropped := ringbuf_dropped s + ringbuf_dropped v,
            map_update_failed := map_update_failed s + map_update_failed v,
            lookup_missed := lookup_missed s + lookup_missed v, nested_calls := nested_calls s + nested_calls v,
            flow_tuple := flow_tuple s + flow_tuple v, fallback_tuple := fallback_tuple s + fallback_tuple v\<rparr>
     in if max_ns v > max_ns s1
        then s1\<lparr>max_ns := max_ns v, max_pid := max_pid v, max_tid := max_tid v, max_comm := max_comm v\<rparr>
        else s1)"

record Udp_panel =
  panel_stats :: UdpMonitor_stats
  panel_avg :: "u64 option"

definition udp_print_stats :: "int \<Rightarrow> bool \<Rightarrow> UdpMonitor_stats list option \<Rightarrow> Udp_panel option" where
  "udp_print_stats ncpus alloc_ok values =
     (if ncpus \<le> 0 \<or> \<not> alloc_ok then None
      else case values of None \<Rightarrow> None
      | Some vs \<Rightarrow> let s = foldl udp_merge udp_zero (take (nat ncpus) vs) in
        if attempted s = 0 \<and> count s = 0 \<and> failed s = 0 then None
        else Some \<lparr>panel_stats = s, panel_avg = (if count s \<noteq> 0 then Some (total_ns s div count s) else None)\<rparr>)"

definition udp_monitor_ctrl_of :: "bool \<Rightarrow> s32 \<Rightarrow> u64 \<Rightarrow> u64 \<Rightarrow> u64 \<Rightarrow> UdpMonitor_ctrl" where
  "udp_monitor_ctrl_of en pid delay dev ino =
     \<lparr>enable = en, min_latency_ns = delay, target_pid = pid, pid_ns_dev = dev, pid_ns_ino = ino\<rparr>"

text \<open>
  The run asks for the number of CPUs first, and for the PID namespace only when the skeleton is loaded; a failed
  lookup goes through the cleanup.
\<close>

definition udp_monitor_run ::
    "int \<Rightarrow> s32 \<Rightarrow> bool \<Rightarrow> s32 \<Rightarrow> u64 \<Rightarrow> run_env \<Rightarrow> (int \<times> UdpMonitor_ctrl action list) option" where
  "udp_monitor_run ncpus timeout en pid delay e =
     (if ncpus \<le> 0 then Some (1, [])
      else if \<not> re_load e then Some (1, [Load False])
      else (case app_get_pid_namespace False False (re_stat e) of
          (err, None) \<Rightarrow> Some (neg_or_zero err, [Load True, Set_skel] @ run_cleanup False)
        | (_, Some (dev, ino)) \<Rightarrow>
            run_loaded (\<lambda>err. err < 0) neg_or_zero (udp_monitor_ctrl_of en pid delay dev ino) timeout e))"

subsection \<open>The line of an event\<close>

text \<open>
  \<open>ip_str\<close>: an address in a buffer of \<open>len\<close> bytes, a question mark for none; \<^verbatim>\<open>inet_ntop\<close> writes nothing when the
  text does not fit. Then \<open>handle_event\<close>, with two buffers of 64 bytes; nothing is printed for a short record.
\<close>

definition UDP_EVENT_SIZE :: nat where
  "UDP_EVENT_SIZE = 104"

definition ip_str :: "nat \<Rightarrow> s32 \<Rightarrow> u32 \<Rightarrow> addr6 \<Rightarrow> string" where
  "ip_str len af v4 v6 =
     (if af = AF_INET \<and> v4 = 0 then snprintf len ''?''
      else if af = AF_INET then snprintf len (inet_ntop4 v4)
      else if af = AF_INET6 then
        (if v6 = no_addr6 then snprintf len ''?'' else snprintf len (inet_ntop6 v6))
      else snprintf len ''?'')"

definition udp_handle_event :: "nat \<Rightarrow> wall \<Rightarrow> UdpMonitor_event \<Rightarrow> out_call list" where
  "udp_handle_event data_sz now e =
     (if data_sz < UDP_EVENT_SIZE then []
      else let
        src = ip_str 64 (ev_af e) (ev_saddr_v4 e) (ev_saddr_v6 e);
        dst = ip_str 64 (ev_af e) (ev_daddr_v4 e) (ev_daddr_v6 e)
      in log_output_lock
        @ LOG now (''PID='' @ ljust 6 (fmt_u (ev_tgid e)) @ '' TID='' @ ljust 6 (fmt_d (ev_pid e)) @ '' (''
            @ ljust 16 (ev_comm e) @ '') '' @ src @ '':'' @ ljust 5 (fmt_u (ev_sport e)) @ '' '' @ ARROW @ '' ''
            @ dst @ '':'' @ ljust 5 (fmt_u (ev_dport e)) @ '' | '' @ ljust 6 (fmt_u (ev_len e)) @ '' B | ''
            @ ljust 6 (tuple_source_str (ev_tuple_source e)) @ '' | '')
        @ log_col_ns (ev_latency_ns e) 10000 100000
        @ printf endl
        @ log_output_unlock)"

section \<open>Lemmas\<close>

interpretation udp_runner: quiet_loaded "\<lambda>err. err < 0" neg_or_zero
  by unfold_locales (simp_all add: neg_or_zero_simps)

text \<open>
  The life of the run: a failed namespace lookup comes after the load, so it releases the skeleton and attaches
  nothing.
\<close>

definition udp_lifecycle ::
    "(u64 \<Rightarrow> u64 \<Rightarrow> UdpMonitor_ctrl) \<Rightarrow> run_env \<Rightarrow> (int \<times> UdpMonitor_ctrl action list) option \<Rightarrow> bool" where
  "udp_lifecycle mk e out \<longleftrightarrow>
     (case re_stat e of
        Inl _ \<Rightarrow> (\<exists>ret log. out = Some (ret, log) \<and> released log \<and> (\<forall>err. Attach err \<notin> set log) \<and> Print_stats \<notin> set log)
      | Inr (dev, ino) \<Rightarrow> lifecycle_at (mk dev ino) out)"

lemma udp_run_Inr:
  "re_stat e = Inr (dev, ino) \<Longrightarrow> udp_monitor_run ncpus t en pid delay e =
     (if ncpus \<le> 0 then Some (1, [])
      else run_loaded (\<lambda>err. err < 0) neg_or_zero (udp_monitor_ctrl_of en pid delay dev ino) t e)"
  by (simp add: udp_monitor_run_def run_loaded_def app_get_pid_namespace_def)

lemma udp_run_lifecycle: "udp_lifecycle (udp_monitor_ctrl_of en pid delay) e (udp_monitor_run ncpus t en pid delay e)"
proof (cases "re_stat e")
  case (Inl err)
  then show ?thesis
    by (simp add: udp_lifecycle_def udp_monitor_run_def app_get_pid_namespace_def run_cleanup_def released_def)
next
  case (Inr di)
  obtain dev ino where "di = (dev, ino)" by (cases di)
  moreover have "lifecycle_at c (Some (1, []))" for c :: UdpMonitor_ctrl
    by (simp add: lifecycle_at_def log_ok_def released_def summarised_def configured_def)
  ultimately show ?thesis using Inr by (simp add: udp_lifecycle_def udp_run_Inr udp_runner.loaded_lifecycle)
qed

lemma udp_run_returns:
  assumes "stops e"
  shows "udp_monitor_run ncpus t en pid delay e \<noteq> None"
proof (cases "re_stat e")
  case (Inr di)
  then show ?thesis
    by (cases di) (simp add: udp_run_Inr run_loaded_returns [OF assms] del: not_None_eq)
qed (simp add: udp_monitor_run_def app_get_pid_namespace_def)

lemma udp_run_status: "honest_status (0 < ncpus \<and> started e) (udp_monitor_run ncpus t en pid delay e)"
proof (cases "0 < ncpus \<and> started e")
  case True
  then obtain dev ino where "re_stat e = Inr (dev, ino)" "loaded_ok e" by (auto simp: started_def)
  then show ?thesis using True udp_runner.loaded_status [of e] by (simp add: udp_run_Inr)
qed (auto simp: honest_status_def split: option.split)

definition udp_ids :: "UdpMonitor_ctrl \<Rightarrow> bpf_env \<Rightarrow> u64" where
  "udp_ids c env = app_current_pid_tgid_ns env (pid_ns_dev c) (pid_ns_ino c)"

definition udp_tracked :: "UdpMonitor_ctrl \<Rightarrow> bpf_env \<Rightarrow> bool" where
  "udp_tracked c env \<longleftrightarrow> enable c \<and> udp_ids c env \<noteq> 0 \<and>
     (target_pid c = 0 \<or> target_pid c = hi32 (udp_ids c env))"

text \<open>The calls a thread is in: its depth with its context.\<close>

definition udp_calls :: "UdpMonitor_state \<Rightarrow> u64 \<Rightarrow> (u32 \<times> udp_start) option" where
  "udp_calls s k = (case (map_of (depth_map s) k, map_of (start_map s) k) of
     (Some d, Some v) \<Rightarrow> Some (d, v) | _ \<Rightarrow> None)"

fun udp_starts :: "UdpMonitor_ctrl \<Rightarrow> udp_firing \<Rightarrow> UdpMonitor_state \<Rightarrow> (u64 \<times> u32 \<times> udp_start) option" where
  "udp_starts c (Send env a) s =
     (if udp_tracked c env \<and> map_of (depth_map s) (env_pid_tgid env) = None
      then Some (env_pid_tgid env, 1, udp_start_of env (udp_ids c env) a) else None)"
| "udp_starts c _ s = None"

fun udp_route :: "u64 \<Rightarrow> udp_firing \<Rightarrow> udp_start \<Rightarrow> udp_start" where
  "udp_route k (Send_skb env (Some fl) hdr) v = (if env_pid_tgid env = k then route4 fl hdr v else v)"
| "udp_route k (Send_skb6 env (Some fl) hdr) v = (if env_pid_tgid env = k then route6 fl hdr v else v)"
| "udp_route k _ v = v"

fun udp_sends :: "UdpMonitor_ctrl \<Rightarrow> u64 \<Rightarrow> udp_firing \<Rightarrow> bool" where
  "udp_sends c k (Send env a) \<longleftrightarrow> env_pid_tgid env = k \<and> udp_tracked c env"
| "udp_sends c k _ \<longleftrightarrow> False"

fun udp_returns :: "u64 \<Rightarrow> udp_firing \<Rightarrow> bool" where
  "udp_returns k (Return env r) \<longleftrightarrow> env_pid_tgid env = k"
| "udp_returns k _ \<longleftrightarrow> False"

definition udp_touch :: "UdpMonitor_ctrl \<Rightarrow> udp_firing \<Rightarrow> u64 \<Rightarrow> u32 \<times> udp_start \<Rightarrow> (u32 \<times> udp_start) option" where
  "udp_touch c e k dv = (case dv of (d, v) \<Rightarrow>
     if udp_sends c k e then if d + 1 = 0 then None else Some (d + 1, v)
     else if udp_returns k e then if d > 1 then Some (d - 1, v) else None
     else Some (d, udp_route k e v))"

fun udp_reports :: "UdpMonitor_ctrl \<Rightarrow> udp_firing \<Rightarrow> u64 \<Rightarrow> u32 \<times> udp_start \<Rightarrow> UdpMonitor_event option" where
  "udp_reports c (Return env r) k (d, v) =
     (if env_pid_tgid env = k \<and> \<not> d > 1 \<and> start_ts v \<noteq> 0 \<and> enable c \<and> 0 \<le> sint r \<and>
         (min_latency_ns c = 0 \<or> min_latency_ns c \<le> env_ktime env - start_ts v) \<and> env_reserve_ok env
      then Some (udp_event_of env v r) else None)"
| "udp_reports c _ k dv = None"

text \<open>A thread is never \<open>2^32 - 1\<close> calls deep.\<close>

fun udp_shallow :: "udp_firing \<Rightarrow> UdpMonitor_state \<Rightarrow> bool" where
  "udp_shallow (Send env a) s \<longleftrightarrow> map_of (depth_map s) (env_pid_tgid env) \<noteq> Some (- 1)"
| "udp_shallow _ s \<longleftrightarrow> True"

definition udp_inv :: "UdpMonitor_ctrl \<Rightarrow> nat \<Rightarrow> UdpMonitor_state \<Rightarrow> bool" where
  "udp_inv c n s \<longleftrightarrow> ctrl_map s = Some c \<and> length (stats_map s) = n \<and> map_wf UDP_MAP_MAX (start_map s)
     \<and> map_wf UDP_MAP_MAX (depth_map s)"

definition udp_init :: "UdpMonitor_ctrl \<Rightarrow> nat \<Rightarrow> UdpMonitor_state" where
  "udp_init c n =
     \<lparr>start_map = [], depth_map = [], ctrl_map = Some c, stats_map = replicate n udp_zero, rb = []\<rparr>"

lemma udp_count_simps [simp]:
  "start_map (udp_count env f s) = start_map s" "depth_map (udp_count env f s) = depth_map s"
  "ctrl_map (udp_count env f s) = ctrl_map s" "rb (udp_count env f s) = rb s"
  "stats_map (udp_count env f s) = percpu_upd (env_cpu env) f (stats_map s)"
  by (simp_all add: udp_count_def)

lemma udp_miss_simps [simp]:
  "start_map (udp_miss env s) = start_map s" "depth_map (udp_miss env s) = depth_map s"
  "ctrl_map (udp_miss env s) = ctrl_map s" "rb (udp_miss env s) = rb s"
  "length (stats_map (udp_miss env s)) = length (stats_map s)"
  by (simp_all add: udp_miss_def)

lemma udp_send_cases:
  assumes "ctrl_map s = Some c" and "enable c"
  shows "record_udp_send env a s =
    (if \<not> udp_tracked c env then udp_count env (\<lambda>v. v\<lparr>filtered_pid := filtered_pid v + 1\<rparr>) s
     else case map_of (depth_map s) (env_pid_tgid env) of
       Some d \<Rightarrow> udp_count env (\<lambda>v. v\<lparr>nested_calls := nested_calls v + 1\<rparr>)
         (s\<lparr>depth_map := AList.update (env_pid_tgid env) (d + 1) (depth_map s)\<rparr>)
     | None \<Rightarrow>
       if \<not> env_update_ok env \<or> UDP_MAP_MAX \<le> length (depth_map s)
       then udp_count env (\<lambda>v. v\<lparr>map_update_failed := map_update_failed v + 1\<rparr>) s
       else if \<not> send_start_ok a
       then udp_count env (\<lambda>v. v\<lparr>map_update_failed := map_update_failed v + 1\<rparr>)
         (s\<lparr>depth_map := bpf_delete (env_pid_tgid env) (AList.update (env_pid_tgid env) 1 (depth_map s))\<rparr>)
       else udp_count env (\<lambda>v. v\<lparr>attempted := attempted v + 1\<rparr>)
         (s\<lparr>depth_map := AList.update (env_pid_tgid env) 1 (depth_map s),
            start_map := AList.update (env_pid_tgid env) (udp_start_of env (udp_ids c env) a)
              (lru_room UDP_MAP_MAX (env_pid_tgid env) (lru_evict (env_evict env) (env_pid_tgid env) (start_map s)))\<rparr>))"
  using assms
  by (auto simp: record_udp_send_def udp_tracked_def udp_ids_def hash_update_noexist_def hash_update_def
      lru_update_def UDP_MAP_MAX_def Let_def split: option.split)

lemma udp_send_off:
  "ctrl_map s = Some c \<Longrightarrow> \<not> enable c \<Longrightarrow> record_udp_send env a s = s"
  by (simp add: record_udp_send_def)

lemma udp_step_inv:
  assumes "udp_inv c n s"
  shows "udp_inv c n (udp_step e s)"
proof (cases e)
  case (Send env a)
  have wf: "map_wf UDP_MAP_MAX (start_map s)" "map_wf UDP_MAP_MAX (depth_map s)" "ctrl_map s = Some c"
    using assms by (simp_all add: udp_inv_def)
  have "map_wf UDP_MAP_MAX (AList.update k v (lru_room UDP_MAP_MAX k (lru_evict ev k (start_map s))))" for k v ev
    using lru_room_wf [OF lru_evict_wf [OF wf(1)]] by (auto simp: map_wf_update UDP_MAP_MAX_def)
  then show ?thesis
    using assms wf Send
    by (cases "enable c")
       (auto simp: udp_send_cases udp_send_off udp_inv_def map_wf_update delete_map_wf split: option.split)
next
  case (Return env r)
  then show ?thesis using assms
    by (auto simp: udp_inv_def finish_udp_send_def map_wf_update delete_map_wf Let_def split: option.split)
qed (use assms in \<open>auto simp: udp_inv_def trace_udp_send_skb_def trace_udp_v6_send_skb_def map_wf_update Let_def split: option.split\<close>)

lemma udp_calls_Some:
  "udp_calls s k = Some (d, v) \<longleftrightarrow> map_of (depth_map s) k = Some d \<and> map_of (start_map s) k = Some v"
  by (auto simp: udp_calls_def split: option.split)

lemma udp_send_calls:
  assumes "udp_inv c n s" and "udp_shallow (Send env a) s" and "udp_calls (record_udp_send env a s) k = Some (d', v')"
  shows "udp_starts c (Send env a) s = Some (k, d', v') \<or>
    (\<exists>d v. udp_calls s k = Some (d, v) \<and> udp_touch c (Send env a) k (d, v) = Some (d', v'))"
proof (cases "enable c")
  case True
  have c: "ctrl_map s = Some c" and wf: "map_wf UDP_MAP_MAX (start_map s)" using assms(1) by (simp_all add: udp_inv_def)
  have ev: "map_of (lru_room UDP_MAP_MAX k0 (lru_evict ev k0 (start_map s))) k = Some v \<Longrightarrow> map_of (start_map s) k = Some v"
    for k0 ev v
    using map_of_lru_room [OF lru_evict_wf [OF wf], of k0 ev k0 k] by (auto simp: map_of_lru_evict split: if_splits)
  have wrap: "d \<noteq> - 1 \<Longrightarrow> d + 1 \<noteq> 0" for d :: u32 by (metis eq_neg_iff_add_eq_0)
  show ?thesis
    using assms(2,3) wrap
    by (auto simp: udp_send_cases [OF c True] udp_calls_Some udp_touch_def update_conv' dest: ev
        split: if_splits option.splits)
next
  case False
  then show ?thesis using assms by (auto simp: udp_send_off udp_inv_def udp_touch_def udp_tracked_def)
qed

lemma udp_route_other:
  "env_pid_tgid env \<noteq> k \<Longrightarrow> udp_route k (Send_skb env fl4 hdr) v = v"
  "env_pid_tgid env \<noteq> k \<Longrightarrow> udp_route k (Send_skb6 env fl6 hdr6) v = v"
  by (cases fl4; simp) (cases fl6; simp)

lemma udp_flow_calls:
  assumes "udp_calls (udp_step e s) k = Some (d', v')" and "e = Send_skb env fl4 hdr \<or> e = Send_skb6 env fl6 hdr6"
  shows "\<exists>d v. udp_calls s k = Some (d, v) \<and> udp_touch c e k (d, v) = Some (d', v')"
proof (cases "env_pid_tgid env = k")
  case True
  then show ?thesis using assms
    by (auto simp: udp_calls_Some udp_touch_def trace_udp_send_skb_def trace_udp_v6_send_skb_def update_conv' Let_def
        split: option.splits)
next
  case False
  then show ?thesis using assms
    by (auto simp: udp_calls_Some udp_touch_def trace_udp_send_skb_def trace_udp_v6_send_skb_def update_conv' Let_def
        udp_route_other split: option.splits)
qed

lemma udp_return_calls:
  assumes "udp_calls (finish_udp_send env r s) k = Some (d', v')"
  shows "\<exists>d v. udp_calls s k = Some (d, v) \<and> udp_touch c (Return env r) k (d, v) = Some (d', v')"
  using assms
  by (auto simp: udp_calls_Some udp_touch_def finish_udp_send_def update_conv' Let_def split: if_splits option.splits)

lemma udp_step_calls:
  assumes "udp_inv c n s" and "udp_shallow e s" and "udp_calls (udp_step e s) k = Some dv'"
  shows "udp_starts c e s = Some (k, dv') \<or> (\<exists>dv. udp_calls s k = Some dv \<and> udp_touch c e k dv = Some dv')"
proof (cases e)
  case (Send env a)
  then show ?thesis using assms udp_send_calls [of c n s env a k] by (cases dv') auto
next
  case (Send_skb env fl hdr)
  then show ?thesis using udp_flow_calls [of e s k _ _ env] assms(3) by (cases dv') blast
next
  case (Send_skb6 env fl hdr)
  then show ?thesis using udp_flow_calls [of e s k _ _ env] assms(3) by (cases dv') blast
next
  case (Return env r)
  then show ?thesis using udp_return_calls [of env r s k] assms(3) by (cases dv') auto
qed

lemma udp_step_rb:
  assumes "udp_inv c n s" and "x \<in> set (rb (udp_step e s))"
  shows "x \<in> set (rb s) \<or> (\<exists>k dv. udp_calls s k = Some dv \<and> udp_reports c e k dv = Some x)"
proof (cases e)
  case (Send env a)
  then show ?thesis using assms
    by (cases "enable c") (auto simp: udp_inv_def udp_send_cases udp_send_off split: if_splits option.splits)
next
  case (Return env r)
  then show ?thesis using assms
    by (fastforce simp: udp_inv_def finish_udp_send_def udp_calls_def Let_def not_less split: if_splits option.splits)
qed (use assms in \<open>auto simp: trace_udp_send_skb_def trace_udp_v6_send_skb_def Let_def split: option.splits\<close>)

interpretation udp_mon: evolving_monitor udp_step udp_shallow "udp_inv c n" udp_calls rb "udp_starts c" "udp_touch c"
  "udp_reports c" for c n
  by unfold_locales (use udp_step_inv udp_step_calls udp_step_rb in blast)+

lemma udp_inv_init: "udp_inv c n (udp_init c n)"
  by (simp add: udp_inv_def udp_init_def)

interpretation udp_any: probe_system udp_step "\<lambda>_ _. True" "udp_inv c n" for c n
  by unfold_locales (rule udp_step_inv)

text \<open>The nesting of the calls of thread \<open>k\<close>: \<open>None\<close> when the outermost call returns.\<close>

fun udp_nesting :: "UdpMonitor_ctrl \<Rightarrow> u64 \<Rightarrow> udp_firing list \<Rightarrow> nat \<Rightarrow> nat option" where
  "udp_nesting c k [] d = Some d"
| "udp_nesting c k (e # es) d =
     (if udp_sends c k e then udp_nesting c k es (Suc d)
      else if udp_returns k e then if d \<le> 1 then None else udp_nesting c k es (d - 1)
      else udp_nesting c k es d)"

lemma udp_route_calls: "udp_sends c k e \<or> udp_returns k e \<Longrightarrow> udp_route k e v = v"
  by (cases e) auto

lemma udp_touched_facts:
  assumes "touched (udp_touch c) k es (d, v) = Some (d', v')"
  shows "udp_nesting c k es (unat d) = Some (unat d') \<and> v' = fold (udp_route k) es v"
  using assms
proof (induction es arbitrary: d v)
  case (Cons e es)
  then obtain d1 v1 where t: "udp_touch c e k (d, v) = Some (d1, v1)" "touched (udp_touch c) k es (d1, v1) = Some (d', v')"
    by (auto simp: bind_eq_Some_conv)
  have up: "unat (d + 1) = Suc (unat d)" if "d + 1 \<noteq> 0" using that unatSuc [of d] by (simp add: add.commute)
  have down: "unat (d - 1) = unat d - 1 \<and> 1 < unat d" if "1 < d"
  proof -
    have "d \<noteq> 0" using that by auto
    then show ?thesis using that unat_minus_one [of d] by (simp add: word_less_nat_alt)
  qed
  show ?case
    using t(1) up down udp_route_calls [of c k e v] Cons.IH [OF t(2)] by (auto simp: udp_touch_def split: if_splits)
qed simp

lemma udp_nesting_pos: "udp_nesting c k es d = Some d' \<Longrightarrow> 0 < d \<Longrightarrow> 0 < d'"
  by (induction es arbitrary: d) (auto split: if_splits)

lemma udp_route_owner:
  "start_ts (udp_route k e v) = start_ts v \<and> us_tgid (udp_route k e v) = us_tgid v
   \<and> us_pid (udp_route k e v) = us_pid v \<and> us_comm (udp_route k e v) = us_comm v"
  by (cases "(k, e, v)" rule: udp_route.cases) (auto simp: route4_def route6_def Let_def split: option.split)

lemma udp_routes_owner:
  "start_ts (fold (udp_route k) es v) = start_ts v \<and> us_tgid (fold (udp_route k) es v) = us_tgid v
   \<and> us_pid (fold (udp_route k) es v) = us_pid v \<and> us_comm (fold (udp_route k) es v) = us_comm v"
  by (induction es arbitrary: v) (simp_all add: udp_route_owner)

lemma read_msg_name_owner:
  "start_ts (fst (read_msg_name a v)) = start_ts v \<and> us_tgid (fst (read_msg_name a v)) = us_tgid v
   \<and> us_pid (fst (read_msg_name a v)) = us_pid v \<and> us_comm (fst (read_msg_name a v)) = us_comm v"
  by (simp add: read_msg_name_def split: option.split prod.split)

lemma udp_start_of_owner:
  "start_ts (udp_start_of env i a) = env_ktime env \<and> us_tgid (udp_start_of env i a) = hi32 i
   \<and> us_pid (udp_start_of env i a) = lo32 i \<and> us_comm (udp_start_of env i a) = env_comm env"
  by (simp add: udp_start_of_def Let_def case_prod_beta read_msg_name_owner)

lemmas udp_owner = udp_routes_owner udp_start_of_owner

text \<open>Sends in flight, and what becomes of the successful ones.\<close>

fun udp_regular :: "udp_firing \<Rightarrow> UdpMonitor_state \<Rightarrow> bool" where
  "udp_regular (Send env a) s \<longleftrightarrow> env_cpu env < length (stats_map s) \<and> env_ktime env \<noteq> 0 \<and> env_evict env = []"
| "udp_regular (Return env r) s \<longleftrightarrow> env_cpu env < length (stats_map s)"
| "udp_regular _ s \<longleftrightarrow> True"

definition udp_inv2 :: "UdpMonitor_ctrl \<Rightarrow> nat \<Rightarrow> UdpMonitor_state \<Rightarrow> bool" where
  "udp_inv2 c n s \<longleftrightarrow> udp_inv c n s \<and> dom (map_of (depth_map s)) = dom (map_of (start_map s))
     \<and> map_all (\<lambda>k v. start_ts v \<noteq> 0) (start_map s) \<and> (enable c \<or> depth_map s = [])"

definition udp_flow :: "UdpMonitor_stats \<Rightarrow> u64" where
  "udp_flow v = attempted v - count v - failed v"

definition udp_out :: "UdpMonitor_stats \<Rightarrow> u64" where
  "udp_out v = count v - filtered_latency v - ringbuf_dropped v"

definition udp_q1 :: "UdpMonitor_state \<Rightarrow> u64" where
  "udp_q1 s = sum_list (map udp_flow (stats_map s)) - of_nat (length (start_map s))"

definition udp_q2 :: "UdpMonitor_state \<Rightarrow> u64" where
  "udp_q2 s = sum_list (map udp_out (stats_map s)) - of_nat (length (rb s))"

lemma udp_flow_simps [simp]:
  "udp_flow (udp_send_stats l r v c) = udp_flow c - 1"
  "udp_flow (c\<lparr>failed := failed c + 1\<rparr>) = udp_flow c - 1"
  "udp_flow (c\<lparr>attempted := attempted c + 1\<rparr>) = udp_flow c + 1"
  "udp_flow (c\<lparr>filtered_latency := x\<rparr>) = udp_flow c" "udp_flow (c\<lparr>ringbuf_dropped := x\<rparr>) = udp_flow c"
  "udp_flow (c\<lparr>filtered_pid := x\<rparr>) = udp_flow c" "udp_flow (c\<lparr>nested_calls := x\<rparr>) = udp_flow c"
  "udp_flow (c\<lparr>map_update_failed := x\<rparr>) = udp_flow c" "udp_flow (c\<lparr>lookup_missed := x\<rparr>) = udp_flow c"
  by (simp_all add: udp_flow_def udp_send_stats_def Let_def algebra_simps)

lemma udp_out_simps [simp]:
  "udp_out (udp_send_stats l r v c) = udp_out c + 1"
  "udp_out (c\<lparr>filtered_latency := filtered_latency c + 1\<rparr>) = udp_out c - 1"
  "udp_out (c\<lparr>ringbuf_dropped := ringbuf_dropped c + 1\<rparr>) = udp_out c - 1"
  "udp_out (c\<lparr>failed := x\<rparr>) = udp_out c" "udp_out (c\<lparr>attempted := x\<rparr>) = udp_out c"
  "udp_out (c\<lparr>filtered_pid := x\<rparr>) = udp_out c" "udp_out (c\<lparr>nested_calls := x\<rparr>) = udp_out c"
  "udp_out (c\<lparr>map_update_failed := x\<rparr>) = udp_out c" "udp_out (c\<lparr>lookup_missed := x\<rparr>) = udp_out c"
  by (simp_all add: udp_out_def udp_send_stats_def Let_def algebra_simps)

lemma udp_q1_count:
  assumes "\<And>x. udp_flow (f x) = udp_flow x + d" and "d = 0 \<or> env_cpu env < length (stats_map s)"
  shows "udp_q1 (udp_count env f s) = udp_q1 s + d"
  using assms sum_percpu_upd [of udp_flow f d "env_cpu env" "stats_map s"] by (auto simp: udp_q1_def)

lemma udp_q2_count:
  assumes "\<And>x. udp_out (f x) = udp_out x + d" and "d = 0 \<or> env_cpu env < length (stats_map s)"
  shows "udp_q2 (udp_count env f s) = udp_q2 s + d"
  using assms sum_percpu_upd [of udp_out f d "env_cpu env" "stats_map s"] by (auto simp: udp_q2_def)

lemmas udp_q1_same = udp_q1_count [of _ 0, simplified]

lemmas udp_q2_same = udp_q2_count [of _ 0, simplified]

lemma udp_q_maps [simp]:
  "udp_q1 (s\<lparr>depth_map := m\<rparr>) = udp_q1 s" "udp_q2 (s\<lparr>depth_map := m\<rparr>) = udp_q2 s"
  "udp_q2 (s\<lparr>start_map := sm\<rparr>) = udp_q2 s" "udp_q1 (s\<lparr>rb := es\<rparr>) = udp_q1 s"
  "udp_q1 (s\<lparr>start_map := sm\<rparr>) = udp_q1 s + of_nat (length (start_map s)) - of_nat (length sm)"
  "udp_q2 (s\<lparr>rb := es\<rparr>) = udp_q2 s + of_nat (length (rb s)) - of_nat (length es)"
  by (simp_all add: udp_q1_def udp_q2_def)

lemma udp_q1_rules:
  "env_cpu env < length (stats_map s) \<Longrightarrow> udp_q1 (udp_count env (udp_send_stats l r v) s) = udp_q1 s - 1"
  "env_cpu env < length (stats_map s) \<Longrightarrow>
     udp_q1 (udp_count env (\<lambda>c. c\<lparr>failed := failed c + 1\<rparr>) s) = udp_q1 s - 1"
  "env_cpu env < length (stats_map s) \<Longrightarrow>
     udp_q1 (udp_count env (\<lambda>c. c\<lparr>attempted := attempted c + 1\<rparr>) s) = udp_q1 s + 1"
  "udp_q1 (udp_miss env s) = udp_q1 s"
  using udp_q1_count [of _ 1 env s] udp_q1_count [of _ "- 1" env s] by (simp_all add: udp_miss_def udp_q1_same)

lemma udp_q2_rules:
  "env_cpu env < length (stats_map s) \<Longrightarrow> udp_q2 (udp_count env (udp_send_stats l r v) s) = udp_q2 s + 1"
  "env_cpu env < length (stats_map s) \<Longrightarrow>
     udp_q2 (udp_count env (\<lambda>c. c\<lparr>filtered_latency := filtered_latency c + 1\<rparr>) s) = udp_q2 s - 1"
  "env_cpu env < length (stats_map s) \<Longrightarrow>
     udp_q2 (udp_count env (\<lambda>c. c\<lparr>ringbuf_dropped := ringbuf_dropped c + 1\<rparr>) s) = udp_q2 s - 1"
  "udp_q2 (udp_miss env s) = udp_q2 s"
  using udp_q2_count [of _ 1 env s] udp_q2_count [of _ "- 1" env s] by (simp_all add: udp_miss_def udp_q2_same)

lemma length_card_dom: "distinct (map fst m) \<Longrightarrow> length m = card (dom (map_of m))"
  by (metis distinct_card dom_map_of_conv_image_fst length_map set_map)

lemma udp_same_length: "udp_inv2 c n s \<Longrightarrow> length (depth_map s) = length (start_map s)"
  by (simp add: udp_inv2_def udp_inv_def map_wf_def length_card_dom)

lemma no_evict: "length m < mx \<Longrightarrow> lru_room mx k (lru_evict [] k m) = m"
  by (simp add: lru_room_def lru_evict_def)

text \<open>A regular send of a thread in no call adds one context.\<close>

lemma udp_send_keeps:
  assumes "udp_inv2 c n s" and "udp_regular (Send env a) s"
  shows "udp_inv2 c n (record_udp_send env a s)
    \<and> udp_q1 (record_udp_send env a s) = udp_q1 s \<and> udp_q2 (record_udp_send env a s) = udp_q2 s"
proof (cases "enable c")
  case True
  let ?k = "env_pid_tgid env"
  have inv: "udp_inv c n s" and c: "ctrl_map s = Some c"
    and dom: "dom (map_of (depth_map s)) = dom (map_of (start_map s))"
    and ts: "map_all (\<lambda>k v. start_ts v \<noteq> 0) (start_map s)"
    using assms(1) by (simp_all add: udp_inv2_def udp_inv_def)
  have cpu: "env_cpu env < length (stats_map s)" and t0: "env_ktime env \<noteq> 0" and ev: "env_evict env = []"
    using assms(2) by simp_all
  have inv': "udp_inv c n (record_udp_send env a s)" using udp_step_inv [OF inv, of "Send env a"] by simp
  note send = udp_send_cases [OF c True, of env a]
  have room: "lru_room UDP_MAP_MAX ?k (lru_evict [] ?k (start_map s)) = start_map s"
    if "\<not> UDP_MAP_MAX \<le> length (depth_map s)"
    using that udp_same_length [OF assms(1)] by (simp add: no_evict)
  have absent: "map_of (start_map s) ?k = None" if "map_of (depth_map s) ?k = None"
    using that dom by (metis domIff)
  have len: "length (AList.update ?k v (start_map s)) = Suc (length (start_map s))"
    if "map_of (depth_map s) ?k = None" for v
    using absent [OF that] by (simp add: length_update)
  have undo: "map_of (bpf_delete ?k (AList.update ?k 1 (depth_map s))) = map_of (depth_map s)"
    if "map_of (depth_map s) ?k = None"
    using that by (simp add: update_conv' fun_upd_idem)
  have ts': "map_all (\<lambda>k v. start_ts v \<noteq> 0) (AList.update ?k (udp_start_of env (udp_ids c env) a) (start_map s))"
    using ts t0 by (auto simp: map_all_def update_conv' udp_start_of_owner)
  show ?thesis
  proof (cases "map_of (depth_map s) ?k")
    case None
    then show ?thesis
      using inv' ts ts' dom cpu True room len [OF None] undo [OF None] unfolding send
      by (auto simp: udp_inv2_def ev update_conv' udp_q1_same udp_q2_same udp_q1_rules)
  next
    case (Some d)
    then have "?k \<in> dom (map_of (start_map s))" using dom by blast
    then show ?thesis
      using inv' ts dom True Some unfolding send
      by (auto simp: udp_inv2_def update_conv' udp_q1_same udp_q2_same)
  qed
next
  case False
  have "record_udp_send env a s = s"
    using assms(1) False by (simp add: udp_send_off udp_inv2_def udp_inv_def)
  then show ?thesis using assms(1) by simp
qed

lemma route_ts: "start_ts (route4 fl hdr v) = start_ts v" "start_ts (route6 fl6 hdr6 v) = start_ts v"
  by (simp_all add: route4_def route6_def Let_def split: option.split)

lemma udp_flow_keeps:
  assumes "udp_inv2 c n s" and "e = Send_skb env fl4 hdr \<or> e = Send_skb6 env fl6 hdr6"
  shows "udp_inv2 c n (udp_step e s) \<and> udp_q1 (udp_step e s) = udp_q1 s \<and> udp_q2 (udp_step e s) = udp_q2 s"
proof -
  let ?k = "env_pid_tgid env"
  have inv': "udp_inv c n (udp_step e s)" using assms(1) udp_step_inv by (simp add: udp_inv2_def)
  have "udp_step e s = s \<or> (\<exists>v v'. map_of (start_map s) ?k = Some v \<and> start_ts v' = start_ts v
      \<and> udp_step e s = s\<lparr>start_map := AList.update ?k v' (start_map s)\<rparr>)"
    using assms(2) route_ts
    by (fastforce simp: trace_udp_send_skb_def trace_udp_v6_send_skb_def Let_def split: option.split)
  then show ?thesis
  proof (elim disjE exE conjE)
    fix v v'
    assume v: "map_of (start_map s) ?k = Some v" "start_ts v' = start_ts v"
      and s': "udp_step e s = s\<lparr>start_map := AList.update ?k v' (start_map s)\<rparr>"
    have len: "length (AList.update ?k v' (start_map s)) = length (start_map s)"
      using v(1) by (simp add: length_update)
    have ts: "map_all (\<lambda>k v. start_ts v \<noteq> 0) (AList.update ?k v' (start_map s))"
      using assms(1) v by (auto simp: udp_inv2_def map_all_def update_conv')
    show ?thesis using assms(1) inv' v(1) ts unfolding s' by (auto simp: udp_inv2_def update_conv' len)
  qed (use assms(1) in simp)
qed

text \<open>What a return does while the two maps have the same threads.\<close>

definition udp_after :: "UdpMonitor_ctrl \<Rightarrow> bpf_env \<Rightarrow> s32 \<Rightarrow> udp_start \<Rightarrow> UdpMonitor_state \<Rightarrow> UdpMonitor_state" where
  "udp_after c env r v s =
     (if sint r < 0 then udp_count env (\<lambda>v. v\<lparr>failed := failed v + 1\<rparr>) s
      else let s3 = udp_count env (udp_send_stats (env_ktime env - start_ts v) r v) s in
        if min_latency_ns c \<noteq> 0 \<and> env_ktime env - start_ts v < min_latency_ns c
        then udp_count env (\<lambda>v. v\<lparr>filtered_latency := filtered_latency v + 1\<rparr>) s3
        else if \<not> env_reserve_ok env
        then udp_count env (\<lambda>v. v\<lparr>ringbuf_dropped := ringbuf_dropped v + 1\<rparr>) s3
        else s3\<lparr>rb := rb s3 @ [udp_event_of env v r]\<rparr>)"

lemma udp_return_cases:
  assumes "udp_inv2 c n s"
  shows "finish_udp_send env r s = (case udp_calls s (env_pid_tgid env) of
     None \<Rightarrow> udp_miss env s
   | Some (d, v) \<Rightarrow>
     if d > 1 then s\<lparr>depth_map := AList.update (env_pid_tgid env) (d - 1) (depth_map s)\<rparr>
     else udp_after c env r v (s\<lparr>depth_map := bpf_delete (env_pid_tgid env) (depth_map s),
       start_map := bpf_delete (env_pid_tgid env) (start_map s)\<rparr>))"
proof (cases "udp_calls s (env_pid_tgid env)")
  case None
  then have "map_of (depth_map s) (env_pid_tgid env) = None"
    using assms by (auto simp: udp_inv2_def udp_calls_def split: option.splits)
  then show ?thesis using None by (simp add: finish_udp_send_def)
next
  case (Some dv)
  obtain d v where dv: "dv = (d, v)" by (cases dv)
  have m: "map_of (depth_map s) (env_pid_tgid env) = Some d" "map_of (start_map s) (env_pid_tgid env) = Some v"
    using Some by (simp_all add: dv udp_calls_Some)
  then have "start_ts v \<noteq> 0" "enable c" "ctrl_map s = Some c"
    using assms by (auto simp: udp_inv2_def udp_inv_def map_all_def)
  then show ?thesis using Some m by (simp add: dv finish_udp_send_def udp_after_def Let_def)
qed

lemma udp_after_simps [simp]:
  "start_map (udp_after c env r v s) = start_map s" "depth_map (udp_after c env r v s) = depth_map s"
  by (simp_all add: udp_after_def Let_def)

lemma udp_after_quantities:
  assumes "env_cpu env < length (stats_map s)"
  shows "udp_q1 (udp_after c env r v s) = udp_q1 s - 1" "udp_q2 (udp_after c env r v s) = udp_q2 s"
  using assms by (simp_all add: udp_after_def Let_def udp_q1_same udp_q2_same udp_q1_rules udp_q2_rules)

lemma udp_return_keeps:
  assumes "udp_inv2 c n s" and "udp_regular (Return env r) s"
  shows "udp_inv2 c n (finish_udp_send env r s)
    \<and> udp_q1 (finish_udp_send env r s) = udp_q1 s \<and> udp_q2 (finish_udp_send env r s) = udp_q2 s"
proof -
  let ?k = "env_pid_tgid env"
  have inv': "udp_inv c n (finish_udp_send env r s)"
    using assms(1) udp_step_inv [of c n s "Return env r"] by (simp add: udp_inv2_def)
  have facts: "dom (map_of (depth_map s)) = dom (map_of (start_map s))" "enable c \<or> depth_map s = []"
    "map_all (\<lambda>k v. start_ts v \<noteq> 0) (start_map s)"
    using assms(1) by (simp_all add: udp_inv2_def)
  note ret = udp_return_cases [OF assms(1), of env r]
  show ?thesis
  proof (cases "udp_calls s ?k")
    case None
    then show ?thesis using inv' facts unfolding ret by (simp add: udp_inv2_def udp_q1_rules udp_q2_rules)
  next
    case (Some dv)
    obtain d v where dv: "dv = (d, v)" by (cases dv)
    have m: "map_of (depth_map s) ?k = Some d" "map_of (start_map s) ?k = Some v"
      using Some by (simp_all add: dv udp_calls_Some)
    then have on: "enable c" using facts(2) by auto
    have "distinct (map fst (start_map s))" using assms(1) by (simp add: udp_inv2_def udp_inv_def map_wf_def)
    then have len: "length (start_map s) = Suc (length (bpf_delete ?k (start_map s)))"
      using length_delete_present [of "start_map s" ?k] m(2) by simp
    show ?thesis
      using inv' facts m on assms(2) len unfolding ret
      by (auto simp: Some dv udp_inv2_def update_conv' udp_after_quantities map_all_delete)
  qed
qed

interpretation udp_cons: conserved_monitor udp_step udp_regular "udp_inv2 c n" "\<lambda>s. (udp_q1 s, udp_q2 s)" for c n
proof unfold_locales
  have keeps: "udp_inv2 c n (udp_step e s) \<and> udp_q1 (udp_step e s) = udp_q1 s \<and> udp_q2 (udp_step e s) = udp_q2 s"
    if "udp_inv2 c n s" "udp_regular e s" for e s
    using that udp_send_keeps udp_return_keeps udp_flow_keeps by (cases e) fastforce+
  fix s :: UdpMonitor_state and e :: udp_firing
  assume "udp_inv2 c n s" "udp_regular e s"
  then show "udp_inv2 c n (udp_step e s)" "(udp_q1 (udp_step e s), udp_q2 (udp_step e s)) = (udp_q1 s, udp_q2 s)"
    using keeps by blast+
qed

lemma udp_inv2_init: "udp_inv2 c n (udp_init c n)"
  by (simp add: udp_inv2_def udp_inv_init) (simp add: udp_init_def)

interpretation udp_rep: percpu_report udp_zero udp_merge
  "{attempted, count, failed, total_ns, total_bytes, filtered_pid, filtered_latency, ringbuf_dropped,
    map_update_failed, lookup_missed, nested_calls, flow_tuple, fallback_tuple}"
  max_ns "\<lambda>v. (max_pid v, max_tid v, max_comm v)"
  by unfold_locales (auto simp: udp_zero_def udp_merge_def Let_def max_def)

text \<open>Every successful send has an address, routed or not.\<close>

definition udp_bal :: "UdpMonitor_stats \<Rightarrow> u64" where
  "udp_bal v = count v - flow_tuple v - fallback_tuple v"

lemma udp_bal_simps [simp]:
  "udp_bal (udp_send_stats l r v c) = udp_bal c"
  "udp_bal (c\<lparr>failed := x\<rparr>) = udp_bal c" "udp_bal (c\<lparr>attempted := x\<rparr>) = udp_bal c"
  "udp_bal (c\<lparr>filtered_latency := x\<rparr>) = udp_bal c" "udp_bal (c\<lparr>ringbuf_dropped := x\<rparr>) = udp_bal c"
  "udp_bal (c\<lparr>filtered_pid := x\<rparr>) = udp_bal c" "udp_bal (c\<lparr>nested_calls := x\<rparr>) = udp_bal c"
  "udp_bal (c\<lparr>map_update_failed := x\<rparr>) = udp_bal c" "udp_bal (c\<lparr>lookup_missed := x\<rparr>) = udp_bal c"
  by (simp_all add: udp_bal_def udp_send_stats_def Let_def algebra_simps)

lemma udp_miss_bal: "map udp_bal (stats_map (udp_miss env s)) = map udp_bal (stats_map s)"
  by (simp add: udp_miss_def map_percpu_upd)

lemma udp_step_bal:
  assumes "udp_inv c n s"
  shows "map udp_bal (stats_map (udp_step e s)) = map udp_bal (stats_map s)"
proof (cases e)
  case (Send env a)
  have c: "ctrl_map s = Some c" using assms by (simp add: udp_inv_def)
  show ?thesis using c
    by (cases "enable c") (auto simp: Send udp_send_cases udp_send_off map_percpu_upd split: option.split)
next
  case (Return env r)
  then show ?thesis using assms
    by (auto simp: udp_inv_def finish_udp_send_def udp_miss_bal map_percpu_upd Let_def split: option.split)
qed (auto simp: trace_udp_send_skb_def trace_udp_v6_send_skb_def Let_def split: option.split)

interpretation udp_tuples: balanced_monitor udp_step udp_regular "udp_inv c n" stats_map udp_bal for c n
  by unfold_locales (simp_all add: udp_step_inv udp_step_bal)

lemma printable_udp [simp]: "printable (tuple_source_str src)" "printable (ip_str n af v4 v6)"
  by (simp_all add: tuple_source_str_def ip_str_def split: UdpTupleSource.split)

interpretation udp_lines: whole_printer "\<lambda>(sz, now, e). udp_handle_event sz now e" "\<lambda>(sz, now, e). printable (ev_comm e)"
  by unfold_locales (auto simp: udp_handle_event_def line_simps Let_def split: if_splits)

text \<open>Every event passed the filters of the configuration.\<close>

lemma udp_filtered:
  assumes "admissible udp_shallow udp_step tr (udp_init c n)" and "x \<in> set (rb (fold udp_step tr (udp_init c n)))"
  shows "enable c \<and> min_latency_ns c \<le> ev_latency_ns x \<and> (target_pid c = 0 \<or> ev_tgid x = target_pid c)"
proof -
  have none: "\<And>k. udp_calls (udp_init c n) k = None" "rb (udp_init c n) = []"
    by (simp_all add: udp_calls_def udp_init_def)
  obtain pre e1 mid e2 k dv0 d v where s: "udp_starts c e1 (fold udp_step pre (udp_init c n)) = Some (k, dv0)"
    and m: "touched (udp_touch c) k mid dv0 = Some (d, v)" and r: "udp_reports c e2 k (d, v) = Some x"
    using udp_mon.reported_evolved [OF assms(1) udp_inv_init none assms(2)] by force
  obtain env1 a where st: "dv0 = (1, udp_start_of env1 (udp_ids c env1) a)" "udp_tracked c env1"
    using s by (cases e1) (auto split: if_splits)
  have "us_tgid v = hi32 (udp_ids c env1)"
    using udp_touched_facts [OF m [unfolded st(1)]] by (simp add: udp_owner)
  then show ?thesis
    using r st(2) by (cases e2) (auto simp: udp_tracked_def udp_event_of_def split: if_splits)
qed

section \<open>Properties\<close>

text \<open>
  C16: while sends nest less deep than the counter can count, every event reported is one outermost send. It pairs an entry of the traced process, made while its
  thread was in no send, with a successful return of the same thread; the sends of that thread in
  between are all nested and complete, so a call inside a call is never reported by itself; the latency is the difference
  of the two clock readings and at least the threshold, the length is what the call returned, the ids and the
  name are those of the entry, and the addresses are those of the last packet the thread built in the call,
  or those of the entry if it built none.
\<close>

theorem udp_reported_send:
  assumes "admissible udp_shallow udp_step tr (udp_init c n)" and "x \<in> set (rb (fold udp_step tr (udp_init c n)))"
  shows "\<exists>pre env1 a mid env2 r post. tr = pre @ Send env1 a # mid @ Return env2 r # post
    \<and> env_pid_tgid env1 = env_pid_tgid env2 \<and> udp_tracked c env1
    \<and> map_of (depth_map (fold udp_step pre (udp_init c n))) (env_pid_tgid env1) = None
    \<and> udp_nesting c (env_pid_tgid env1) mid 1 = Some 1
    \<and> x = udp_event_of env2 (fold (udp_route (env_pid_tgid env1)) mid (udp_start_of env1 (udp_ids c env1) a)) r
    \<and> 0 \<le> sint r \<and> ev_latency_ns x = env_ktime env2 - env_ktime env1 \<and> min_latency_ns c \<le> ev_latency_ns x
    \<and> ev_tgid x = hi32 (udp_ids c env1) \<and> ev_pid x = lo32 (udp_ids c env1) \<and> ev_comm x = env_comm env1"
proof -
  let ?s = "udp_init c n"
  have none: "\<And>k. udp_calls ?s k = None" "rb ?s = []" by (simp_all add: udp_calls_def udp_init_def)
  obtain pre e1 mid e2 post k dv0 dv where t: "tr = pre @ e1 # mid @ e2 # post"
    and s: "udp_starts c e1 (fold udp_step pre ?s) = Some (k, dv0)" and m: "touched (udp_touch c) k mid dv0 = Some dv"
    and r: "udp_reports c e2 k dv = Some x"
    using udp_mon.reported_evolved [OF assms(1) udp_inv_init none assms(2)] by blast
  obtain env1 a where e1: "e1 = Send env1 a" using s by (cases e1) auto
  have st: "k = env_pid_tgid env1" "dv0 = (1, udp_start_of env1 (udp_ids c env1) a)" "udp_tracked c env1"
    "map_of (depth_map (fold udp_step pre ?s)) k = None"
    using s by (auto simp: e1 split: if_splits)
  obtain d v where dv: "dv = (d, v)" by (cases dv)
  note f = udp_touched_facts [OF m [unfolded st(2) dv]]
  obtain env2 ret where e2: "e2 = Return env2 ret" using r by (cases e2) auto
  have x: "env_pid_tgid env2 = k" "\<not> d > 1" "0 \<le> sint ret" "x = udp_event_of env2 v ret"
    "min_latency_ns c = 0 \<or> min_latency_ns c \<le> env_ktime env2 - start_ts v"
    using r by (auto simp: e2 dv split: if_splits)
  have "0 < unat d" using f udp_nesting_pos [of c k mid "unat 1" "unat d"] by simp
  then have "unat d = 1" using x(2) by (simp add: word_less_nat_alt)
  then have nest: "udp_nesting c k mid 1 = Some 1" using f by simp
  have v: "v = fold (udp_route k) mid (udp_start_of env1 (udp_ids c env1) a)" using f by simp
  have own: "start_ts v = env_ktime env1" "us_tgid v = hi32 (udp_ids c env1)" "us_pid v = lo32 (udp_ids c env1)"
    "us_comm v = env_comm env1"
    unfolding v by (simp_all add: udp_owner)
  have lat: "min_latency_ns c \<le> env_ktime env2 - env_ktime env1" using x(5) own(1) by auto
  have p: "tr = pre @ Send env1 a # mid @ Return env2 ret # post" using t e1 e2 by simp
  show ?thesis
    by (intro exI conjI, rule p) (use st x nest v own lat in \<open>simp_all add: udp_event_of_def\<close>)
qed

definition udp_demo_ctrl :: UdpMonitor_ctrl where
  "udp_demo_ctrl = \<lparr>enable = True, min_latency_ns = 5, target_pid = 7, pid_ns_dev = 1, pid_ns_ino = 4\<rparr>"

definition demo_send :: send_args where
  "demo_send = \<lparr>send_sk = demo_sock 4000 0x3500, msg_name = 0, msg_namelen = 0, name_family = None, name_sin = None,
     name_sin6 = None, send_len = 32, send_start_ok = True\<rparr>"

definition demo_flow :: flow4 where
  "demo_flow = \<lparr>fl4_saddr = 0x0A00000A, fl4_daddr = 0x0800000A, fl4_sport = 0xA00F, fl4_dport = 0x3500\<rparr>"

text \<open>A send with a second send inside it, by the traced thread, while another process sends too.\<close>

definition udp_demo_run :: "udp_firing list" where
  "udp_demo_run =
     [Send (calm_env 0 10 7 8) demo_send, Send (calm_env 1 11 9 9) demo_send, Send (calm_env 0 12 7 8) demo_send,
      Send_skb (calm_env 1 13 7 8) (Some demo_flow) None, Return (calm_env 1 14 7 8) 32,
      Return (calm_env 0 15 9 9) 32, Return (calm_env 1 30 7 8) 32]"

lemma udp_demo_rb:
  "map (\<lambda>x. (ev_tgid x, ev_pid x, ev_latency_ns x, ev_len x, ev_saddr_v4 x, ev_tuple_source x))
     (rb (fold udp_step udp_demo_run (udp_init udp_demo_ctrl 2))) = [(7, 8, 20, 32, 0x0A00000A, UDP_TUPLE_FLOW)]"
  by code_simp

theorem udp_reported_send_witness:
  "\<exists>pre env1 a mid env2 r post. udp_demo_run = pre @ Send env1 a # mid @ Return env2 r # post
    \<and> udp_nesting udp_demo_ctrl (env_pid_tgid env1) mid 1 = Some 1 \<and> 20 = env_ktime env2 - env_ktime env1"
proof -
  let ?s = "fold udp_step udp_demo_run (udp_init udp_demo_ctrl 2)"
  have adm: "admissible udp_shallow udp_step udp_demo_run (udp_init udp_demo_ctrl 2)" by code_simp
  obtain x where x: "rb ?s = [x]" "ev_latency_ns x = 20" using udp_demo_rb by auto
  then have "x \<in> set (rb ?s)" by simp
  from udp_reported_send [OF adm this] show ?thesis using x(2) by metis
qed

text \<open>
  C24: no send is lost uncounted. After any run on possible CPUs in which the kernel evicted no
  context early, the sends begun are those that succeeded, those that failed and those still in flight, whose
  contexts fit in the map; of those that succeeded each is in the ring buffer, filtered for its latency or
  dropped, and each was counted once as having a routed or a fallback address; the panel shows these sums.
\<close>

theorem udp_conservation:
  assumes "admissible udp_regular udp_step tr (udp_init c n)"
    and "udp_print_stats (int n) True (Some (stats_map (fold udp_step tr (udp_init c n)))) = Some p"
  defines "s \<equiv> fold udp_step tr (udp_init c n)"
  shows "attempted (panel_stats p) =
      count (panel_stats p) + failed (panel_stats p) + of_nat (length (start_map s))
    \<and> length (start_map s) \<le> 16384
    \<and> count (panel_stats p) =
      of_nat (length (rb s)) + filtered_latency (panel_stats p) + ringbuf_dropped (panel_stats p)
    \<and> count (panel_stats p) = flow_tuple (panel_stats p) + fallback_tuple (panel_stats p)
    \<and> count (panel_stats p) = sum_list (map count (stats_map s))"
proof -
  have inv: "udp_inv2 c n s"
    using udp_cons.run_inv [OF assms(1) udp_inv2_init] by (simp add: s_def)
  let ?m = "foldl udp_merge udp_zero (stats_map s)"
  have p: "panel_stats p = ?m"
    using assms(2) inv by (auto simp: udp_print_stats_def s_def udp_inv2_def udp_inv_def Let_def split: if_splits)
  have "(udp_q1 s, udp_q2 s) = (0, 0)"
    using udp_cons.run_quantity [OF assms(1) udp_inv2_init]
    by (simp add: s_def udp_q1_def udp_q2_def udp_init_def udp_flow_def udp_out_def udp_zero_def sum_list_replicate)
  then have q: "sum_list (map attempted (stats_map s)) =
      sum_list (map count (stats_map s)) + sum_list (map failed (stats_map s)) + of_nat (length (start_map s))"
    "sum_list (map count (stats_map s)) =
      of_nat (length (rb s)) + sum_list (map filtered_latency (stats_map s)) + sum_list (map ringbuf_dropped (stats_map s))"
    by (simp_all add: udp_q1_def udp_q2_def udp_flow_def [abs_def] udp_out_def [abs_def] sum_list_map_diff
        sum_list_addf algebra_simps)
  have "\<forall>v \<in> set (stats_map (udp_init c n)). udp_bal v = 0" by (simp add: udp_init_def udp_bal_def udp_zero_def)
  from udp_tuples.run_bal_zero [OF assms(1) udp_inv_init this] have "\<forall>v \<in> set (stats_map s). udp_bal v = 0"
    unfolding s_def by blast
  then have "map count (stats_map s) = map (\<lambda>v. flow_tuple v + fallback_tuple v) (stats_map s)"
    by (simp add: udp_bal_def algebra_simps)
  from arg_cong [OF this, of sum_list] have t: "sum_list (map count (stats_map s)) =
      sum_list (map flow_tuple (stats_map s)) + sum_list (map fallback_tuple (stats_map s))"
    by (simp only: sum_list_addf)
  have "length (start_map s) \<le> 16384"
    using inv by (simp add: udp_inv2_def udp_inv_def map_wf_def UDP_MAP_MAX_def)
  then show ?thesis unfolding p using q t by (simp add: udp_rep.report_counter)
qed

theorem udp_conservation_witness:
  "\<exists>p. udp_print_stats (int 2) True (Some (stats_map (fold udp_step udp_demo_run (udp_init udp_demo_ctrl 2)))) = Some p
    \<and> count (panel_stats p) =
      of_nat (length (rb (fold udp_step udp_demo_run (udp_init udp_demo_ctrl 2)))) + filtered_latency (panel_stats p)
        + ringbuf_dropped (panel_stats p)"
proof -
  let ?s = "fold udp_step udp_demo_run (udp_init udp_demo_ctrl 2)"
  have a: "admissible udp_regular udp_step udp_demo_run (udp_init udp_demo_ctrl 2)" by code_simp
  have "udp_print_stats (int 2) True (Some (stats_map ?s)) \<noteq> None" by code_simp
  then obtain p where p: "udp_print_stats (int 2) True (Some (stats_map ?s)) = Some p" by blast
  from udp_conservation [OF a p] show ?thesis using p by blast
qed

text \<open>
  C40: \<open>lookup_missed\<close> does not mean that an entry probe was lost. A send of a process that is not
  traced is filtered at its entry, and counted as missed when it returns; nothing else changes.
\<close>

theorem udp_filtered_missed:
  assumes "ctrl_map s = Some c" and "enable c" and "\<not> udp_tracked c env1"
    and "env_pid_tgid env2 = env_pid_tgid env1" and "map_of (depth_map s) (env_pid_tgid env1) = None"
  shows "finish_udp_send env2 r (record_udp_send env1 a s) =
    udp_count env2 (\<lambda>v. v\<lparr>lookup_missed := lookup_missed v + 1\<rparr>)
      (udp_count env1 (\<lambda>v. v\<lparr>filtered_pid := filtered_pid v + 1\<rparr>) s)"
  using assms by (simp add: udp_send_cases finish_udp_send_def udp_miss_def udp_enabled_def)

theorem udp_filtered_missed_witness:
  "map (\<lambda>v. (filtered_pid v, lookup_missed v)) (stats_map (finish_udp_send (calm_env 1 12 9 9) 32
     (record_udp_send (calm_env 0 11 9 9) demo_send (udp_init udp_demo_ctrl 2)))) = [(1, 0), (0, 1)]"
proof -
  let ?s = "udp_init udp_demo_ctrl 2"
  have "ctrl_map ?s = Some udp_demo_ctrl" "enable udp_demo_ctrl" "\<not> udp_tracked udp_demo_ctrl (calm_env 0 11 9 9)"
    "env_pid_tgid (calm_env 1 12 9 9) = env_pid_tgid (calm_env 0 11 9 9)"
    "map_of (depth_map ?s) (env_pid_tgid (calm_env 0 11 9 9)) = None"
    by code_simp+
  from udp_filtered_missed [OF this, of 32 demo_send] show ?thesis by (simp only:) code_simp
qed

end
