(* ===== verification/Trigger.thy ===== *)
theory Trigger
  imports Printf "HOL-Library.Multiset"
begin

section \<open>The load generator\<close>

text \<open>
  \<^verbatim>\<open>tools/trigger.c\<close>, the program that produces the events the modules observe: one function per command and
  the dispatch of \<^verbatim>\<open>main\<close>. The system calls are arguments (\<open>trig_env\<close> has their results); a function gives its
  return value with the calls it made, and \<open>None\<close> when it waits for ever.
\<close>

text \<open>
  \<open>Get\<close> is a call that returns a descriptor (negative on failure), \<open>Use\<close> a call on one, with its result; \<open>Close\<close> also
  stands for \<^verbatim>\<open>mq_close\<close>. \<open>Create\<close> and \<open>Remove\<close> are about a name that outlives the process: a
  message queue or a file.
\<close>

datatype trig_call =
    Get string int
  | Use string int int
  | Close int
  | Create string
  | Remove string
  | Sleep nat
  | Spawn nat int
  | Join nat
  | Mutex bool
  | Plain string
  | Perror string
  | Usage
  | Say string

record trig_env =
  r_get :: int
  r_connect :: int
  r_send :: int
  r_recv :: "int option"
  r_seek :: int
  r_read :: int
  r_spawn :: "nat \<Rightarrow> int"
  r_slab :: "nat \<Rightarrow> (int \<times> int) option \<times> (int \<times> int) option \<times> int"

definition say :: "string \<Rightarrow> trig_call" where
  "say t = Say (t @ [CHR 0x0A])"

type_synonym trig_result = "(int \<times> trig_call list) option"

definition do_tcp :: "trig_env \<Rightarrow> trig_result" where
  "do_tcp e = (let fd = r_get e in
     if fd < 0 then Some (1, [Get ''socket'' fd, Perror ''socket''])
     else Some (0, [Get ''socket'' fd, say ''[tcp] connecting to 127.0.0.1:19999 ...'', Use ''connect'' fd (r_connect e),
              Close fd, say ''[tcp] done (SYN sent, HANDSHAKE event triggered)'']))"

definition do_udp :: "trig_env \<Rightarrow> trig_result" where
  "do_udp e = (let fd = r_get e in
     if fd < 0 then Some (1, [Get ''socket'' fd, Perror ''socket''])
     else Some (0, [Get ''socket'' fd, Use ''sendto'' fd (r_send e), Close fd, say ''[udp] sent 5 bytes to 127.0.0.1:9'']))"

definition do_udp_connect :: "trig_env \<Rightarrow> trig_result" where
  "do_udp_connect e = (let fd = r_get e in
     if fd < 0 then Some (1, [Get ''socket'' fd, Perror ''socket''])
     else if r_connect e < 0
     then Some (1, [Get ''socket'' fd, Use ''connect'' fd (r_connect e), Perror ''connect UDP'', Close fd])
     else if r_send e < 0
     then Some (1, [Get ''socket'' fd, Use ''connect'' fd (r_connect e), Use ''send'' fd (r_send e), Perror ''send UDP'',
                    Close fd])
     else Some (0, [Get ''socket'' fd, Use ''connect'' fd (r_connect e), Use ''send'' fd (r_send e), Close fd,
                    say ''[udpconn] sent 15 bytes to connected 127.0.0.1:9'']))"

definition do_udp6 :: "trig_env \<Rightarrow> trig_result" where
  "do_udp6 e = (let fd = r_get e in
     if fd < 0 then Some (1, [Get ''socket'' fd, Perror ''socket IPv6''])
     else if r_send e < 0
     then Some (1, [Get ''socket'' fd, Use ''sendto'' fd (r_send e), Perror ''sendto IPv6'', Close fd])
     else Some (0, [Get ''socket'' fd, Use ''sendto'' fd (r_send e), Close fd, say ''[udp6] sent 8 bytes to [::1]:9'']))"

text \<open>The message queue commands; a receive that never returns has no result.\<close>

definition receives :: "int \<Rightarrow> int \<Rightarrow> trig_call list" where
  "receives mq r = Use ''mq_receive'' mq r # (if r < 0 then [Perror ''mq_receive''] else [])"

definition do_mq :: "trig_env \<Rightarrow> trig_result" where
  "do_mq e = (let mq = r_get e; name = ''/ebpf_test_mq'' in
     if mq < 0 then Some (1, [Get ''mq_open'' mq, Perror ''mq_open''])
     else if r_send e < 0
     then Some (1, [Get ''mq_open'' mq, Create name, Use ''mq_send'' mq (r_send e), Perror ''mq_send'', Close mq])
     else case r_recv e of None \<Rightarrow> None
     | Some r \<Rightarrow> Some (0, [Get ''mq_open'' mq, Create name, Use ''mq_send'' mq (r_send e)] @ receives mq r
                        @ [Close mq, Remove name, say ''[mq] send+receive done'']))"

definition do_mq_delay :: "trig_env \<Rightarrow> trig_result" where
  "do_mq_delay e = (let mq = r_get e; name = ''/ebpf_test_mq_delay'' in
     if mq < 0 then Some (1, [Remove name, Get ''mq_open'' mq, Perror ''mq_open''])
     else if r_send e < 0
     then Some (1, [Remove name, Get ''mq_open'' mq, Create name, Use ''mq_send'' mq (r_send e), Perror ''mq_send'',
                    Close mq, Remove name])
     else case r_recv e of None \<Rightarrow> None
     | Some r \<Rightarrow> Some (0, [Remove name, Get ''mq_open'' mq, Create name, Use ''mq_send'' mq (r_send e), Sleep 50000]
                        @ receives mq r @ [Close mq, Remove name, say ''[mqdelay] message stayed queued for about 50ms'']))"

text \<open>
  The receiving thread of \<open>do_mq_direct\<close> sets \<open>args.error\<close> when its call fails, and so does the main thread when the
  send fails; \<^verbatim>\<open>pthread_join\<close> waits for the receiver.
\<close>

definition do_mq_direct :: "trig_env \<Rightarrow> trig_result" where
  "do_mq_direct e = (let mq = r_get e; name = ''/ebpf_test_mq_direct''; rc = r_spawn e 0 in
     if mq < 0 then Some (1, [Remove name, Get ''mq_open'' mq, Perror ''mq_open''])
     else if rc \<noteq> 0
     then Some (1, [Remove name, Get ''mq_open'' mq, Create name, Spawn 0 rc, Perror ''pthread_create'', Close mq, Remove name])
     else case r_recv e of None \<Rightarrow> None
     | Some r \<Rightarrow> Some (if r < 0 \<or> r_send e < 0 then 1 else 0,
         [Remove name, Get ''mq_open'' mq, Create name, Spawn 0 rc, Sleep 20000, Use ''mq_send'' mq (r_send e)]
         @ (if r_send e < 0 then [Perror ''mq_send''] else []) @ receives mq r
         @ [Join 0, Close mq, Remove name, say ''[mqdirect] receiver waited before send, direct delivery done'']))"

text \<open>
  The workers of \<open>do_mutex\<close> wait for the mutex, one after the other; a thread that could not be
  created does nothing, and its result is ignored.
\<close>

definition mutex_worker :: "trig_call list" where
  "mutex_worker = [Mutex True, Sleep 10000, Mutex False]"

definition do_mutex :: "trig_env \<Rightarrow> trig_result" where
  "do_mutex e = Some (0, [Mutex True, Spawn 1 (r_spawn e 1), Spawn 2 (r_spawn e 2), Sleep 5000, Mutex False]
     @ (if r_spawn e 1 = 0 then mutex_worker else []) @ (if r_spawn e 2 = 0 then mutex_worker else [])
     @ [Join 1, Join 2, say ''[mutex] 2 threads contended, done''])"

definition do_fs :: "trig_env \<Rightarrow> trig_result" where
  "do_fs e = (let fd = r_get e; path = ''/tmp/ebpf_trigger_test'' in
     if fd < 0 then Some (1, [Get ''open'' fd, Perror ''open''])
     else Some (0, [Get ''open'' fd, Create path, Use ''write'' fd (r_send e), Use ''lseek'' fd (r_seek e),
       Use ''read'' fd (r_read e), Close fd, Remove path, say (''[fs] open/write/read/unlink on '' @ path)]))"

definition do_syscall :: "trig_env \<Rightarrow> trig_result" where
  "do_syscall e = Some (0, replicate 100 (Plain ''getpid'') @ [say ''[syscall] getpid() x100''])"

definition do_sched :: "trig_env \<Rightarrow> trig_result" where
  "do_sched e = Some (0, replicate 1000 (Plain ''sched_yield'') @ [say ''[sched] sched_yield() x1000''])"

text \<open>One round of \<open>do_slab\<close>: how many of its three calls failed, and its calls.\<close>

definition slab_pair :: "string \<Rightarrow> (int \<times> int) option \<Rightarrow> nat \<times> trig_call list" where
  "slab_pair call p = (case p of Some (a, b) \<Rightarrow> (0, [Get call a, Get call b, Close a, Close b])
     | None \<Rightarrow> (1, [Get call (- 1)]))"

definition slab_round :: "(int \<times> int) option \<times> (int \<times> int) option \<times> int \<Rightarrow> nat \<times> trig_call list" where
  "slab_round r = (case r of (sockets, pipes, fd) \<Rightarrow>
     (let (e1, l1) = slab_pair ''socketpair'' sockets; (e2, l2) = slab_pair ''pipe2'' pipes;
          (e3, l3) = (if fd \<ge> 0 then (0, [Get ''open'' fd, Close fd]) else (1, [Get ''open'' fd]))
      in (e1 + e2 + e3, l1 @ l2 @ l3)))"

definition SLAB_ROUNDS :: nat where
  "SLAB_ROUNDS = 2000"

definition do_slab :: "trig_env \<Rightarrow> trig_result" where
  "do_slab e = (let rounds = map (\<lambda>i. slab_round (r_slab e i)) [0..<SLAB_ROUNDS]; errors = sum_list (map fst rounds) in
     Some (if errors \<noteq> 0 then 1 else 0, concat (map snd rounds) @ [say (''[slab] socketpair/pipe/open + close x2000, errors='' @ decimal errors)]))"

text \<open>The commands by name, and \<^verbatim>\<open>main\<close>.\<close>

datatype trig_cmd = Tcp | Udp | Udpconn | Udp6 | Mq | Mqdelay | Mqdirect | Mutex_cmd | Fs | Syscall_cmd | Sched | Slab

primrec do_cmd :: "trig_cmd \<Rightarrow> trig_env \<Rightarrow> trig_result" where
  "do_cmd Tcp = do_tcp"
| "do_cmd Udp = do_udp"
| "do_cmd Udpconn = do_udp_connect"
| "do_cmd Udp6 = do_udp6"
| "do_cmd Mq = do_mq"
| "do_cmd Mqdelay = do_mq_delay"
| "do_cmd Mqdirect = do_mq_direct"
| "do_cmd Mutex_cmd = do_mutex"
| "do_cmd Fs = do_fs"
| "do_cmd Syscall_cmd = do_syscall"
| "do_cmd Sched = do_sched"
| "do_cmd Slab = do_slab"

definition cmd_of :: "string \<Rightarrow> trig_cmd option" where
  "cmd_of s = map_of
     [(''tcp'', Tcp), (''udp'', Udp), (''udpconn'', Udpconn), (''udp6'', Udp6), (''mq'', Mq), (''mqdelay'', Mqdelay),
      (''mqdirect'', Mqdirect), (''mutex'', Mutex_cmd), (''fs'', Fs), (''syscall'', Syscall_cmd), (''sched'', Sched),
      (''slab'', Slab)] s"

definition ALL_CMDS :: "trig_cmd list" where
  "ALL_CMDS = [Tcp, Udp, Udpconn, Udp6, Mq, Mutex_cmd, Fs, Syscall_cmd, Sched, Slab]"

text \<open>
  \<open>all\<close> combines the results with the operator \<open>|\<close>, whose operands C evaluates in any order: \<open>order\<close> is the one taken.
\<close>

fun run_all :: "(trig_cmd \<Rightarrow> trig_env) \<Rightarrow> trig_cmd list \<Rightarrow> trig_result" where
  "run_all env [] = Some (0, [])"
| "run_all env (c # cs) = (case do_cmd c (env c) of None \<Rightarrow> None
     | Some (r, log) \<Rightarrow> (case run_all env cs of None \<Rightarrow> None | Some (r', log') \<Rightarrow> Some (r OR r', log @ log')))"

definition trigger_main :: "trig_cmd list \<Rightarrow> (trig_cmd \<Rightarrow> trig_env) \<Rightarrow> string list \<Rightarrow> trig_result" where
  "trigger_main order env args =
     (case args of [] \<Rightarrow> Some (1, [Usage])
      | cmd # _ \<Rightarrow>
        (case cmd_of cmd of Some c \<Rightarrow> do_cmd c (env c)
         | None \<Rightarrow> if cmd = ''all'' then run_all env order else Some (1, [Usage])))"

section \<open>What a command promises\<close>

text \<open>
  The descriptors open after a sequence of calls, \<open>None\<close> when one is used or closed that is not open; and
  the names that are left behind.
\<close>

fun open_fds :: "int multiset \<Rightarrow> trig_call list \<Rightarrow> int multiset option" where
  "open_fds M [] = Some M"
| "open_fds M (Get c fd # l) = open_fds (if fd < 0 then M else add_mset fd M) l"
| "open_fds M (Use c fd r # l) = (if fd \<in># M then open_fds M l else None)"
| "open_fds M (Close fd # l) = (if fd \<in># M then open_fds (M - {#fd#}) l else None)"
| "open_fds M (_ # l) = open_fds M l"

fun left_names :: "string set \<Rightarrow> trig_call list \<Rightarrow> string set" where
  "left_names N [] = N"
| "left_names N (Create n # l) = left_names (insert n N) l"
| "left_names N (Remove n # l) = left_names (N - {n}) l"
| "left_names N (_ # l) = left_names N l"

text \<open>The commands a command line runs.\<close>

definition cmds_run :: "trig_cmd list \<Rightarrow> string list \<Rightarrow> trig_cmd list" where
  "cmds_run order args =
     (case args of [] \<Rightarrow> []
      | cmd # _ \<Rightarrow> (case cmd_of cmd of Some c \<Rightarrow> [c] | None \<Rightarrow> if cmd = ''all'' then order else []))"

text \<open>A successful \<^verbatim>\<open>socketpair\<close> or \<^verbatim>\<open>pipe2\<close> stores two descriptors, which are not negative.\<close>

definition pair_ok :: "(int \<times> int) option \<Rightarrow> bool" where
  "pair_ok p = (case p of None \<Rightarrow> True | Some (a, b) \<Rightarrow> 0 \<le> a \<and> 0 \<le> b)"

definition env_ok :: "trig_env \<Rightarrow> bool" where
  "env_ok e \<longleftrightarrow> (\<forall>i < SLAB_ROUNDS. case r_slab e i of (p, q, fd) \<Rightarrow> pair_ok p \<and> pair_ok q)"

section \<open>Lemmas\<close>

lemma open_fds_append:
  "open_fds M (l @ l') = (case open_fds M l of None \<Rightarrow> None | Some M' \<Rightarrow> open_fds M' l')"
  by (induction M l rule: open_fds.induct) auto

lemma left_names_append: "left_names N (l @ l') = left_names (left_names N l) l'"
  by (induction N l rule: left_names.induct) auto

lemma plain_calls [simp]:
  "open_fds M (replicate n (Plain t) @ l) = open_fds M l" "left_names N (replicate n (Plain t) @ l) = left_names N l"
  by (induction n) simp_all

lemma say_calls [simp]: "open_fds M (say t # l) = open_fds M l" "left_names N (say t # l) = left_names N l"
  by (simp_all add: say_def)

lemma receives_calls [simp]:
  "mq \<in># M \<Longrightarrow> open_fds M (receives mq r @ l) = open_fds M l" "left_names N (receives mq r @ l) = left_names N l"
  by (simp_all add: receives_def)

lemma slab_pair_fds: "pair_ok p \<Longrightarrow> open_fds M (snd (slab_pair c p)) = Some M \<and> left_names N (snd (slab_pair c p)) = N"
  by (auto simp: slab_pair_def pair_ok_def split: option.split)

lemma slab_round_fds:
  assumes "pair_ok p" and "pair_ok q"
  shows "open_fds M (snd (slab_round (p, q, fd))) = Some M \<and> left_names N (snd (slab_round (p, q, fd))) = N"
  using slab_pair_fds [OF assms(1)] slab_pair_fds [OF assms(2)]
  by (simp add: slab_round_def case_prod_beta open_fds_append left_names_append)

lemma slab_rounds_fds:
  assumes "list_all (\<lambda>r. case r of (p, q, fd) \<Rightarrow> pair_ok p \<and> pair_ok q) rs"
  shows "open_fds M (concat (map (\<lambda>r. snd (slab_round r)) rs)) = Some M
    \<and> left_names N (concat (map (\<lambda>r. snd (slab_round r)) rs)) = N"
  using assms
proof (induction rs)
  case (Cons r rs)
  obtain p q fd where r: "r = (p, q, fd)" by (cases r)
  then have "pair_ok p" "pair_ok q" using Cons.prems by simp_all
  from slab_round_fds [OF this, of M fd N] show ?case
    using Cons by (simp add: r open_fds_append left_names_append)
qed simp

lemma do_slab_fds:
  assumes "env_ok e" and "do_slab e = Some (r, log)"
  shows "open_fds M log = Some M \<and> left_names N log = N"
proof -
  have "list_all (\<lambda>r. case r of (p, q, fd) \<Rightarrow> pair_ok p \<and> pair_ok q) (map (r_slab e) [0..<SLAB_ROUNDS])"
    using assms(1) by (simp add: env_ok_def list_all_length)
  note rounds = slab_rounds_fds [OF this, of M N]
  obtain x where "log = concat (map (\<lambda>r. snd (slab_round r)) (map (r_slab e) [0..<SLAB_ROUNDS])) @ [say x]"
    using assms(2) unfolding do_slab_def Let_def map_map o_def by blast
  then show ?thesis using rounds by (simp only: open_fds_append left_names_append) simp
qed

definition mq_fails :: "trig_env \<Rightarrow> bool" where
  "mq_fails e \<longleftrightarrow> 0 \<le> r_get e \<and> r_send e < 0"

lemmas do_defs = do_tcp_def do_udp_def do_udp_connect_def do_udp6_def do_mq_def do_mq_delay_def do_mq_direct_def
  do_mutex_def mutex_worker_def do_fs_def do_syscall_def do_sched_def

text \<open>Every command closes what it opened, and leaves no new name but for \<open>mq\<close> when its send fails.\<close>

lemma do_cmd_fds:
  assumes "env_ok e" and "do_cmd c e = Some (r, log)"
  shows "open_fds M log = Some M"
proof (cases c)
  case Slab
  then show ?thesis using assms do_slab_fds by simp
qed (use assms in \<open>auto simp: do_defs Let_def split: if_splits option.splits\<close>)

lemma do_cmd_names:
  assumes "env_ok e" and "do_cmd c e = Some (r, log)"
    and "N \<subseteq> (if mq_fails e' then {''/ebpf_test_mq''} else {})" and "c = Mq \<Longrightarrow> e = e'"
  shows "left_names N log = (if c = Mq \<and> mq_fails e' then {''/ebpf_test_mq''} else N)"
proof (cases c)
  case Slab
  then show ?thesis using assms do_slab_fds by simp
qed (use assms in \<open>auto simp: do_defs mq_fails_def Let_def split: if_splits option.splits\<close>)

lemma run_all_effects:
  assumes "\<And>c. env_ok (env c)" and "run_all env cs = Some (r, log)"
    and "N \<subseteq> (if mq_fails (env Mq) then {''/ebpf_test_mq''} else {})"
  shows "open_fds M log = Some M
    \<and> left_names N log = (if Mq \<in> set cs \<and> mq_fails (env Mq) then {''/ebpf_test_mq''} else N)"
  using assms(2,3)
proof (induction cs arbitrary: r log N)
  case (Cons c cs)
  then obtain r1 l1 r2 l2 where c: "do_cmd c (env c) = Some (r1, l1)" and cs: "run_all env cs = Some (r2, l2)"
    and log: "log = l1 @ l2"
    by (auto split: option.splits)
  have n: "left_names N l1 = (if c = Mq \<and> mq_fails (env Mq) then {''/ebpf_test_mq''} else N)"
    using do_cmd_names [OF assms(1) c Cons.prems(2)] by simp
  have sub: "left_names N l1 \<subseteq> (if mq_fails (env Mq) then {''/ebpf_test_mq''} else {})"
    using Cons.prems(2) unfolding n by auto
  show ?case
    using Cons.IH [OF cs sub] do_cmd_fds [OF assms(1) c, of M] n
    by (auto simp: log open_fds_append left_names_append)
qed simp

lemma trigger_main_run:
  assumes "trigger_main order env args = Some (r, log)"
  shows "cmds_run order args = [] \<and> log = [Usage] \<and> r = 1 \<or> run_all env (cmds_run order args) = Some (r, log)"
  using assms
  by (auto simp: trigger_main_def cmds_run_def split: list.splits option.splits if_splits)

lemma do_cmd_status: "do_cmd c e = Some (r, log) \<Longrightarrow> r = 0 \<or> r = 1"
proof (cases c)
  case Slab
  assume "do_cmd c e = Some (r, log)"
  then show ?thesis unfolding Slab do_cmd.simps do_slab_def Let_def by (auto split: if_splits simp del: upt_rec_numeral)
qed (auto simp: do_defs Let_def split: if_splits option.splits)

definition succeeds :: "(trig_cmd \<Rightarrow> trig_env) \<Rightarrow> trig_cmd \<Rightarrow> bool" where
  "succeeds env c \<longleftrightarrow> (\<exists>log. do_cmd c (env c) = Some (0, log))"

lemma run_all_status:
  "run_all env cs = Some (r, log) \<Longrightarrow> (r = 0 \<or> r = 1) \<and> (r = 0 \<longleftrightarrow> (\<forall>c \<in> set cs. succeeds env c))"
proof (induction cs arbitrary: r log)
  case (Cons c cs)
  then obtain r1 l1 r2 l2 where c: "do_cmd c (env c) = Some (r1, l1)" and cs: "run_all env cs = Some (r2, l2)"
    and r: "r = r1 OR r2"
    by (auto split: option.splits)
  show ?case using Cons.IH [OF cs] do_cmd_status [OF c] c by (auto simp: r succeeds_def)
qed simp

section \<open>Properties\<close>

text \<open>
  C36: whatever the system calls return, a run of the generator that ends has closed every descriptor it
  got, exactly once and after its last use, and has made the unlink call for every name it created, with one
  exception: the command \<open>mq\<close> does not when the send fails, where the others do.
\<close>

theorem trigger_releases:
  assumes "trigger_main order env args = Some (r, log)" and "\<And>c. env_ok (env c)"
  shows "open_fds {#} log = Some {#}
    \<and> left_names {} log =
      (if Mq \<in> set (cmds_run order args) \<and> 0 \<le> r_get (env Mq) \<and> r_send (env Mq) < 0 then {''/ebpf_test_mq''} else {})"
proof (cases "run_all env (cmds_run order args) = Some (r, log)")
  case True
  from run_all_effects [OF assms(2) True, of "{}" "{#}"] show ?thesis by (simp add: mq_fails_def)
next
  case False
  then have "cmds_run order args = []" "log = [Usage]" using trigger_main_run [OF assms(1)] by blast+
  then show ?thesis by simp
qed

definition calm_trig :: "int \<Rightarrow> trig_env" where
  "calm_trig send = \<lparr>r_get = 3, r_connect = 0, r_send = send, r_recv = Some 18, r_seek = 0, r_read = 21, r_spawn = \<lambda>_. 0,
     r_slab = \<lambda>_. (Some (4, 5), Some (6, 7), 8)\<rparr>"

lemma calm_trig_ok: "env_ok (calm_trig send)"
  by (simp add: env_ok_def calm_trig_def pair_ok_def)

theorem trigger_releases_witness:
  "\<exists>log. trigger_main ALL_CMDS (\<lambda>_. calm_trig (- 1)) [''mq''] = Some (1, log) \<and> open_fds {#} log = Some {#}
    \<and> left_names {} log = {''/ebpf_test_mq''}"
proof -
  have cmd: "cmd_of ''mq'' = Some Mq" by (simp add: cmd_of_def)
  then obtain log where t: "trigger_main ALL_CMDS (\<lambda>_. calm_trig (- 1)) [''mq''] = Some (1, log)"
    by (simp add: trigger_main_def do_mq_def calm_trig_def)
  from trigger_releases [OF t calm_trig_ok] show ?thesis using t by (simp add: cmds_run_def cmd calm_trig_def)
qed

text \<open>
  The exit status is 0 exactly when a command was given and every command run returned 0, and 1
  otherwise; for \<open>all\<close> it does not depend on the order in which the compiler evaluates the operands.
  \<open>all\<close> runs every command but \<open>mqdelay\<close> and \<open>mqdirect\<close>.
\<close>

lemma trigger_status:
  assumes "mset order = mset ALL_CMDS" and "trigger_main order env args = Some (r, log)"
  shows "(r = 0 \<or> r = 1)
    \<and> (r = 0 \<longleftrightarrow> cmds_run order args \<noteq> [] \<and> (\<forall>c \<in> set (cmds_run order args). succeeds env c))
    \<and> (\<forall>order' r' log'. mset order' = mset ALL_CMDS \<longrightarrow> trigger_main order' env args = Some (r', log') \<longrightarrow> r' = r)
    \<and> set (cmds_run order [''all'']) = - {Mqdelay, Mqdirect}"
proof -
  have status: "(q = 0 \<or> q = 1)
      \<and> (q = 0 \<longleftrightarrow> cmds_run ord args \<noteq> [] \<and> (\<forall>c \<in> set (cmds_run ord args). succeeds env c))"
    if m: "mset ord = mset ALL_CMDS" and t: "trigger_main ord env args = Some (q, l)" for ord q l
  proof (cases "cmds_run ord args = []")
    case True
    have "ord \<noteq> []" using m by (auto simp: ALL_CMDS_def)
    then have "trigger_main ord env args = Some (1, [Usage])"
      using True by (auto simp: trigger_main_def cmds_run_def split: list.splits option.splits if_splits)
    then show ?thesis using t True by simp
  next
    case False
    then show ?thesis using trigger_main_run [OF t] run_all_status [of env "cmds_run ord args" q l] by auto
  qed
  have same: "set (cmds_run ord args) = set (cmds_run order args)" if "mset ord = mset ALL_CMDS" for ord
    using mset_eq_setD [of ord order] that assms(1) by (auto simp: cmds_run_def split: list.splits option.splits)
  have "x \<in> set ALL_CMDS \<longleftrightarrow> x \<notin> {Mqdelay, Mqdirect}" for x by (cases x) (simp_all add: ALL_CMDS_def)
  then have "set order = - {Mqdelay, Mqdirect}" using mset_eq_setD [OF assms(1)] by blast
  moreover have "cmd_of ''all'' = None" by (simp add: cmd_of_def)
  ultimately have all: "set (cmds_run order [''all'']) = - {Mqdelay, Mqdirect}" by (simp add: cmds_run_def)
  have "r' = r" if o: "mset ord = mset ALL_CMDS" "trigger_main ord env args = Some (r', l)" for ord r' l
    using status [OF o] status [OF assms] same [OF o(1)] by (metis set_empty)
  then show ?thesis using status [OF assms] all by blast
qed

end
