(* ===== verification/SharedStats.thy ===== *)
theory SharedStats
  imports BlockIo Syscall Preempt
begin

section \<open>The panels of the modules with a shared record\<close>

text \<open>
  What the record of statistics of \<^verbatim>\<open>fs/block_io\<close>, \<^verbatim>\<open>syscall\<close> and \<^verbatim>\<open>sched/preempt\<close> has when probes on several
  CPUs update it at the same time: bounds that hold under every interleaving, and an interleaving that loses an event.
\<close>

lemma all_idle_done [simp]: "all_idle []" "all_idle (u # us) \<longleftrightarrow> snd u = [] \<and> all_idle us"
  by (simp_all add: all_idle_def)

lemmas race_evals = block_accesses_def block_inc_def block_rest_def block_zero_def
    syscall_accesses_def syscall_inc_def syscall_rest_def syscall_zero_def

text \<open>A turn of one of two CPUs.\<close>

lemma two_turns:
  "run_turns (0 # is) ([(r, a # p), v], c) = (case do_access a (r, p) c of (u, c') \<Rightarrow> run_turns is ([u, v], c'))"
  "run_turns (Suc 0 # is) ([v, (r, a # p)], c) = (case do_access a (r, p) c of (u, c') \<Rightarrow> run_turns is ([v, u], c'))"
  by simp_all

lemma turns_reach:
  "(case run_turns is s of (us, st) \<Rightarrow> P us st) \<Longrightarrow> \<exists>us st. stat_reaches s (us, st) \<and> P us st"
  using run_turns_reaches [of s "is"] by (cases "run_turns is s") auto

definition lost_turns :: "nat list" where
  "lost_turns = [0, 1, 1, 0, 0, 1, 1, 0, 0, 1, 1, 0, 1, 0]"

definition torn_turns :: "nat list" where
  "torn_turns = [0, 0, 1, 1, 0, 0, 1, 1, 0, 1, 1, 0, 0, 1, 1, 1, 1, 0, 0, 0]"

lemma lost_update:
  assumes "0 < BlockIo.ev_latency_ns e" and "0 < BlockIo.ev_latency_ns f"
  shows "case run_turns lost_turns ([(0, block_accesses e), (0, block_accesses f)], block_zero) of (us, st) \<Rightarrow>
    all_idle us \<and> complete_cnt st = 1 \<and> total_lat_ns st = BlockIo.ev_latency_ns e
      \<and> max_lat_ns st = BlockIo.ev_latency_ns e"
  using assms by (simp add: lost_turns_def race_evals two_turns del: run_turns.simps(2))

lemma torn_maximum:
  assumes "0 < Syscall.ev_delay_ns g" and "0 < Syscall.ev_delay_ns h"
  shows "case run_turns torn_turns ([(0, syscall_accesses g), (0, syscall_accesses h)], syscall_zero) of (us, st) \<Rightarrow>
    all_idle us \<and> Syscall.max_ns st = Syscall.ev_delay_ns h \<and> Syscall.max_pid st = Syscall.ev_pid g
      \<and> max_syscall_id st = Syscall.ev_syscall_id g"
  using assms by (simp add: torn_turns_def race_evals two_turns del: run_turns.simps(2))

section \<open>Properties\<close>

text \<open>
  C25: however the accesses of the CPUs interleave, once all updates are made the number shown is at least
  one and at most the number of events, and the maximum shown is the latency of one of them. An update nobody
  interrupts is exactly the update of the sequential model.
\<close>

theorem shared_stats_bounds:
  assumes "stat_reaches (map (\<lambda>e. (0, block_accesses e)) es, block_zero) (us, st)" and "all_idle us"
    and "length es < 2 ^ 64"
    and "stat_reaches (map (\<lambda>e. (0, syscall_accesses e)) es', syscall_zero) (us', st')" and "all_idle us'"
    and "length es' < 2 ^ 64"
    and "stat_reaches (map (\<lambda>e. (0, preempt_accesses e)) es'', preempt_zero) (us'', st'')" and "all_idle us''"
    and "length es'' < 2 ^ 64"
  shows "unat (complete_cnt st) \<le> length es \<and> (es \<noteq> [] \<longrightarrow> 0 < unat (complete_cnt st))
      \<and> (es \<noteq> [] \<longrightarrow> max_lat_ns st \<in> BlockIo.ev_latency_ns ` set es)
    \<and> unat (Syscall.count st') \<le> length es' \<and> (es' \<noteq> [] \<longrightarrow> 0 < unat (Syscall.count st'))
      \<and> (es' \<noteq> [] \<longrightarrow> Syscall.max_ns st' \<in> Syscall.ev_delay_ns ` set es')
    \<and> unat (Preempt.count st'') \<le> length es'' \<and> (es'' \<noteq> [] \<longrightarrow> 0 < unat (Preempt.count st''))
      \<and> (es'' \<noteq> [] \<longrightarrow> Preempt.max_ns st'' \<in> Preempt.ev_delay_ns ` set es'')
    \<and> run_alone r (block_accesses e) b = block_stats_upd e b
    \<and> run_alone r (syscall_accesses f) y = syscall_stats_upd f y
    \<and> run_alone r (preempt_accesses g) p = preempt_stats_upd g p"
  using block_race.race_bounds [OF assms(1) HOL.refl _ assms(3,2)] block_max.race_max [OF assms(1) HOL.refl _ assms(2)]
    syscall_race.race_bounds [OF assms(4) HOL.refl _ assms(6,5)] syscall_max.race_max [OF assms(4) HOL.refl _ assms(5)]
    preempt_race.race_bounds [OF assms(7) HOL.refl _ assms(9,8)] preempt_max.race_max [OF assms(7) HOL.refl _ assms(8)]
  by (simp add: block_zero_def syscall_zero_def preempt_zero_def block_alone syscall_alone preempt_alone)

theorem shared_stats_bounds_witness:
  "\<exists>us st. stat_reaches (map (\<lambda>e. (0, block_accesses e)) [demo_io 5, demo_io 7], block_zero) (us, st)
     \<and> unat (complete_cnt st) \<le> 2 \<and> max_lat_ns st \<in> {5, 7}"
proof -
  let ?s = "(map (\<lambda>e. (0, block_accesses e)) [demo_io 5, demo_io 7], block_zero)"
  have "\<exists>us st. stat_reaches ?s (us, st) \<and> all_idle us"
    using turns_reach [OF lost_update [of "demo_io 5" "demo_io 7"]] by (auto simp: demo_io_def)
  then obtain us st where r: "stat_reaches ?s (us, st)" and i: "all_idle us" by blast
  have len: "length [demo_io 5, demo_io 7] < 2 ^ 64" by simp
  have "unat (complete_cnt st) \<le> 2 \<and> max_lat_ns st \<in> {5, 7}"
    using shared_stats_bounds [OF r i len stat_reaches.refl [of "(map (\<lambda>e. (0, syscall_accesses e)) [], syscall_zero)"]
        _ _ stat_reaches.refl [of "(map (\<lambda>e. (0, preempt_accesses e)) [], preempt_zero)"]]
    by (simp add: demo_io_def numeral_2_eq_2)
  then show ?thesis using r by blast
qed

text \<open>
  C34: two events that are handled at the same time on two CPUs can leave a record in which one is missing: the count
  is 1 instead of 2, the total lacks a latency, and the maximum shown is the smaller of the two latencies. The fields that describe
  the maximum of \<^verbatim>\<open>syscall\<close> can be those of the other event.
\<close>

theorem shared_stats_lost:
  assumes "0 < BlockIo.ev_latency_ns e" and "BlockIo.ev_latency_ns e < BlockIo.ev_latency_ns f"
    and "0 < Syscall.ev_delay_ns g" and "0 < Syscall.ev_delay_ns h"
  shows "(\<exists>us st. stat_reaches ([(0, block_accesses e), (0, block_accesses f)], block_zero) (us, st) \<and> all_idle us
      \<and> complete_cnt st = 1 \<and> total_lat_ns st = BlockIo.ev_latency_ns e \<and> max_lat_ns st = BlockIo.ev_latency_ns e)
    \<and> (\<exists>us st. stat_reaches ([(0, syscall_accesses g), (0, syscall_accesses h)], syscall_zero) (us, st) \<and> all_idle us
      \<and> Syscall.max_ns st = Syscall.ev_delay_ns h \<and> max_pid st = Syscall.ev_pid g
      \<and> max_syscall_id st = Syscall.ev_syscall_id g)"
  using turns_reach [OF lost_update [OF assms(1) order.strict_trans [OF assms(1,2)]]]
    turns_reach [OF torn_maximum [OF assms(3,4)]] by (rule conjI)

theorem shared_stats_lost_witness:
  "\<exists>us st. stat_reaches ([(0, block_accesses (demo_io 5)), (0, block_accesses (demo_io 7))], block_zero) (us, st)
     \<and> complete_cnt st = 1 \<and> max_lat_ns st = 5"
  using shared_stats_lost [of "demo_io 5" "demo_io 7" "demo_call 3 4" "demo_call 5 6"]
  by (auto simp: demo_io_def demo_call_def)

end
