(* ===== verification/Filters.thy ===== *)
theory Filters
  imports Cli FsOpen FsRead FsWrite BlockIo MutexLock DrSnoop CtxSwitch Preempt Syscall MsgQueue TcpMonitor UdpMonitor
begin

section \<open>The filters, from the command line to the events\<close>

text \<open>
  The options travel a long way: \<open>parse_opt\<close> reads their digits, \<open>main\<close> hands the numbers to the \<open>*_run\<close>
  functions, these write them into \<open>ctrl_map\<close>, and the probes compare processes and latencies with what they find
  there. The theorem follows them through all of these steps for every module that has the filters.
\<close>

text \<open>The call of a module's run function with the options, as \<open>main\<close> makes it.\<close>

definition call_run :: "app_options \<Rightarrow> run_env \<Rightarrow> (s32 \<Rightarrow> bool \<Rightarrow> s32 \<Rightarrow> u64 \<Rightarrow> run_env \<Rightarrow> 'r) \<Rightarrow> 'r" where
  "call_run op e run = run (poll_timeout_ms op) (app_options.enable op) (app_options.target_pid op)
     (app_options.min_delay_ns op) e"

text \<open>
  Whatever configuration \<open>c\<close> a finished run wrote, the events \<open>x\<close> its probes can produce under it (\<open>seen c x\<close>) satisfy \<open>P\<close>.
\<close>

definition promised :: "(int \<times> 'c action list) option \<Rightarrow> ('c \<Rightarrow> 'x \<Rightarrow> bool) \<Rightarrow> ('x \<Rightarrow> bool) \<Rightarrow> bool" where
  "promised out seen P \<longleftrightarrow> (case out of None \<Rightarrow> True
     | Some (r, log) \<Rightarrow> \<forall>c err. Write_ctrl c err \<in> set log \<longrightarrow> (\<forall>x. seen c x \<longrightarrow> P x))"

text \<open>What the options ask of an event: the switch, the threshold in nanoseconds, and one of its processes.\<close>

definition obeys :: "bool \<Rightarrow> nat \<Rightarrow> nat \<Rightarrow> 32 word set \<Rightarrow> u64 \<Rightarrow> bool" where
  "obeys en delay pid pids lat \<longleftrightarrow> en \<and> delay \<le> unat lat \<and> (pid = 0 \<or> pid \<in> unat ` pids)"

section \<open>Lemmas\<close>

lemma unat_of_nat_pid: "pid < 2 ^ 31 \<Longrightarrow> unat (of_nat pid :: 32 word) = pid"
  by (simp add: unat_of_nat take_bit_nat_eq_self)

lemma of_nat_pid_zero: "pid < 2 ^ 31 \<Longrightarrow> (of_nat pid :: 32 word) = 0 \<longleftrightarrow> pid = 0"
  using unat_of_nat_pid [of pid] by (auto simp: unat_eq_0)

text \<open>The comparisons of the probes, on the numbers the options stand for.\<close>

lemma threshold_nat: "delay < 2 ^ 64 \<Longrightarrow> of_nat delay \<le> (lat :: u64) \<Longrightarrow> delay \<le> unat lat"
  by (simp add: word_le_nat_alt unat_of_nat_small)

lemma pids_nat:
  fixes pids :: "32 word set"
  shows "pid < 2 ^ 31 \<Longrightarrow> (of_nat pid :: 32 word) = 0 \<or> of_nat pid \<in> pids \<Longrightarrow> pid = 0 \<or> pid \<in> unat ` pids"
  using image_eqI [of pid unat "of_nat pid" pids] unat_of_nat_pid [of pid] of_nat_pid_zero [of pid] by auto

lemma obeysI:
  assumes "pid < 2 ^ 31" and "delay < 2 ^ 64" and "en"
    and "of_nat delay \<le> lat" and "(of_nat pid :: 32 word) = 0 \<or> of_nat pid \<in> pids"
  shows "obeys en delay pid pids lat"
  using assms threshold_nat pids_nat by (simp add: obeys_def)

text \<open>A run writes one configuration, the one its arguments and the namespace give.\<close>

lemma run_loaded_promised:
  assumes "\<And>x. seen ctrl x \<Longrightarrow> P x"
  shows "promised (run_loaded cf final ctrl t e) seen P"
  using assms by (auto simp: promised_def run_loaded_def run_cleanup_def Let_def split: option.splits if_splits)

lemma run_module_promised:
  assumes "\<And>dev ino x. seen (mk dev ino) x \<Longrightarrow> P x"
  shows "promised (run_module pf cf final mk t e) seen P"
proof (cases "re_stat e")
  case (Inr di)
  then show ?thesis
    using run_loaded_promised [of seen "mk (fst di) (snd di)" P] assms
    by (cases di) (simp add: run_module_def app_get_pid_namespace_def)
qed (simp add: run_module_def app_get_pid_namespace_def promised_def)

lemma udp_run_promised:
  assumes "\<And>dev ino x. seen (udp_monitor_ctrl_of en pid delay dev ino) x \<Longrightarrow> P x"
  shows "promised (udp_monitor_run ncpus t en pid delay e) seen P"
proof (cases "re_stat e")
  case (Inr di)
  then show ?thesis
    using run_loaded_promised [of seen "udp_monitor_ctrl_of en pid delay (fst di) (snd di)" P] assms
    by (cases di) (simp add: udp_run_Inr promised_def)
qed (simp add: udp_monitor_run_def app_get_pid_namespace_def promised_def run_cleanup_def)

text \<open>Module by module: the run function passes the options on, and the probes filter with them.\<close>

lemma open_obeyed:
  assumes "pid < 2 ^ 31" and "delay < 2 ^ 64"
  shows "promised (open_run t en (of_nat pid) (of_nat delay) e) (\<lambda>c x. \<exists>tr n. x \<in> set (Open_state.rb (fold open_step tr (open_init c n))))
         (\<lambda>x. obeys en delay pid {Open_event.ev_pid x} (Open_event.ev_latency_ns x))"
  unfolding open_run_def
  by (rule run_module_promised)
     (use assms in \<open>auto simp: open_ctrl_of_def intro!: obeysI dest!: open_filtered\<close>)

lemma read_obeyed:
  assumes "pid < 2 ^ 31" and "delay < 2 ^ 64"
  shows "promised (read_run t en (of_nat pid) (of_nat delay) e) (\<lambda>c x. \<exists>tr n. x \<in> set (Read_state.rb (fold read_step tr (read_init c n))))
         (\<lambda>x. obeys en delay pid {Read_event.ev_pid x} (Read_event.ev_latency_ns x))"
  unfolding read_run_def
  by (rule run_module_promised)
     (use assms in \<open>auto simp: read_ctrl_of_def intro!: obeysI dest!: read_filtered\<close>)

lemma write_obeyed:
  assumes "pid < 2 ^ 31" and "delay < 2 ^ 64"
  shows "promised (write_run t en (of_nat pid) (of_nat delay) e) (\<lambda>c x. \<exists>tr n. x \<in> set (Write_state.rb (fold write_step tr (write_init c n))))
         (\<lambda>x. obeys en delay pid {Write_event.ev_pid x} (Write_event.ev_latency_ns x))"
  unfolding write_run_def
  by (rule run_module_promised)
     (use assms in \<open>auto simp: write_ctrl_of_def intro!: obeysI dest!: write_filtered\<close>)

lemma block_obeyed:
  assumes "pid < 2 ^ 31" and "delay < 2 ^ 64"
  shows "promised (block_io_run t en (of_nat pid) (of_nat delay) e) (\<lambda>c x. \<exists>tr. x \<in> set (BlockIo_state.rb (fold block_step tr (block_init c))))
         (\<lambda>x. obeys en delay pid {BlockIo_event.ev_pid x} (BlockIo_event.ev_latency_ns x))"
  unfolding block_io_run_def
  by (rule run_loaded_promised)
     (use assms in \<open>auto simp: block_io_ctrl_of_def intro!: obeysI dest!: block_filtered\<close>)

lemma mutex_obeyed:
  assumes "pid < 2 ^ 31" and "delay < 2 ^ 64"
  shows "promised (mutexlock_run t en (of_nat pid) (of_nat delay) e) (\<lambda>c x. \<exists>tr n. x \<in> set (Mutexlock_state.rb (fold mutex_step tr (mutex_init c n))))
         (\<lambda>x. obeys en delay pid {ev_contender_tgid x} (ev_contention_ns x))"
  unfolding mutexlock_run_def
  by (rule run_module_promised)
     (use assms in \<open>auto simp: mutexlock_ctrl_of_def intro!: obeysI dest!: mutex_filtered\<close>)

lemma dr_obeyed:
  assumes "pid < 2 ^ 31" and "delay < 2 ^ 64"
  shows "promised (dr_snoop_run t en (of_nat pid) (of_nat delay) e) (\<lambda>c x. \<exists>tr n. x \<in> set (DrSnoop_state.rb (fold dr_step tr (dr_init c n))))
         (\<lambda>x. obeys en delay pid {hi32 (d_id x)} (d_delta x))"
  unfolding dr_snoop_run_def
  by (rule run_module_promised)
     (use assms in \<open>auto simp: dr_snoop_ctrl_of_def intro!: obeysI dest!: dr_filtered\<close>)

lemma cs_obeyed:
  assumes "pid < 2 ^ 31" and "delay < 2 ^ 64"
  shows "promised (context_switch_run t en (of_nat pid) (of_nat delay) e)
         (\<lambda>c x. \<exists>tr n. x \<in> set (ContextSwitch_state.rb (fold cs_step tr (cs_init c n))))
         (\<lambda>x. obeys en delay pid {ContextSwitch_event.ev_next_tgid x} (ContextSwitch_event.ev_delay_ns x))"
  unfolding context_switch_run_def
  by (rule run_module_promised)
     (use assms in \<open>auto simp: context_switch_ctrl_of_def intro!: obeysI dest!: cs_filtered\<close>)

lemma preempt_obeyed:
  assumes "pid < 2 ^ 31" and "delay < 2 ^ 64"
  shows "promised (preempt_run t en (of_nat pid) (of_nat delay) e) (\<lambda>c x. \<exists>tr n. x \<in> set (Preempt_state.rb (fold preempt_step tr (preempt_init c n))))
         (\<lambda>x. obeys en delay pid {Preempt_event.ev_prev_pid x, Preempt_event.ev_next_pid x} (Preempt_event.ev_delay_ns x))"
  unfolding preempt_run_def
  by (rule run_loaded_promised)
     (use assms in \<open>auto simp: preempt_ctrl_of_def intro!: obeysI dest!: preempt_filtered\<close>)

lemma syscall_obeyed:
  assumes "pid < 2 ^ 31" and "delay < 2 ^ 64"
  shows "promised (syscall_run t en (of_nat pid) (of_nat delay) e) (\<lambda>c x. \<exists>tr n. x \<in> set (Syscall_state.rb (fold syscall_step tr (syscall_init c n))))
         (\<lambda>x. obeys en delay pid {Syscall_event.ev_pid x} (Syscall_event.ev_delay_ns x * 1000))"
  unfolding syscall_run_def
  by (rule run_loaded_promised)
     (use assms in \<open>auto simp: syscall_ctrl_of_def intro!: obeysI dest!: syscall_filtered\<close>)

lemma mq_obeyed:
  assumes "pid < 2 ^ 31" and "delay < 2 ^ 64"
  shows "promised (msgqueue_run t en (of_nat pid) (of_nat delay) e) (\<lambda>c x. \<exists>tr. x \<in> set (Msgqueue_state.rb (fold mq_step tr (mq_init c))))
         (\<lambda>x. obeys en delay pid {ev_sender_pid x, ev_receiver_pid x} (ev_residence_ns x))"
  unfolding msgqueue_run_def
  by (rule run_module_promised)
     (use assms in \<open>auto simp: msgqueue_ctrl_of_def intro!: obeysI dest!: mq_filtered\<close>)

lemma tcp_obeyed:
  assumes "pid < 2 ^ 31" and "delay < 2 ^ 64"
  shows "promised (tcp_monitor_run t en (of_nat pid) (of_nat delay) e) (\<lambda>c x. \<exists>tr n. x \<in> set (TcpMonitor_state.rb (fold tcp_step tr (tcp_init c n))))
         (\<lambda>x. obeys en (if TcpMonitor_event.ev_type x = TCP_EV_HANDSHAKE then delay else 0) pid
            {TcpMonitor_event.ev_tgid x} (TcpMonitor_event.ev_latency_ns x))"
  unfolding tcp_monitor_run_def
  by (rule run_module_promised)
     (use assms in \<open>auto simp: tcp_monitor_ctrl_of_def intro!: obeysI dest!: tcp_filtered\<close>)

lemma udp_obeyed:
  assumes "pid < 2 ^ 31" and "delay < 2 ^ 64"
  shows "promised (udp_monitor_run ncpus t en (of_nat pid) (of_nat delay) e)
         (\<lambda>c x. \<exists>tr n. admissible udp_shallow udp_step tr (udp_init c n)
             \<and> x \<in> set (UdpMonitor_state.rb (fold udp_step tr (udp_init c n))))
         (\<lambda>x. obeys en delay pid {UdpMonitor_event.ev_tgid x} (UdpMonitor_event.ev_latency_ns x))"
  by (rule udp_run_promised)
     (use assms in \<open>auto simp: udp_monitor_ctrl_of_def intro!: obeysI dest!: udp_filtered\<close>)

lemmas obeyed =
  open_obeyed read_obeyed write_obeyed block_obeyed mutex_obeyed dr_obeyed
  cs_obeyed preempt_obeyed syscall_obeyed mq_obeyed tcp_obeyed udp_obeyed

section \<open>Properties\<close>

text \<open>
  C5: what the user asks for on the command line is what the modules report. With a known module list and numbers
  in range, the options parse, and for each of the twelve modules with filters, whatever the kernel does and in
  whatever order the probes fire, an event comes only if tracing was enabled, only at or above the threshold
  written, and only for the process named, when one is named. As the code has it: \<^verbatim>\<open>ipc/msgqueue\<close> and \<^verbatim>\<open>sched/preempt\<close>
  accept either process of an event, the threshold of \<^verbatim>\<open>net/tcp_monitor\<close> concerns handshakes only, \<^verbatim>\<open>syscall\<close> reports
  microseconds, and for \<^verbatim>\<open>net/udp_monitor\<close> the sends nest less deep than the counter can count.
\<close>

theorem command_line_obeyed:
  assumes "length s < 512" and "names_of s \<noteq> []" and "list_all known_name (names_of s)"
    and "1 \<le> t" and "t \<le> 60000" and "pid < 2 ^ 31" and "delay < 2 ^ 64"
  shows "\<exists>op. app_parse_args
      [(CHR ''m'', Some s), (CHR ''t'', Some (decimal t)), (CHR ''e'', Some (if en then ''1'' else ''0'')),
       (CHR ''p'', Some (decimal pid)), (CHR ''d'', Some (decimal delay))] = Parsed op
    \<and> promised (call_run op e open_run) (\<lambda>c x. \<exists>tr n. x \<in> set (Open_state.rb (fold open_step tr (open_init c n))))
         (\<lambda>x. obeys en delay pid {Open_event.ev_pid x} (Open_event.ev_latency_ns x))
     \<and> promised (call_run op e read_run) (\<lambda>c x. \<exists>tr n. x \<in> set (Read_state.rb (fold read_step tr (read_init c n))))
         (\<lambda>x. obeys en delay pid {Read_event.ev_pid x} (Read_event.ev_latency_ns x))
     \<and> promised (call_run op e write_run) (\<lambda>c x. \<exists>tr n. x \<in> set (Write_state.rb (fold write_step tr (write_init c n))))
         (\<lambda>x. obeys en delay pid {Write_event.ev_pid x} (Write_event.ev_latency_ns x))
     \<and> promised (call_run op e block_io_run) (\<lambda>c x. \<exists>tr. x \<in> set (BlockIo_state.rb (fold block_step tr (block_init c))))
         (\<lambda>x. obeys en delay pid {BlockIo_event.ev_pid x} (BlockIo_event.ev_latency_ns x))
     \<and> promised (call_run op e mutexlock_run) (\<lambda>c x. \<exists>tr n. x \<in> set (Mutexlock_state.rb (fold mutex_step tr (mutex_init c n))))
         (\<lambda>x. obeys en delay pid {ev_contender_tgid x} (ev_contention_ns x))
     \<and> promised (call_run op e dr_snoop_run) (\<lambda>c x. \<exists>tr n. x \<in> set (DrSnoop_state.rb (fold dr_step tr (dr_init c n))))
         (\<lambda>x. obeys en delay pid {hi32 (d_id x)} (d_delta x))
     \<and> promised (call_run op e context_switch_run)
         (\<lambda>c x. \<exists>tr n. x \<in> set (ContextSwitch_state.rb (fold cs_step tr (cs_init c n))))
         (\<lambda>x. obeys en delay pid {ContextSwitch_event.ev_next_tgid x} (ContextSwitch_event.ev_delay_ns x))
     \<and> promised (call_run op e preempt_run) (\<lambda>c x. \<exists>tr n. x \<in> set (Preempt_state.rb (fold preempt_step tr (preempt_init c n))))
         (\<lambda>x. obeys en delay pid {Preempt_event.ev_prev_pid x, Preempt_event.ev_next_pid x} (Preempt_event.ev_delay_ns x))
     \<and> promised (call_run op e syscall_run) (\<lambda>c x. \<exists>tr n. x \<in> set (Syscall_state.rb (fold syscall_step tr (syscall_init c n))))
         (\<lambda>x. obeys en delay pid {Syscall_event.ev_pid x} (Syscall_event.ev_delay_ns x * 1000))
     \<and> promised (call_run op e msgqueue_run) (\<lambda>c x. \<exists>tr. x \<in> set (Msgqueue_state.rb (fold mq_step tr (mq_init c))))
         (\<lambda>x. obeys en delay pid {ev_sender_pid x, ev_receiver_pid x} (ev_residence_ns x))
     \<and> promised (call_run op e tcp_monitor_run) (\<lambda>c x. \<exists>tr n. x \<in> set (TcpMonitor_state.rb (fold tcp_step tr (tcp_init c n))))
         (\<lambda>x. obeys en (if TcpMonitor_event.ev_type x = TCP_EV_HANDSHAKE then delay else 0) pid
            {TcpMonitor_event.ev_tgid x} (TcpMonitor_event.ev_latency_ns x))
     \<and> promised (call_run op e (udp_monitor_run ncpus))
         (\<lambda>c x. \<exists>tr n. admissible udp_shallow udp_step tr (udp_init c n)
             \<and> x \<in> set (UdpMonitor_state.rb (fold udp_step tr (udp_init c n))))
         (\<lambda>x. obeys en delay pid {UdpMonitor_event.ev_tgid x} (UdpMonitor_event.ev_latency_ns x))"
  unfolding written_options [OF assms(1-7)]
  by (intro exI conjI, rule HOL.refl) (use assms(6,7) in \<open>simp_all add: call_run_def obeyed\<close>)

theorem command_line_obeyed_witness:
  "\<forall>e. \<exists>op. app_parse_args
      [(CHR ''m'', Some ''msgqueue,,fs_open''), (CHR ''t'', Some (decimal 250)), (CHR ''e'', Some ''1''),
       (CHR ''p'', Some (decimal 7)), (CHR ''d'', Some (decimal 5000))] = Parsed op
    \<and> promised (call_run op e open_run)
      (\<lambda>c x. \<exists>tr n. x \<in> set (Open_state.rb (fold open_step tr (open_init c n))))
      (\<lambda>x. obeys True 5000 7 {Open_event.ev_pid x} (Open_event.ev_latency_ns x))"
  (is "\<forall>e. ?P e")
proof
  fix e
  have names: "names_of ''msgqueue,,fs_open'' = [''msgqueue'', ''fs_open'']" by code_simp
  have known: "list_all known_name [''msgqueue'', ''fs_open'']" by code_simp
  note * = command_line_obeyed [where s = "''msgqueue,,fs_open''" and t = 250 and pid = 7 and delay = 5000 and en = True
      and e = e, unfolded names if_True]
  obtain op where "app_parse_args
      [(CHR ''m'', Some ''msgqueue,,fs_open''), (CHR ''t'', Some (decimal 250)), (CHR ''e'', Some ''1''),
       (CHR ''p'', Some (decimal 7)), (CHR ''d'', Some (decimal 5000))] = Parsed op"
    and "promised (call_run op e open_run)
      (\<lambda>c x. \<exists>tr n. x \<in> set (Open_state.rb (fold open_step tr (open_init c n))))
      (\<lambda>x. obeys True 5000 7 {Open_event.ev_pid x} (Open_event.ev_latency_ns x))"
    using * [OF _ _ known] by auto
  then show "?P e" by blast
qed

end
