(* ===== verification/Spec2Isabelle.thy ===== *)
theory Spec2Isabelle
  imports AppMain FsOpen FsRead FsWrite BlockIo MutexLock DrSnoop SlabRun OomKiller CtxSwitch Preempt Syscall
    MsgQueue TcpMonitor UdpMonitor Trigger SharedStats Filters
begin

text \<open>
  \<^bold>\<open>eBPF-Toolbox.\<close> A verification of the toolbox under \<^verbatim>\<open>src/\<close>: a command line program that loads eBPF probe
  modules into the kernel and prints what they observe. A module is a pair of files: a \<^verbatim>\<open>*.bpf.c\<close> file
  with the probes, which run in the kernel and share state through BPF maps, and a \<^verbatim>\<open>user.c\<close> file with
  the \<^verbatim>\<open>*_run\<close> function, which loads the probes, writes their configuration, polls the ring
  buffer and prints a summary at exit. \<^verbatim>\<open>common/main.c\<close> starts the selected modules, one thread each.

  \<^bold>\<open>How the code is modelled.\<close>
  \<^item> A probe is a function from the state of the module's maps to the new state; the helper results of
    one firing (time, CPU, process ids, whether an allocation succeeds) are a value of \<open>bpf_env\<close>, and kernel
    memory a probe walks is a record of field-reading functions. A run of a module is a list of firings in any order, on
    any CPU, by any thread. Each firing is atomic, with two exceptions where the interference inside a
    firing matters: the compare-and-swap loop of \<^verbatim>\<open>ipc/msgqueue\<close> (\<open>CasMax\<close>), and the updates of a statistics record
    all CPUs share (\<open>StatRace\<close>); there the CPUs interleave access by access.
  \<^item> A run function is a function from the results of its libbpf calls to its return value and the
    log of the calls it made, \<open>None\<close> when its loop does not end within the given polls.
  \<^item> The main program is a step relation in which threads, the main thread and signals interleave.
  \<^item> What a thread prints is a list of calls on \<^verbatim>\<open>stdout\<close>; threads that print at the same time are a step relation with the
    recursive lock of the \<^verbatim>\<open>FILE\<close>. A line is modelled to its last character, the C library conversions included.
  \<^item> Integers are words of their width, so counters and differences of time stamps wrap as in C. The rates of
    \<^verbatim>\<open>mem/slab_rate\<close>, which decide the order of its table, are doubles: rationals rounded to 53 bits (\<open>Binary64\<close>).
  \<^item> libbpf, the C library and the kernel are arguments. Hypotheses about them are stated where they are used.

  \<^bold>\<open>Theories.\<close>
  \<^item> \<open>Prelude\<close>: words, per-CPU copies, string reads, \<open>bpf_env\<close>. \<open>BpfMaps\<close>: HASH and LRU maps, with the locales
    \<open>bpf_map\<close> and \<open>exact_map\<close> as their contract. \<open>PidNs\<close>: \<^verbatim>\<open>common/pid_namespace.bpf.h\<close>. \<open>FdTable\<close>: the
    descriptor table \<^verbatim>\<open>fs/read\<close> and \<^verbatim>\<open>fs/write\<close> walk. \<open>Binary64\<close>: conversion to \<^verbatim>\<open>double\<close> and division, rounded to nearest with
    ties to even, and that both are monotone.
  \<^item> \<open>Printf\<close>: the conversions of \<^verbatim>\<open>printf\<close> and \<^verbatim>\<open>snprintf\<close>. \<open>InetText\<close>: the text of addresses (\<^verbatim>\<open>inet_ntop\<close>,
    \<^verbatim>\<open>inet_pton\<close>). \<open>Logger\<close>: \<^verbatim>\<open>common/logger.h\<close> and the threads that write, with the locales \<open>line_printer\<close> (a handler that
    writes lines) and \<open>whole_printer\<close> (one that writes them in one piece), interpreted on every module's \<open>handle_event\<close>.
  \<^item> \<open>Monitor\<close>: what the probe modules share, as locales: invariants of runs (\<open>probe_system\<close>), per-CPU
    accounting (\<open>balanced_monitor\<close>), where an entry comes from (\<open>tracked_table\<close>), pairing of a report with the
    two firings it is about (\<open>paired_monitor\<close>), entries that change while they are kept (\<open>evolving_monitor\<close>), conservation of calls (\<open>conserved_monitor\<close>), the merged summary
    (\<open>percpu_report\<close>). \<open>SlotMonitor\<close>: the same for modules that keep one slot per CPU, and a shared summary record.
    \<open>CallSpec\<close>: the specification of a module that times calls, and the locale \<open>call_monitor\<close> of modules that implement it. \<open>StatRace\<close>: the
    update of a record without atomic operations, access by access, with the locales \<open>racy_summary\<close> and
    \<open>racy_maximum\<close>. \<open>CasMax\<close>: the maximum \<^verbatim>\<open>ipc/msgqueue\<close> keeps by compare-and-swap. Every
    locale is interpreted on the modules' own definitions.
  \<^item> Modules, each with its records, probes, summary and configuration: \<open>FsOpen\<close>, \<open>FsRead\<close>, \<open>FsWrite\<close>, \<open>BlockIo\<close>
    (\<^verbatim>\<open>fs/\<close>), \<open>MutexLock\<close> (\<^verbatim>\<open>lock/mutexlock\<close>), \<open>DrSnoop\<close>, \<open>OomKiller\<close>, \<open>SlabRate\<close> with \<open>SlabTable\<close> and \<open>SlabRun\<close>
    (\<^verbatim>\<open>mem/\<close>), \<open>CtxSwitch\<close>, \<open>Preempt\<close> (\<^verbatim>\<open>sched/\<close>), \<open>Syscall\<close> (\<^verbatim>\<open>syscall/\<close>), \<open>MsgQueue\<close> (\<^verbatim>\<open>ipc/msgqueue\<close>),
    \<open>TcpMonitor\<close>, \<open>UdpMonitor\<close> (\<^verbatim>\<open>net/\<close>) with what they read of a socket in \<open>NetSock\<close>.
  \<^item> \<open>Cli\<close>: \<^verbatim>\<open>common/cli.c\<close> and \<^verbatim>\<open>common/registry.h\<close>, the option handler with the C library conversions
    it calls. \<open>RunLoop\<close>: exit flags, namespace lookup and the sequence of calls the run functions share, with the
    locales \<open>loaded_runner\<close>, \<open>quiet_loaded\<close>, \<open>module_runner\<close>, \<open>quiet_runner\<close>. \<open>AppMain\<close>: \<^verbatim>\<open>common/main.c\<close>. \<open>Trigger\<close>: \<^verbatim>\<open>tools/trigger.c\<close>, the load generator.
  \<^item> \<open>Filters\<close>: the options from the command line through the run functions to the probes. \<open>SharedStats\<close>: the modules
    whose CPUs share one statistics record. This theory: what
    holds of all modules together and of the program with them.

  \<^bold>\<open>What is shown.\<close>
  \<^item> Reports are true: an event a module reports is about one start and one end of the same thread, task,
    message, request or CPU, with nothing in between that ended it, with the time between them and the filters passed. For
    \<^verbatim>\<open>net/\<close> what happened in between shows too: retransmissions and handshake of a connection, calls inside a send and its route.
  \<^item> Reports are complete: while the maps keep what they are given, nine modules report exactly the events of one
    specification without maps and CPUs, in order (\<open>modules_exact\<close>, \<open>FsOpen.open_call_reported\<close>).
  \<^item> The filters given on the command line are the ones the probes apply (\<open>Filters.command_line_obeyed\<close>).
  \<^item> Nothing is lost uncounted: on every CPU the calls seen are the reported, filtered, failed and dropped ones, and
    over all CPUs what began is what ended plus what is in flight; maps stay within their bounds, and no entry of a
    module that times calls outlives its call (\<open>states_wf\<close>).
  \<^item> The summaries printed at exit are sums, means and maxima of what happened; the table \<^verbatim>\<open>mem/slab_rate\<close>
    prints per window has the exact counts of that window, ordered by the rounded rates. Where the CPUs share one record without atomic
    operations, the count is within bounds and the maximum is one of the latencies under every interleaving
    (\<open>SharedStats.shared_stats_bounds\<close>); the compare-and-swap loop never lowers its maximum and finds the largest value
    (\<open>CasMax.stats_update_max_correct\<close>).
  \<^item> Modules release what they acquire on every path, configure before they attach, return once told to
    stop, and return zero exactly when nothing failed; the program waits for all modules, returns zero exactly when
    all returned zero, ends when they end, and one failed module stops the others.
  \<^item> The option parser accepts exactly the valid options and reads back what is written out.
  \<^item> The output of the modules is an interleaving of the pieces their handlers write and never blocks for good
    (\<open>output_completes\<close>); the lines of modules that lock are never mixed (\<open>lines_unbroken\<close>); printed addresses fit their buffer and IPv4 ones read back.
  \<^item> The load generator closes the descriptors it opens on every path and makes the unlink call for the names it creates.
  \<^item> Where the code does not do this, the behaviour is a theorem: \<open>dr_snoop_false_failure\<close>,
    \<open>Cli.delay_sign\<close>, \<open>MsgQueue.mq_reuse_misclassified\<close>, \<open>Syscall.syscall_misattributed\<close>,
    \<open>UdpMonitor.udp_filtered_missed\<close>, \<open>lines_broken\<close>, \<open>TcpMonitor.fmt_addr_cuts_ipv6\<close>, \<open>SharedStats.shared_stats_lost\<close>, the exception in
    \<open>Trigger.trigger_releases\<close>.

  \<^bold>\<open>Bounds.\<close> Map capacities are those of the source (10240 entries for calls in flight, 1024 keys for \<^verbatim>\<open>mem/slab_rate\<close>,
    and so on). Loops are bounded by the code itself (the namespace levels, the retry of the compare-and-swap) or by the list of
    poll results given; termination is then proved from the condition that a stop request or a failing poll is among them.

  \<^bold>\<open>Not modelled.\<close> The fixed texts of start banners, column heads and exit panels (the numbers the panels show are
  modelled), the help texts of the option parser, and the decimal text of the rates of \<^verbatim>\<open>mem/slab_rate\<close>: output
  only. The padding bytes of \<^verbatim>\<open>struct io_key\<close>, about which C says nothing, are taken to be the same at issue and at completion. The
  results of \<^verbatim>\<open>close\<close> and of the unlink calls in \<^verbatim>\<open>tools/trigger.c\<close>, which the code ignores, are not arguments. \<^verbatim>\<open>lib/\<close>, \<^verbatim>\<open>vmlinux/\<close>: third-party and generated
  code. Firings that overlap on several CPUs are interleaved access by access only for
  the statistics records and the compare-and-swap loop; in the runs of a module they are taken one after the other.
\<close>

section \<open>The modules as the main program sees them\<close>

text \<open>
  What the \<open>run\<close> functions may return, the modelled ones from their definitions; \<open>rest\<close> is for
  a mode that names no module.
\<close>

definition toolbox_rets :: "run_rets \<Rightarrow> run_rets" where
  "toolbox_rets rest md t en pid delay r \<longleftrightarrow>
     (if md = APP_MODE_FS_OPEN then (\<exists>e log. open_run t en pid delay e = Some (r, log))
      else if md = APP_MODE_FS_READ then (\<exists>e log. read_run t en pid delay e = Some (r, log))
      else if md = APP_MODE_FS_WRITE then (\<exists>e log. write_run t en pid delay e = Some (r, log))
      else if md = APP_MODE_MUTEXLOCK then (\<exists>e log. mutexlock_run t en pid delay e = Some (r, log))
      else if md = APP_MODE_CONTEXT_SWITCH then
        (\<exists>e log. context_switch_run t en pid delay e = Some (r, log))
      else if md = APP_MODE_DR_SNOOP then (\<exists>e log. dr_snoop_run t en pid delay e = Some (r, log))
      else if md = APP_MODE_MSGQUEUE then (\<exists>e log. msgqueue_run t en pid delay e = Some (r, log))
      else if md = APP_MODE_SYSCALL then (\<exists>e log. syscall_run t en pid delay e = Some (r, log))
      else if md = APP_MODE_PREEMPT then (\<exists>e log. preempt_run t en pid delay e = Some (r, log))
      else if md = APP_MODE_BLOCK_IO then (\<exists>e log. block_io_run t en pid delay e = Some (r, log))
      else if md = APP_MODE_SLAB_RATE then (\<exists>e log. slab_rate_run t en pid delay e = Some (r, log))
      else if md = APP_MODE_OOM_KILLER then (\<exists>e log. oom_killer_run t en pid delay e = Some (r, log))
      else if md = APP_MODE_TCP_MONITOR then (\<exists>e log. tcp_monitor_run t en pid delay e = Some (r, log))
      else if md = APP_MODE_UDP_MONITOR then (\<exists>n e log. udp_monitor_run n t en pid delay e = Some (r, log))
      else rest md t en pid delay r)"

text \<open>
  The events the threads of the program have to print, with the time of each and, where the handler checks it, the
  size of the record: one list for every module that locks \<^verbatim>\<open>stdout\<close> around a line or writes it by one call.
\<close>

record toolbox_events =
  open_evs :: "(wall \<times> Open_event) list"
  read_evs :: "(nat \<times> wall \<times> Read_event) list"
  write_evs :: "(nat \<times> wall \<times> Write_event) list"
  mutex_evs :: "(wall \<times> Mutexlock_event) list"
  dr_evs :: "(nat \<times> wall \<times> data_t) list"
  oom_evs :: "(wall \<times> OomKiller_event) list"
  cs_evs :: "(wall \<times> ContextSwitch_event) list"
  tcp_evs :: "(wall \<times> TcpMonitor_event) list"
  udp_evs :: "(nat \<times> wall \<times> UdpMonitor_event) list"

definition locked_threads :: "(int \<Rightarrow> string) \<Rightarrow> toolbox_events \<Rightarrow> out_call list list" where
  "locked_threads strerror t =
     [concat (map (\<lambda>(now, e). open_handle_event strerror now e) (open_evs t)),
      concat (map (\<lambda>(sz, now, e). read_handle_event strerror sz now e) (read_evs t)),
      concat (map (\<lambda>(sz, now, e). write_handle_event strerror sz now e) (write_evs t)),
      concat (map (\<lambda>(now, e). mutex_handle_event now e) (mutex_evs t)),
      concat (map (\<lambda>(sz, now, e). dr_handle_event sz now e) (dr_evs t)),
      concat (map (\<lambda>(now, e). oom_handle_event now e) (oom_evs t)),
      concat (map (\<lambda>(now, e). cs_handle_event now e) (cs_evs t)),
      concat (map (\<lambda>(now, e). tcp_handle_event now e) (tcp_evs t)),
      concat (map (\<lambda>(sz, now, e). udp_handle_event sz now e) (udp_evs t))]"

text \<open>The events of the four modules whose handlers take no lock.\<close>

record unlocked_events =
  block_evs :: "(wall \<times> BlockIo_event) list"
  syscall_evs :: "(wall \<times> Syscall_event) list"
  preempt_evs :: "(wall \<times> Preempt_event) list"
  mq_evs :: "(nat \<times> wall \<times> Msgqueue_event) list"

definition unlocked_threads :: "unlocked_events \<Rightarrow> out_call list list" where
  "unlocked_threads u =
     [concat (map (\<lambda>(now, e). block_handle_event now e) (block_evs u)),
      concat (map (\<lambda>(now, e). syscall_handle_event now e) (syscall_evs u)),
      concat (map (\<lambda>(now, e). preempt_handle_event now e) (preempt_evs u)),
      concat (map (\<lambda>(sz, now, e). mq_handle_event sz now e) (mq_evs u))]"

text \<open>No name or path the events carry has a line break, nor has a message of \<open>strerror\<close>.\<close>

definition clean_events :: "(int \<Rightarrow> string) \<Rightarrow> toolbox_events \<Rightarrow> bool" where
  "clean_events strerror t \<longleftrightarrow> (\<forall>i. printable (strerror i))
     \<and> list_all (\<lambda>(now, e). printable (FsOpen.ev_comm e) \<and> printable (FsOpen.ev_path_name e)) (open_evs t)
     \<and> list_all (\<lambda>(sz, now, e). printable (FsRead.ev_comm e) \<and> printable (FsRead.ev_path_name e)) (read_evs t)
     \<and> list_all (\<lambda>(sz, now, e). printable (FsWrite.ev_comm e) \<and> printable (FsWrite.ev_path_name e)) (write_evs t)
     \<and> list_all (\<lambda>(now, e). printable (ev_owner_name e) \<and> printable (ev_contender_name e)) (mutex_evs t)
     \<and> list_all (\<lambda>(sz, now, e). printable (d_name e)) (dr_evs t)
     \<and> list_all (\<lambda>(now, e). printable (OomKiller.comm e)) (oom_evs t)
     \<and> list_all (\<lambda>(now, e). printable (CtxSwitch.ev_prev_comm e) \<and> printable (CtxSwitch.ev_next_comm e)) (cs_evs t)
     \<and> list_all (\<lambda>(now, e). printable (TcpMonitor.ev_comm e)) (tcp_evs t)
     \<and> list_all (\<lambda>(sz, now, e). printable (UdpMonitor.ev_comm e)) (udp_evs t)"

section \<open>Lemmas\<close>

lemma locked_threads_balanced: "list_all balanced (locked_threads strerror t)"
  by (simp add: locked_threads_def open_lines.stream_balanced read_lines.stream_balanced write_lines.stream_balanced
      mutex_lines.stream_balanced dr_lines.stream_balanced oom_lines.stream_balanced cs_lines.stream_balanced
      tcp_lines.stream_balanced udp_lines.stream_balanced)

lemma unlocked_threads_balanced: "list_all balanced (unlocked_threads u)"
  by (simp add: unlocked_threads_def block_lines.stream_balanced syscall_lines.stream_balanced preempt_lines.stream_balanced
      mq_lines.stream_balanced)

lemma locked_threads_whole:
  assumes "clean_events strerror t" and "p \<in> set (locked_threads strerror t)" and "x \<in> set (pieces p)"
  shows "x = [] \<or> is_line x"
proof -
  note streams = open_lines.stream_whole read_lines.stream_whole write_lines.stream_whole mutex_lines.stream_whole
    dr_lines.stream_whole oom_lines.stream_whole cs_lines.stream_whole tcp_lines.stream_whole udp_lines.stream_whole
  have "list_all (\<lambda>p. \<forall>x \<in> set (pieces p). x = [] \<or> is_line x) (locked_threads strerror t)"
    unfolding locked_threads_def list.pred_inject(2)
    by (intro conjI ballI list.pred_inject(1); erule streams [rotated]) (use assms(1) in \<open>auto simp: clean_events_def list_all_iff\<close>)
  then show ?thesis using assms(2,3) by (auto simp: list_all_iff)
qed

text \<open>A run of each module that times calls, from its empty maps.\<close>

lemmas call_runs =
    open_calls.run_exact open_inv_init read_calls.run_exact read_inv_init write_calls.run_exact write_inv_init
    block_calls.run_exact block_inv_init mutex_calls.run_exact mutex_inv_init dr_calls.run_exact dr_inv_init
    cs_calls.run_exact cs_inv_init preempt_calls.run_exact preempt_inv_init syscall_calls.run_exact syscall_inv_init

lemmas call_inits = open_init_def read_init_def write_init_def block_init_def mutex_init_def dr_init_def cs_init_def

lemmas run_invs = open_mon.run_inv [OF admissible_True open_inv_init]
    read_pair.run_inv [OF admissible_True read_inv_init]
    write_pair.run_inv [OF admissible_True write_inv_init]
    block_pair.run_inv [OF admissible_True block_inv_init]
    mutex_pair.run_inv [OF admissible_True mutex_inv_init]
    dr_pair.run_inv [OF admissible_True dr_inv_init]
    cs_pair.run_inv [OF admissible_True cs_inv_init]
    preempt_pair.run_inv [OF admissible_True preempt_inv_init]
    syscall_pair.run_inv [OF admissible_True syscall_inv_init]

lemmas run_lives = open_pair.run_live [OF admissible_True open_inv_init]
    read_pair.run_live [OF admissible_True read_inv_init]
    write_pair.run_live [OF admissible_True write_inv_init]
    block_pair.run_live [OF admissible_True block_inv_init]
    mutex_pair.run_live [OF admissible_True mutex_inv_init]
    dr_pair.run_live [OF admissible_True dr_inv_init]
    cs_pair.run_live [OF admissible_True cs_inv_init]
    preempt_pair.run_live [OF admissible_True preempt_inv_init]
    syscall_pair.run_live [OF admissible_True syscall_inv_init]

lemmas run_copies = open_mon.run_cpus [OF admissible_True open_inv_init]
    read_mon.run_cpus [OF admissible_True read_inv_init]
    write_mon.run_cpus [OF admissible_True write_inv_init]
    mutex_run_cpus dr_run_cpus cs_run_cpus

lemmas run_defs = open_run_def read_run_def write_run_def mutexlock_run_def context_switch_run_def dr_snoop_run_def msgqueue_run_def
    tcp_monitor_run_def

lemmas loaded_run_defs = syscall_run_def preempt_run_def block_io_run_def

lemmas run_lifecycles =
    open_runner.run_lifecycle
    read_runner.run_lifecycle
    write_runner.run_lifecycle
    mutexlock_runner.run_lifecycle
    context_switch_runner.run_lifecycle
    dr_snoop_runner.run_lifecycle
    msgqueue_runner.run_lifecycle
    tcp_runner.run_lifecycle
    syscall_runner.loaded_lifecycle
    preempt_runner.loaded_lifecycle
    block_io_runner.loaded_lifecycle
    slab_run_lifecycle
    oom_run_lifecycle
    udp_run_lifecycle

lemmas run_statuses = open_runner.run_status read_runner.run_status write_runner.run_status
    mutexlock_runner.run_status context_switch_runner.run_status msgqueue_runner.run_status tcp_runner.run_status
    syscall_runner.loaded_status preempt_runner.loaded_status block_io_runner.loaded_status oom_run_status
    udp_run_status slab_run_status

lemma calm_run_returns:
  assumes "list_all (\<lambda>n. 0 \<le> n) ns" and "\<not> ctrl_failed 0"
  shows "\<exists>log. run_module pid_fail ctrl_failed final mk t (calm_run ns) = Some (final (if ns = [] then 0 else last ns), log)"
  using assms by (simp add: run_loaded_def Let_def poll_loop_calm)

section \<open>Properties of the whole\<close>

text \<open>
  C9: every run of a module that returns, on every path, has destroyed the skeleton
  it loaded exactly once and last, freed the ring buffer it made, attached its probes only
  after the configuration built from the command line was written. Twelve modules print a summary exactly if they attached, once, before
  the skeleton is given up; \<^verbatim>\<open>mem/slab_rate\<close> prints its health counters exactly if the main and the optional
  probes were attached, and frees its buffers and links on every path; \<^verbatim>\<open>mem/oom_killer\<close> prints no summary.
\<close>

theorem run_lifecycle_all:
  "lifecycle (open_ctrl_of en pid delay) e (open_run t en pid delay e)
   \<and> lifecycle (read_ctrl_of en pid delay (re_getpid e)) e (read_run t en pid delay e)
   \<and> lifecycle (write_ctrl_of en pid delay (re_getpid e)) e (write_run t en pid delay e)
   \<and> lifecycle (mutexlock_ctrl_of en pid delay) e (mutexlock_run t en pid delay e)
   \<and> lifecycle (context_switch_ctrl_of en pid delay) e (context_switch_run t en pid delay e)
   \<and> lifecycle (dr_snoop_ctrl_of en pid delay) e (dr_snoop_run t en pid delay e)
   \<and> lifecycle (msgqueue_ctrl_of en pid delay) e (msgqueue_run t en pid delay e)
   \<and> lifecycle (tcp_monitor_ctrl_of en pid delay) e (tcp_monitor_run t en pid delay e)
   \<and> lifecycle_at (syscall_ctrl_of en pid delay) (syscall_run t en pid delay e)
   \<and> lifecycle_at (preempt_ctrl_of en pid delay) (preempt_run t en pid delay e)
   \<and> lifecycle_at (block_io_ctrl_of en pid delay) (block_io_run t en pid delay e)
   \<and> slab_lifecycle (slab_rate_ctrl_of en pid) e' (slab_rate_run t en pid delay e')
   \<and> oom_lifecycle en (oom_killer_run t en pid delay e)
   \<and> udp_lifecycle (udp_monitor_ctrl_of en pid delay) e (udp_monitor_run ncpus t en pid delay e)"
  unfolding run_defs loaded_run_defs by (intro conjI run_lifecycles)

text \<open>
  C28: a module whose poll loop sees an exit request or a failing poll returns, from
  whatever state its loading calls left it in.
\<close>

theorem run_returns_all:
  assumes "stops e" and "slab_stops e'"
  shows "open_run t en pid delay e \<noteq> None
    \<and> read_run t en pid delay e \<noteq> None
    \<and> write_run t en pid delay e \<noteq> None
    \<and> mutexlock_run t en pid delay e \<noteq> None
    \<and> context_switch_run t en pid delay e \<noteq> None
    \<and> dr_snoop_run t en pid delay e \<noteq> None
    \<and> msgqueue_run t en pid delay e \<noteq> None
    \<and> tcp_monitor_run t en pid delay e \<noteq> None
    \<and> syscall_run t en pid delay e \<noteq> None
    \<and> preempt_run t en pid delay e \<noteq> None
    \<and> block_io_run t en pid delay e \<noteq> None
    \<and> slab_rate_run t en pid delay e' \<noteq> None
    \<and> oom_killer_run t en pid delay e \<noteq> None
    \<and> udp_monitor_run ncpus t en pid delay e \<noteq> None"
  unfolding run_defs loaded_run_defs
  by (intro conjI run_module_returns run_loaded_returns slab_run_returns oom_run_returns udp_run_returns assms)

theorem run_returns_all_witness:
  "open_run 100 True 0 0 (calm_run [3, 0]) \<noteq> None \<and> slab_rate_run 1000 True 0 0 calm_slab_run \<noteq> None"
  using run_returns_all [OF calm_run_stops calm_slab_run_stops] by blast

text \<open>
  C30: for every module but \<open>dr_snoop\<close>, a run that started returns 0 exactly when nothing failed in its loop: for the
  twelve modules with a ring buffer, when no poll failed for another reason than an interrupting signal; for \<^verbatim>\<open>mem/slab_rate\<close>,
  when moreover every walk of the statistics map succeeded.
\<close>

theorem run_status_all:
  "honest_status (started e) (open_run t en pid delay e)
   \<and> honest_status (started e) (read_run t en pid delay e)
   \<and> honest_status (started e) (write_run t en pid delay e)
   \<and> honest_status (started e) (mutexlock_run t en pid delay e)
   \<and> honest_status (started e) (context_switch_run t en pid delay e)
   \<and> honest_status (started e) (msgqueue_run t en pid delay e)
   \<and> honest_status (started e) (tcp_monitor_run t en pid delay e)
   \<and> honest_status (loaded_ok e) (syscall_run t en pid delay e)
   \<and> honest_status (loaded_ok e) (preempt_run t en pid delay e)
   \<and> honest_status (loaded_ok e) (block_io_run t en pid delay e)
   \<and> honest_status (loaded_ok e) (oom_killer_run t en pid delay e)
   \<and> honest_status (0 < ncpus \<and> started e) (udp_monitor_run ncpus t en pid delay e)
   \<and> slab_status e' (slab_rate_run t en pid delay e')"
  unfolding run_defs loaded_run_defs by (intro conjI run_statuses)

text \<open>
  C31: \<open>dr_snoop_run\<close> returns the number of events of its last poll when it is told to
  stop, so a run in which nothing failed ends the program with status 1 if the last poll
  delivered an event, and with 0 if it delivered none; \<open>open_run\<close> in the same situation
  returns 0.
\<close>

theorem dr_snoop_false_failure:
  assumes "list_all (\<lambda>n. 0 \<le> n) ns" and "ns \<noteq> []" and "selected op = [e]"
    and "entry_mode e = APP_MODE_DR_SNOOP"
  shows "(\<exists>log. open_run t en pid delay (calm_run ns) = Some (0, log))
    \<and> (\<exists>log. dr_snoop_run t en pid delay (calm_run ns) = Some (last ns, log))
    \<and> (\<exists>s. main_reaches (toolbox_rets rest) (main_begin op) s
         \<and> pc s = Finished (if last ns = 0 then 0 else 1))"
proof -
  have last: "0 \<le> last ns" using assms(1,2) by (simp add: list_all_iff)
  have dr: "\<exists>log. dr_snoop_run t en pid delay (calm_run ns) = Some (last ns, log)" for t en pid delay
    unfolding dr_snoop_run_def
    using calm_run_returns [OF assms(1), where ctrl_failed = "\<lambda>err. err \<noteq> 0" and final = neg_or_self] last assms(2)
    by (simp add: neg_or_self_simps)
  have op: "\<exists>log. open_run t en pid delay (calm_run ns) = Some (0, log)"
    unfolding open_run_def
    using calm_run_returns [OF assms(1), where ctrl_failed = "\<lambda>err. err < 0" and final = neg_or_zero] last assms(2)
    by (simp add: neg_or_zero_simps)
  let ?rets = "toolbox_rets rest"
  let ?s0 = "main_begin op"
  have "may_return ?rets op e (last ns)"
    unfolding may_return_def toolbox_rets_def using dr assms(4) by simp blast
  then have "main_step ?rets ?s0 (main_direct (last ns) ?s0)"
    using assms(3) by (intro main_step.run_direct) (simp_all add: main_begin_def)
  moreover have "main_step ?rets (main_direct (last ns) ?s0) (main_report (main_direct (last ns) ?s0))"
    by (intro main_step.report) (simp add: main_direct_def)
  ultimately have "main_reaches ?rets ?s0 (main_report (main_direct (last ns) ?s0))"
    by (blast intro: main_reaches.intros)
  moreover have "pc (main_report (main_direct (last ns) ?s0)) = Finished (if last ns = 0 then 0 else 1)"
    by (simp add: main_report_def main_direct_def)
  ultimately show ?thesis using dr op by blast
qed

theorem dr_snoop_false_failure_witness:
  "\<exists>s. main_reaches (toolbox_rets all_succeed)
      (main_begin (default_options\<lparr>mode := APP_MODE_DR_SNOOP, mode_mask := 0x800\<rparr>)) s \<and> pc s = Finished 1"
proof -
  let ?o = "default_options\<lparr>mode := APP_MODE_DR_SNOOP, mode_mask := 0x800\<rparr>"
  have sel: "selected ?o = [\<lparr>name = ''dr_snoop'', entry_mode = APP_MODE_DR_SNOOP\<rparr>]" by code_simp
  show ?thesis
    using dr_snoop_false_failure [OF _ _ sel, of "[0, 2]" 100 True 0 0 all_succeed] by simp
qed

text \<open>
  C18: whatever the interleaving, every line of the eight modules that lock \<^verbatim>\<open>stdout\<close>, and of \<^verbatim>\<open>mem/oom_killer\<close>, appears in one piece, if the names, paths and messages in it have no line break. When
  their threads, and any other threads that give back the locks they take, have written all they had, the output is an interleaving of
  pieces in which each piece from one of the nine is one whole line (or empty).
\<close>

theorem lines_unbroken:
  assumes "clean_events strerror t" and "list_all balanced qs"
    and "out_reaches (out_start (locked_threads strerror t @ qs)) s" and "out_done s"
  shows "\<exists>ms. merged (map pieces (locked_threads strerror t @ qs)) ms \<and> written s = concat (map snd ms)
    \<and> (\<forall>m \<in> set ms. fst m < 9 \<longrightarrow> snd m = [] \<or> is_line (snd m))"
proof -
  let ?ps = "locked_threads strerror t @ qs"
  have b: "list_all balanced ?ps" using assms(2) by (simp add: locked_threads_balanced)
  obtain ms where ms: "merged (map pieces ?ps) ms" "written s = concat (map snd ms)"
    using done_merged [OF b assms(3,4)] by blast
  have n: "length (locked_threads strerror t) = 9" by (simp add: locked_threads_def)
  have "snd m = [] \<or> is_line (snd m)" if m: "m \<in> set ms" "fst m < 9" for m
  proof (rule locked_threads_whole [OF assms(1)])
    show "locked_threads strerror t ! fst m \<in> set (locked_threads strerror t)" using m(2) n by simp
    have "snd m \<in> set (map snd (filter (\<lambda>m'. fst m' = fst m) ms))" using m(1) by auto
    then show "snd m \<in> set (pieces (locked_threads strerror t ! fst m))"
      using ms(1) m(2) n unfolding merged_def by (simp add: nth_append)
  qed
  then show ?thesis using ms by blast
qed

definition noon :: wall where
  "noon = \<lparr>tm_hour = 12, tm_min = 0, tm_sec = 0, tv_nsec = 0\<rparr>"

definition demo_events :: toolbox_events where
  "demo_events = \<lparr>open_evs = [], read_evs = [], write_evs = [],
     mutex_evs = [(noon, \<lparr>ev_ptr = 1, ev_owner_pid = 7, ev_owner_tgid = 7, ev_contender_pid = 8, ev_contender_tgid = 8,
       ev_owner_prio = 120, ev_contender_prio = 120, ev_contention_ns = 5000, ev_contender_name = ''b'', ev_owner_name = ''a''\<rparr>)],
     dr_evs = [], oom_evs = [(noon, \<lparr>triggered_pid = 7, oomkill_pid = 8, mem_pages = 9, comm = ''java''\<rparr>)],
     cs_evs = [], tcp_evs = [], udp_evs = []\<rparr>"

theorem lines_unbroken_witness:
  "\<exists>s ms. out_reaches (out_start (locked_threads (\<lambda>_. ''error'') demo_events @ [[Write ''x'']])) s
    \<and> written s = concat (map snd ms) \<and> (\<forall>m \<in> set ms. fst m < (9 :: nat) \<longrightarrow> snd m = [] \<or> is_line (snd m))"
proof -
  have c: "clean_events (\<lambda>_. ''error'') demo_events" by (simp add: clean_events_def demo_events_def)
  have q: "list_all balanced [[Write ''x'']]" by code_simp
  then obtain s where s: "out_reaches (out_start (locked_threads (\<lambda>_. ''error'') demo_events @ [[Write ''x'']])) s"
      "out_done s"
    using balanced_finishes [of "locked_threads (\<lambda>_. ''error'') demo_events @ [[Write ''x'']]"] locked_threads_balanced by auto
  show ?thesis using lines_unbroken [OF c q s] s(1) by blast
qed

text \<open>
  C33: the handlers of \<^verbatim>\<open>fs/block_io\<close> and \<^verbatim>\<open>syscall\<close> do not lock: for any two events there is an interleaving in which
  the whole line of the one stands in the middle of the line of the other.
\<close>

theorem lines_broken:
  "\<exists>a b s. a \<noteq> [] \<and> b \<noteq> [] \<and> concat (pieces (block_handle_event now e)) = a @ b
    \<and> out_reaches (out_start [block_handle_event now e, syscall_handle_event now' f]) s \<and> out_done s
    \<and> written s = a @ concat (pieces (syscall_handle_event now' f)) @ b"
proof -
  have "\<exists>h r. block_handle_event now e = h # r \<and> h \<noteq> Lock \<and> Lock \<notin> set r
      \<and> concat (pieces [h]) \<noteq> [] \<and> concat (pieces r) \<noteq> []"
    by (simp add: block_handle_event_def LOG_def log_col_us_def log_col_def printf_def endl_def C_BOLD_def)
  then obtain h r where hr: "block_handle_event now e = h # r" "h \<noteq> Lock" "Lock \<notin> set r"
    "concat (pieces [h]) \<noteq> []" "concat (pieces r) \<noteq> []"
    by blast
  have f: "Lock \<notin> set (syscall_handle_event now' f)"
    by (simp add: syscall_handle_event_def LOG_def log_col_us_def log_col_def printf_def)
  obtain s where s: "out_reaches (out_start [[h] @ r, syscall_handle_event now' f]) s" "out_done s"
    "written s = concat (pieces [h]) @ concat (pieces (syscall_handle_event now' f)) @ concat (pieces r)"
    using unlocked_interleave [of "[h]" r "syscall_handle_event now' f"] hr f by auto
  have "concat (pieces (h # r)) = concat (pieces [h]) @ concat (pieces r)"
    using hr(2) by (cases h) simp_all
  then show ?thesis using s hr by (intro exI [of _ "concat (pieces [h])"] exI [of _ "concat (pieces r)"] exI [of _ s]) simp
qed

text \<open>
  C23: whatever fires in whatever order, and whatever allocation fails or entry is evicted, the state of each of the nine modules that time calls
  stays well-formed: the map has no more entries than its capacity and no key twice, there is one copy of the statistics or
  slot per CPU, and every entry of the map is live: it is what the last firing that opened its key stored, and no firing since
  closed it. No entry outlives its call.
\<close>

theorem states_wf:
  "open_inv c1 (fold open_step tr1 (open_init c1 n))
     \<and> length (Open_state.stats_map (fold open_step tr1 (open_init c1 n))) = n
     \<and> live_entries (open_starts c1) (open_closes c1) tr1 (tid_map (fold open_step tr1 (open_init c1 n)))
   \<and> read_inv c2 (fold read_step tr2 (read_init c2 n))
     \<and> length (Read_state.stats_map (fold read_step tr2 (read_init c2 n))) = n
     \<and> live_entries (read_starts c2) read_closes tr2 (inflight_reads (fold read_step tr2 (read_init c2 n)))
   \<and> write_inv c3 (fold write_step tr3 (write_init c3 n))
     \<and> length (Write_state.stats_map (fold write_step tr3 (write_init c3 n))) = n
     \<and> live_entries (write_starts c3) write_closes tr3 (inflight_writes (fold write_step tr3 (write_init c3 n)))
   \<and> block_inv c4 (fold block_step tr4 (block_init c4))
     \<and> live_entries (block_starts c4) (block_closes c4) tr4 (io_map (fold block_step tr4 (block_init c4)))
   \<and> mutex_inv c5 (fold mutex_step tr5 (mutex_init c5 n))
     \<and> length (Mutexlock_state.stats_map (fold mutex_step tr5 (mutex_init c5 n))) = n
     \<and> live_entries (mutex_starts c5) (mutex_closes c5) tr5 (contention_map (fold mutex_step tr5 (mutex_init c5 n)))
   \<and> dr_inv c6 (fold dr_step tr6 (dr_init c6 n))
     \<and> length (DrSnoop_state.stats_map (fold dr_step tr6 (dr_init c6 n))) = n
     \<and> live_entries (dr_starts c6) (dr_closes c6) tr6 (start (fold dr_step tr6 (dr_init c6 n)))
   \<and> cs_inv c7 (fold cs_step tr7 (cs_init c7 n))
     \<and> length (ContextSwitch_state.stats_map (fold cs_step tr7 (cs_init c7 n))) = n
     \<and> live_entries (cs_starts c7) (cs_closes c7) tr7 (wakeup_map (fold cs_step tr7 (cs_init c7 n)))
   \<and> preempt_inv c8 n (fold preempt_step tr8 (preempt_init c8 n))
     \<and> live_entries (preempt_starts c8 n) (preempt_on c8 n) tr8 (preempt_slots (fold preempt_step tr8 (preempt_init c8 n)))
   \<and> syscall_inv c9 n (fold syscall_step tr9 (syscall_init c9 n))
     \<and> live_entries (syscall_starts c9 n) (syscall_on c9 n) tr9 (syscall_slots (fold syscall_step tr9 (syscall_init c9 n)))"
  by (intro conjI run_invs run_lives) (simp_all only: run_copies, simp_all add: call_inits)

text \<open>
  C29: printing never blocks for good. Let the threads of the thirteen modules that print events write any events, short records and events a handler rejects
  included, in any interleaving. Whatever happened so far, all of them can finish, while one has not finished one can go on, and every call
  brings the end nearer, for no handler returns with the lock of \<^verbatim>\<open>stdout\<close> taken; and once all have finished, the output is an interleaving
  of the pieces the handlers wrote, with nothing lost, doubled or out of its thread's order.
\<close>

theorem output_completes:
  assumes "out_reaches (out_start (locked_threads strerror t @ unlocked_threads u)) s"
  shows "(\<exists>s'. out_reaches s s' \<and> out_done s')
    \<and> (out_done s \<or> (\<exists>s'. out_step s s')) \<and> (\<forall>s'. out_step s s' \<longrightarrow> calls_left s' < calls_left s)
    \<and> (out_done s \<longrightarrow> (\<exists>ms. merged (map pieces (locked_threads strerror t @ unlocked_threads u)) ms \<and> written s = concat (map snd ms)))"
proof -
  have b: "list_all balanced (locked_threads strerror t @ unlocked_threads u)"
    by (simp add: locked_threads_balanced unlocked_threads_balanced)
  show ?thesis using writers_finish [OF b assms] done_merged [OF b assms] by blast
qed

theorem output_completes_witness:
  "\<exists>s'. out_reaches (out_start (locked_threads (\<lambda>_. ''error'') demo_events
      @ unlocked_threads \<lparr>block_evs = [(noon, demo_io 5)], syscall_evs = [(noon, demo_call 3 4)], preempt_evs = [], mq_evs = []\<rparr>)) s'
    \<and> out_done s'"
  using output_completes [OF out_reaches.refl] by blast

text \<open>
  C4: the nine modules that time calls implement one specification, \<open>calls_of\<close>, which knows nothing of maps, capacities and CPUs: a
  partial function of the calls in flight and the list of events. As long as the maps keep what they are given
  (room in a HASH map, nothing evicted from an LRU map; always so for the per-CPU slots), the ring buffer holds exactly the
  specified events, in the same order: none missing, none twice, none too many, and the map holds exactly the calls in flight.
\<close>

theorem modules_exact:
  "(admissible (\<lambda>e s. hash_fits TID_MAP_MAX (tid_map s) (open_starts c1 e)) open_step tr1 (open_init c1 n) \<longrightarrow>
      (map_of (tid_map (fold open_step tr1 (open_init c1 n))), Open_state.rb (fold open_step tr1 (open_init c1 n)))
        = calls_of (open_starts c1) (open_ends c1) (open_reports c1) tr1)
   \<and> (admissible (\<lambda>e s. hash_fits INFLIGHT_READS_MAX (inflight_reads s) (read_starts c2 e)) read_step tr2 (read_init c2 n) \<longrightarrow>
      (map_of (inflight_reads (fold read_step tr2 (read_init c2 n))), Read_state.rb (fold read_step tr2 (read_init c2 n)))
        = calls_of (read_starts c2) read_ends (read_reports c2) tr2)
   \<and> (admissible (\<lambda>e s. hash_fits INFLIGHT_WRITES_MAX (inflight_writes s) (write_starts c3 e)) write_step tr3
        (write_init c3 n) \<longrightarrow>
      (map_of (inflight_writes (fold write_step tr3 (write_init c3 n))), Write_state.rb (fold write_step tr3 (write_init c3 n)))
        = calls_of (write_starts c3) write_ends (write_reports c3) tr3)
   \<and> (admissible (\<lambda>e s. hash_fits IO_MAP_MAX (io_map s) (block_starts c4 e)) block_step tr4 (block_init c4) \<longrightarrow>
      (map_of (io_map (fold block_step tr4 (block_init c4))), BlockIo_state.rb (fold block_step tr4 (block_init c4)))
        = calls_of (block_starts c4) (block_ends c4) (block_reports c4) tr4)
   \<and> (admissible (\<lambda>e s. lru_fits CONTENTION_MAX (env_evict (mutex_env e)) (contention_map s) (mutex_starts c5 e)) mutex_step tr5
        (mutex_init c5 n) \<longrightarrow>
      (map_of (contention_map (fold mutex_step tr5 (mutex_init c5 n))), Mutexlock_state.rb (fold mutex_step tr5 (mutex_init c5 n)))
        = calls_of (mutex_starts c5) (mutex_ends c5) (mutex_reports c5) tr5)
   \<and> (admissible (\<lambda>e s. lru_fits DR_START_MAX (env_evict (dr_env e)) (start s) (dr_starts c6 e)) dr_step tr6 (dr_init c6 n) \<longrightarrow>
      (map_of (start (fold dr_step tr6 (dr_init c6 n))), DrSnoop_state.rb (fold dr_step tr6 (dr_init c6 n)))
        = calls_of (dr_starts c6) (dr_ends c6) (dr_reports c6) tr6)
   \<and> (admissible (\<lambda>e s. lru_fits WAKEUP_MAX (cs_evicted e) (wakeup_map s) (cs_starts c7 e)) cs_step tr7 (cs_init c7 n) \<longrightarrow>
      (map_of (wakeup_map (fold cs_step tr7 (cs_init c7 n))), ContextSwitch_state.rb (fold cs_step tr7 (cs_init c7 n)))
        = calls_of (cs_starts c7) (cs_ends c7) (cs_reports c7) tr7)
   \<and> (map_of (preempt_slots (fold preempt_step tr8 (preempt_init c8 n))), Preempt_state.rb (fold preempt_step tr8 (preempt_init c8 n)))
        = calls_of (preempt_starts c8 n) (preempt_ends c8 n) (preempt_reports c8) tr8
   \<and> (map_of (syscall_slots (fold syscall_step tr9 (syscall_init c9 n))), Syscall_state.rb (fold syscall_step tr9 (syscall_init c9 n)))
        = calls_of (syscall_starts c9 n) (syscall_ends c9 n) (syscall_reports c9) tr9"
  by (intro conjI impI call_runs admissible_True) (simp_all add: call_inits)

theorem modules_exact_witness:
  "snd (calls_of (open_starts open_demo_ctrl) (open_ends open_demo_ctrl) (open_reports open_demo_ctrl) open_demo_run)
    = Open_state.rb (fold open_step open_demo_run (open_init open_demo_ctrl 2))
   \<and> Open_state.rb (fold open_step open_demo_run (open_init open_demo_ctrl 2)) \<noteq> []"
proof -
  note exact = modules_exact [where ?c1.0 = open_demo_ctrl and ?tr1.0 = open_demo_run and n = 2, THEN conjunct1,
      THEN mp, OF open_demo_fits]
  show ?thesis using arg_cong [OF exact [symmetric], of snd] by (simp only: snd_conv open_demo_rb) simp
qed

end
